(* ===== verification/PM_Prelude.thy ===== *)
theory PM_Prelude
  imports Main "HOL-Library.Word"
begin

text \<open>
  Shared ground of the development: the named collections, the generic lemmas on lists and
  integers, Go's \<open>int64\<close> arithmetic, and the actions in which every stateful function of the
  service is written.

  An action takes the state and returns an outcome (\<open>Ret\<close> for a normal return, \<open>Panic\<close> for a
  Go panic) together with the state it leaves behind: a panic does not undo the writes made before
  it.  \<open>bindA\<close> is Go's sequencing: a panic skips what follows.  Two judgements carry the proofs of
  the components: \<open>keeps I m\<close> (the action keeps the invariant, whatever its outcome) and
  \<open>safe b J m Q\<close> (an invariant, a fact about the result, and whether the action may panic); their
  rules are collected in \<open>keeps_rules\<close> and \<open>safe_rules\<close>.
\<close>

named_theorems keeps_rules \<open>composition rules of \<open>keeps\<close>\<close>
named_theorems safe_rules \<open>composition rules of \<open>safe\<close>\<close>
named_theorems act_defs \<open>definitions that evaluate an action on a state\<close>

subsection \<open>Go integers\<close>

text \<open>
  \<open>int64\<close> values are integers in the signed 64-bit range; \<open>i64\<close> is the wrap-around that Go's
  \<open>+\<close>, \<open>-\<close> and conversions apply to the mathematical result.
\<close>

definition i64 :: "int \<Rightarrow> int" where
  "i64 x = signed_take_bit 63 x"

definition in_int64 :: "int \<Rightarrow> bool" where
  "in_int64 x \<longleftrightarrow> - (2 ^ 63) \<le> x \<and> x < 2 ^ 63"

lemma i64_id: "in_int64 x \<Longrightarrow> i64 x = x"
  by (simp add: i64_def in_int64_def signed_take_bit_int_eq_self)

lemma i64_range: "in_int64 (i64 x)"
proof -
  have "- (2 ^ 63) \<le> signed_take_bit 63 x" "signed_take_bit 63 x < 2 ^ 63"
    by (rule signed_take_bit_int_greater_eq_minus_exp, rule signed_take_bit_int_less_exp)
  then show ?thesis by (simp add: i64_def in_int64_def)
qed

subsection \<open>Lists\<close>

lemma map_upd_id [simp]: "(\<And>x. x \<in> set xs \<Longrightarrow> \<not> P x) \<Longrightarrow> map (\<lambda>x. if P x then f x else x) xs = xs"
  by (induction xs) auto

lemma filter_map_if:
  "(\<And>x. P x \<Longrightarrow> Q (f x) = Q x) \<Longrightarrow>
   filter Q (map (\<lambda>x. if P x then f x else x) xs) = map (\<lambda>x. if P x then f x else x) (filter Q xs)"
  by (induction xs) auto

lemma distinct_map_filter_le1:
  assumes "distinct (map f xs)"
  shows "filter (\<lambda>x. f x = k) xs = [] \<or> (\<exists>y. filter (\<lambda>x. f x = k) xs = [y] \<and> f y = k \<and> y \<in> set xs)"
  using assms
proof (induction xs)
  case Nil
  then show ?case by simp
next
  case (Cons x xs)
  show ?case
  proof (cases "f x = k")
    case True
    with Cons.prems have "filter (\<lambda>y. f y = k) xs = []"
      by (auto simp: filter_empty_conv rev_image_eqI)
    with True show ?thesis by simp
  next
    case False
    with Cons show ?thesis by auto
  qed
qed

subsection \<open>Outcomes and actions\<close>

datatype 'a outcome = Ret 'a | Panic string

type_synonym ('s, 'a) act = "'s \<Rightarrow> 'a outcome \<times> 's"

definition returnA :: "'a \<Rightarrow> ('s, 'a) act" where
  [act_defs]: "returnA x = (\<lambda>s. (Ret x, s))"

definition panicA :: "string \<Rightarrow> ('s, 'a) act" where
  [act_defs]: "panicA msg = (\<lambda>s. (Panic msg, s))"

definition bindA :: "('s, 'a) act \<Rightarrow> ('a \<Rightarrow> ('s, 'b) act) \<Rightarrow> ('s, 'b) act" where
  [act_defs]: "bindA m k = (\<lambda>s. case m s of (Ret x, s') \<Rightarrow> k x s' | (Panic msg, s') \<Rightarrow> (Panic msg, s'))"

definition getsA :: "('s \<Rightarrow> 'a) \<Rightarrow> ('s, 'a) act" where
  [act_defs]: "getsA f = (\<lambda>s. (Ret (f s), s))"

definition modifyA :: "('s \<Rightarrow> 's) \<Rightarrow> ('s, unit) act" where
  [act_defs]: "modifyA f = (\<lambda>s. (Ret (), f s))"

text \<open>A pure computation that may panic (a nil dereference, an index out of range).\<close>

definition outcomeA :: "'a outcome \<Rightarrow> ('s, 'a) act" where
  [act_defs]: "outcomeA r = (\<lambda>s. (r, s))"

text \<open>Go's \<open>for _, x := range xs\<close> with a body that has no \<open>return\<close> of the function.\<close>

fun foreachA :: "('a \<Rightarrow> ('s, unit) act) \<Rightarrow> 'a list \<Rightarrow> ('s, unit) act" where
  "foreachA f [] = returnA ()"
| "foreachA f (x # xs) = bindA (f x) (\<lambda>_. foreachA f xs)"

text \<open>The same loop with local variables that the body updates.\<close>

fun foldA :: "('a \<Rightarrow> 'b \<Rightarrow> ('s, 'b) act) \<Rightarrow> 'a list \<Rightarrow> 'b \<Rightarrow> ('s, 'b) act" where
  "foldA f [] acc = returnA acc"
| "foldA f (x # xs) acc = bindA (f x acc) (foldA f xs)"

lemma returnA_app [simp]: "returnA x s = (Ret x, s)"
  by (simp add: returnA_def)

lemma panicA_app [simp]: "panicA msg s = (Panic msg, s)"
  by (simp add: panicA_def)

lemma getsA_app [simp]: "getsA f s = (Ret (f s), s)"
  by (simp add: getsA_def)

lemma modifyA_app [simp]: "modifyA f s = (Ret (), f s)"
  by (simp add: modifyA_def)

lemma outcomeA_app [simp]: "outcomeA r s = (r, s)"
  by (simp add: outcomeA_def)

lemma bindA_Ret [simp]: "m s = (Ret x, s') \<Longrightarrow> bindA m k s = k x s'"
  by (simp add: bindA_def)

lemma bindA_Panic [simp]: "m s = (Panic msg, s') \<Longrightarrow> bindA m k s = (Panic msg, s')"
  by (simp add: bindA_def)

lemma bindA_return_left [simp]: "bindA (returnA x) k = k x"
  by (simp add: bindA_def fun_eq_iff)

lemma bindA_return_right [simp]: "bindA m returnA = m"
  by (auto simp: bindA_def fun_eq_iff split: prod.split outcome.split)

lemma bindA_gets_left: "bindA (getsA f) k s = k (f s) s"
  by simp

lemma bindA_assoc: "bindA (bindA m k) l = bindA m (\<lambda>x. bindA (k x) l)"
  by (auto simp: bindA_def fun_eq_iff split: prod.splits outcome.splits)

lemma bindA_cases:
  obtains (Ret) x s' where "m s = (Ret x, s')" "bindA m k s = k x s'"
        | (Panic) msg s' where "m s = (Panic msg, s')" "bindA m k s = (Panic msg, s')"
proof (cases "m s")
  case (Pair r s')
  then show ?thesis using that by (cases r) auto
qed

subsection \<open>Invariants kept by an action\<close>

definition keeps :: "('s \<Rightarrow> bool) \<Rightarrow> ('s, 'a) act \<Rightarrow> bool" where
  "keeps I m \<longleftrightarrow> (\<forall>s. I s \<longrightarrow> I (snd (m s)))"

lemma keepsI: "(\<And>s. I s \<Longrightarrow> I (snd (m s))) \<Longrightarrow> keeps I m"
  by (simp add: keeps_def)

lemma keepsD: "keeps I m \<Longrightarrow> I s \<Longrightarrow> I (snd (m s))"
  by (simp add: keeps_def)

lemma keeps_returnA [keeps_rules]: "keeps I (returnA x)"
  by (simp add: keeps_def)

lemma keeps_panicA [keeps_rules]: "keeps I (panicA msg)"
  by (simp add: keeps_def)

lemma keeps_getsA [keeps_rules]: "keeps I (getsA f)"
  by (simp add: keeps_def)

lemma keeps_outcomeA [keeps_rules]: "keeps I (outcomeA r)"
  by (simp add: keeps_def)

lemma keeps_bindA [keeps_rules]:
  assumes "keeps I m" and "\<And>x. keeps I (k x)"
  shows "keeps I (bindA m k)"
proof (rule keepsI)
  fix s assume s: "I s"
  show "I (snd (bindA m k s))"
  proof (cases rule: bindA_cases [of m s k])
    case (Ret x s')
    from keepsD [OF assms(1) s] Ret(1) have "I s'" by simp
    with keepsD [OF assms(2)] Ret(2) show ?thesis by simp
  next
    case (Panic msg s')
    with keepsD [OF assms(1) s] show ?thesis by simp
  qed
qed

lemma keeps_if [keeps_rules]:
  "(b \<Longrightarrow> keeps I m) \<Longrightarrow> (\<not> b \<Longrightarrow> keeps I n) \<Longrightarrow> keeps I (if b then m else n)"
  by simp

lemma keeps_Let [keeps_rules]: "(\<And>x. x = t \<Longrightarrow> keeps I (f x)) \<Longrightarrow> keeps I (let x = t in f x)"
  by simp

lemma keeps_case_option [keeps_rules]:
  "(t = None \<Longrightarrow> keeps I m) \<Longrightarrow> (\<And>x. t = Some x \<Longrightarrow> keeps I (f x)) \<Longrightarrow>
   keeps I (case t of None \<Rightarrow> m | Some x \<Rightarrow> f x)"
  by (cases t) simp_all

lemma keeps_case_sum [keeps_rules]:
  "(\<And>x. t = Inl x \<Longrightarrow> keeps I (f x)) \<Longrightarrow> (\<And>y. t = Inr y \<Longrightarrow> keeps I (g y)) \<Longrightarrow>
   keeps I (case t of Inl x \<Rightarrow> f x | Inr y \<Rightarrow> g y)"
  by (cases t) simp_all

lemma keeps_case_prod [keeps_rules]:
  "(\<And>x y. t = (x, y) \<Longrightarrow> keeps I (f x y)) \<Longrightarrow> keeps I (case t of (x, y) \<Rightarrow> f x y)"
  by (cases t) simp_all

lemma foreachA_cong [fundef_cong]: "xs = ys \<Longrightarrow> (\<And>x. x \<in> set ys \<Longrightarrow> f x = g x) \<Longrightarrow> foreachA f xs = foreachA g ys"
  by (induction xs arbitrary: ys) auto

lemma foreachA_append: "foreachA f (xs @ ys) s = bindA (foreachA f xs) (\<lambda>_. foreachA f ys) s"
  by (induction xs arbitrary: s) (auto simp: bindA_def split: prod.split outcome.split)

lemma keeps_foreachA [keeps_rules]:
  "(\<And>x. x \<in> set xs \<Longrightarrow> keeps I (f x)) \<Longrightarrow> keeps I (foreachA f xs)"
  by (induction xs) (auto intro!: keeps_returnA keeps_bindA)

lemma keeps_foldA [keeps_rules]:
  "(\<And>x acc. x \<in> set xs \<Longrightarrow> keeps I (f x acc)) \<Longrightarrow> keeps I (foldA f xs acc)"
  by (induction xs arbitrary: acc) (auto intro!: keeps_returnA keeps_bindA)

subsection \<open>Safe actions\<close>

text \<open>
  \<open>safe b J m Q\<close>: started in a state with \<open>J\<close>, the action ends in one, its result satisfies \<open>Q\<close>, and it
  panics only if \<open>b\<close>.  With \<open>b\<close> true this is an invariant under every panic; with \<open>b\<close> false it says
  that the action returns.
\<close>

definition safe :: "bool \<Rightarrow> ('s \<Rightarrow> bool) \<Rightarrow> ('s, 'a) act \<Rightarrow> ('a \<Rightarrow> bool) \<Rightarrow> bool" where
  "safe b J m Q \<longleftrightarrow> (\<forall>s. J s \<longrightarrow> J (snd (m s)) \<and> (case fst (m s) of Ret x \<Rightarrow> Q x | Panic _ \<Rightarrow> b))"

abbreviation secure :: "bool \<Rightarrow> ('s \<Rightarrow> bool) \<Rightarrow> ('s, 'a) act \<Rightarrow> bool" where
  "secure b J m \<equiv> safe b J m (\<lambda>_. True)"

lemma safeI:
  "(\<And>s. J s \<Longrightarrow> J (snd (m s)) \<and> (case fst (m s) of Ret x \<Rightarrow> Q x | Panic _ \<Rightarrow> b)) \<Longrightarrow> safe b J m Q"
  by (simp add: safe_def)

lemma safeD: "safe b J m Q \<Longrightarrow> J s \<Longrightarrow> J (snd (m s)) \<and> (case fst (m s) of Ret x \<Rightarrow> Q x | Panic _ \<Rightarrow> b)"
  by (simp add: safe_def)

lemma safe_keeps: "safe b J m Q \<Longrightarrow> keeps J m"
  by (simp add: safe_def keeps_def)

lemma keeps_secure: "keeps J m \<Longrightarrow> secure True J m"
  by (simp add: safe_def keeps_def split: outcome.split)

lemma safe_returns:
  assumes "safe False J m Q" "J s"
  obtains x s' where "m s = (Ret x, s')" "Q x" "J s'"
  using safeD [OF assms] that by (cases "m s") (auto split: outcome.splits)

lemma safe_weaken: "safe b J m Q \<Longrightarrow> (b \<Longrightarrow> c) \<Longrightarrow> (\<And>x. Q x \<Longrightarrow> R x) \<Longrightarrow> safe c J m R"
  by (auto simp: safe_def split: outcome.splits)

lemma safe_returnA: "Q x \<Longrightarrow> safe b J (returnA x) Q"
  by (simp add: safe_def)

lemma secure_returnA [safe_rules]: "secure b J (returnA x)"
  by (simp add: safe_def)

lemma safe_getsA [safe_rules]: "secure b J (getsA f)"
  by (simp add: safe_def)

lemma safe_panicA: "b \<Longrightarrow> safe b J (panicA msg) Q"
  by (simp add: safe_def)

lemma safe_bindA:
  assumes "safe b J m R" and "\<And>x. R x \<Longrightarrow> safe b J (k x) Q"
  shows "safe b J (bindA m k) Q"
proof (rule safeI)
  fix s assume s: "J s"
  show "J (snd (bindA m k s)) \<and> (case fst (bindA m k s) of Ret x \<Rightarrow> Q x | Panic _ \<Rightarrow> b)"
  proof (cases rule: bindA_cases [of m s k])
    case (Ret x s')
    from safeD [OF assms(1) s] Ret(1) have "J s'" "R x" by simp_all
    with safeD [OF assms(2)] Ret(2) show ?thesis by simp
  next
    case (Panic msg s')
    with safeD [OF assms(1) s] show ?thesis by simp
  qed
qed

lemma secure_bindA [safe_rules]:
  "secure b J m \<Longrightarrow> (\<And>x. safe b J (k x) Q) \<Longrightarrow> safe b J (bindA m k) Q"
  by (rule safe_bindA)

lemma safe_outcomeA: "r = Ret x \<Longrightarrow> secure b J (outcomeA r)"
  by (simp add: safe_def)

lemma safe_if [safe_rules]:
  "(c \<Longrightarrow> safe b J m Q) \<Longrightarrow> (\<not> c \<Longrightarrow> safe b J n Q) \<Longrightarrow> safe b J (if c then m else n) Q"
  by simp

lemma safe_Let [safe_rules]: "(\<And>x. x = t \<Longrightarrow> safe b J (f x) Q) \<Longrightarrow> safe b J (let x = t in f x) Q"
  by simp

lemma safe_case_option [safe_rules]:
  "(t = None \<Longrightarrow> safe b J m Q) \<Longrightarrow> (\<And>x. t = Some x \<Longrightarrow> safe b J (f x) Q) \<Longrightarrow>
   safe b J (case t of None \<Rightarrow> m | Some x \<Rightarrow> f x) Q"
  by (cases t) simp_all

lemma safe_case_sum [safe_rules]:
  "(\<And>x. t = Inl x \<Longrightarrow> safe b J (f x) Q) \<Longrightarrow> (\<And>y. t = Inr y \<Longrightarrow> safe b J (g y) Q) \<Longrightarrow>
   safe b J (case t of Inl x \<Rightarrow> f x | Inr y \<Rightarrow> g y) Q"
  by (cases t) simp_all

lemma safe_case_prod [safe_rules]:
  "(\<And>x y. t = (x, y) \<Longrightarrow> safe b J (f x y) Q) \<Longrightarrow> safe b J (case t of (x, y) \<Rightarrow> f x y) Q"
  by (cases t) simp_all

lemma safe_foreachA:
  "(\<And>x. x \<in> set xs \<Longrightarrow> secure b J (f x)) \<Longrightarrow> secure b J (foreachA f xs)"
  by (induction xs) (auto intro!: secure_returnA secure_bindA)

lemma safe_foldA:
  "(\<And>x acc. x \<in> set xs \<Longrightarrow> secure b J (f x acc)) \<Longrightarrow> secure b J (foldA f xs acc)"
  by (induction xs arbitrary: acc) (auto intro!: secure_returnA secure_bindA)

text \<open>A run of jobs: each of them takes the state the one before has left and gives a result.\<close>

fun runs :: "('x \<Rightarrow> 'r \<Rightarrow> 's \<Rightarrow> 's \<Rightarrow> bool) \<Rightarrow> 'x list \<Rightarrow> 'r list \<Rightarrow> 's \<Rightarrow> 's \<Rightarrow> bool" where
  "runs J [] [] a b \<longleftrightarrow> b = a"
| "runs J (x # xs) (r # rs) a b \<longleftrightarrow> (\<exists>c. J x r a c \<and> runs J xs rs c b)"
| "runs J _ _ a b \<longleftrightarrow> False"

lemma runs_length: "runs J xs rs a b \<Longrightarrow> length rs = length xs"
  by (induction J xs rs a b rule: runs.induct) auto

lemma runs_keep:
  assumes "runs J xs rs a b" "\<And>x r s t. J x r s t \<Longrightarrow> f t = f s"
  shows "f b = f a"
  using assms(1)
proof (induction xs arbitrary: rs a)
  case Nil
  then show ?case by (cases rs) auto
next
  case (Cons x xs)
  then obtain r rs' c where c: "rs = r # rs'" "J x r a c" "runs J xs rs' c b" by (cases rs) auto
  from Cons.IH [OF c(3)] assms(2) [OF c(2)] show ?case by simp
qed

text \<open>Each job appends an output of its own.\<close>

lemma runs_outputs:
  assumes "runs J xs rs a b"
    and "\<And>x r s t. J x r s t \<Longrightarrow> \<exists>u. out t = out s @ u \<and> Q x r u"
  shows "\<exists>us. length us = length xs \<and> out b = out a @ concat us \<and> (\<forall>i < length xs. Q (xs ! i) (rs ! i) (us ! i))"
  using assms(1)
proof (induction xs arbitrary: rs a)
  case Nil
  then show ?case by (cases rs) auto
next
  case (Cons x xs)
  then obtain r rs' c where c: "rs = r # rs'" "J x r a c" "runs J xs rs' c b" by (cases rs) auto
  obtain u1 where u1: "out c = out a @ u1" "Q x r u1" using assms(2) [OF c(2)] by blast
  obtain us where "length us = length xs" "out b = out c @ concat us" "\<forall>i < length xs. Q (xs ! i) (rs' ! i) (us ! i)"
    using Cons.IH [OF c(3)] by blast
  with u1 c(1) show ?case by (intro exI [of _ "u1 # us"]) (auto simp: nth_Cons split: nat.split)
qed

end
