(* ===== verification/PM_Common.thy ===== *)
theory PM_Common
  imports PM_Prelude
begin

text \<open>
  The values that cross the service's boundaries and their textual and binary forms:
  \<open>big.Int\<close> as \<open>int\<close> (its \<open>Bytes\<close>, \<open>SetBytes\<close>, \<open>String\<close> and \<open>SetString(_, 10)\<close>, with the two
  wrappers of \<open>utils/utils.go\<close>), go-ethereum's \<open>common.Hash\<close> and \<open>common.Address\<close> as the 256-bit and
  160-bit words with the same big-endian bytes, their hexadecimal forms (\<open>HexToHash\<close>,
  \<open>HexToAddress\<close>, \<open>Hash.String\<close>, the EIP-55 \<open>Address.Hex\<close>) and Photon's \<open>BigIntTo32Bytes\<close>.
  The lemmas are the round trips the database columns rely on: a value written as text and read
  back is the same value.
\<close>

type_synonym byte = "8 word"
type_synonym Hash = "256 word"
type_synonym Address = "160 word"

subsection \<open>Big-endian bytes\<close>

fun nat_bytes :: "nat \<Rightarrow> byte list" where
  "nat_bytes n = (if n = 0 then [] else nat_bytes (n div 256) @ [of_nat (n mod 256)])"

declare nat_bytes.simps [simp del]

fun nat_of_bytes_acc :: "nat \<Rightarrow> byte list \<Rightarrow> nat" where
  "nat_of_bytes_acc acc [] = acc"
| "nat_of_bytes_acc acc (b # bs) = nat_of_bytes_acc (acc * 256 + unat b) bs"

definition nat_of_bytes :: "byte list \<Rightarrow> nat" where
  "nat_of_bytes bs = nat_of_bytes_acc 0 bs"

definition pad_left :: "nat \<Rightarrow> byte list \<Rightarrow> byte list" where
  "pad_left k bs = replicate (k - length bs) 0 @ bs"

text \<open>An array of bytes held as a word: its bytes, most significant first.\<close>

definition word_bytes :: "'a::len word \<Rightarrow> byte list" where
  "word_bytes w = pad_left (LENGTH('a) div 8) (nat_bytes (unat w))"

lemma nat_bytes_0 [simp]: "nat_bytes 0 = []"
  by (simp add: nat_bytes.simps)

lemma nat_of_bytes_acc_append:
  "nat_of_bytes_acc acc (xs @ ys) = nat_of_bytes_acc (nat_of_bytes_acc acc xs) ys"
  by (induction xs arbitrary: acc) simp_all

lemma nat_of_bytes_nat_bytes [simp]: "nat_of_bytes (nat_bytes n) = n"
proof (induction n rule: nat_bytes.induct)
  case (1 n)
  show ?case
  proof (cases "n = 0")
    case True
    then show ?thesis by (simp add: nat_of_bytes_def)
  next
    case False
    with 1 have IH: "nat_of_bytes_acc 0 (nat_bytes (n div 256)) = n div 256"
      by (simp add: nat_of_bytes_def)
    have "unat (of_nat (n mod 256) :: byte) = n mod 256"
      by (simp add: unat_of_nat)
    with False IH show ?thesis
      by (simp add: nat_of_bytes_def nat_bytes.simps [of n] nat_of_bytes_acc_append)
  qed
qed

lemma length_nat_bytes: "n < 256 ^ k \<Longrightarrow> length (nat_bytes n) \<le> k"
proof (induction k arbitrary: n)
  case 0
  then show ?case by simp
next
  case (Suc k)
  show ?case
  proof (cases "n = 0")
    case False
    from Suc.prems have "n div 256 < 256 ^ k"
      by (simp add: div_less_iff_less_mult mult.commute)
    with Suc.IH have "length (nat_bytes (n div 256)) \<le> k" by blast
    with False show ?thesis by (simp add: nat_bytes.simps [of n])
  qed simp
qed

lemma nat_of_bytes_pad [simp]: "nat_of_bytes (pad_left k bs) = nat_of_bytes bs"
proof -
  have "nat_of_bytes_acc 0 (replicate m 0 @ bs) = nat_of_bytes_acc 0 bs" for m
    by (induction m) simp_all
  then show ?thesis by (simp add: nat_of_bytes_def pad_left_def)
qed

lemma length_pad_left: "length bs \<le> k \<Longrightarrow> length (pad_left k bs) = k"
  by (simp add: pad_left_def)

lemma length_word_bytes:
  assumes "LENGTH('a::len) = 8 * k"
  shows "length (word_bytes (w :: 'a word)) = k"
proof -
  have "unat w < 2 ^ LENGTH('a)" by (rule unsigned_less)
  then have "unat w < 256 ^ k" by (simp add: assms power_mult)
  then have "length (nat_bytes (unat w)) \<le> k" by (rule length_nat_bytes)
  then show ?thesis by (simp add: word_bytes_def assms length_pad_left)
qed

lemma nat_of_bytes_word_bytes [simp]: "nat_of_bytes (word_bytes w) = unat w"
  by (simp add: word_bytes_def)

lemma word_bytes_inject: "word_bytes v = word_bytes w \<longleftrightarrow> v = w"
  by (metis nat_of_bytes_word_bytes word_unat_eq_iff)

lemma length_word_bytes_Hash [simp]: "length (word_bytes (h :: Hash)) = 32"
  by (rule length_word_bytes) simp

lemma length_word_bytes_Address [simp]: "length (word_bytes (a :: Address)) = 20"
  by (rule length_word_bytes) simp

lemma length_word_bytes_64 [simp]: "length (word_bytes (x :: 64 word)) = 8"
  by (rule length_word_bytes) simp

subsection \<open>\<open>big.Int\<close>: bytes and decimal text\<close>

text \<open>\<open>Bytes\<close> returns the absolute value, \<open>SetBytes\<close> reads an unsigned one: the sign is lost.\<close>

definition BigInt_Bytes :: "int \<Rightarrow> byte list" where
  "BigInt_Bytes x = nat_bytes (nat \<bar>x\<bar>)"

definition BigInt_SetBytes :: "byte list \<Rightarrow> int" where
  "BigInt_SetBytes bs = int (nat_of_bytes bs)"

lemma SetBytes_Bytes: "BigInt_SetBytes (BigInt_Bytes x) = \<bar>x\<bar>"
  by (simp add: BigInt_SetBytes_def BigInt_Bytes_def)

lemma SetBytes_nonneg [simp]: "0 \<le> BigInt_SetBytes bs"
  by (simp add: BigInt_SetBytes_def)

lemma SetBytes_Nil [simp]: "BigInt_SetBytes [] = 0"
  by (simp add: BigInt_SetBytes_def nat_of_bytes_def)

definition digit_char :: "nat \<Rightarrow> char" where
  "digit_char d = char_of (48 + d)"

definition digit_val :: "char \<Rightarrow> nat option" where
  "digit_val c = (let k = of_char c in if 48 \<le> k \<and> k \<le> 57 then Some (k - 48) else None)"

fun nat_decimal :: "nat \<Rightarrow> string" where
  "nat_decimal n = (if n < 10 then [digit_char n] else nat_decimal (n div 10) @ [digit_char (n mod 10)])"

declare nat_decimal.simps [simp del]

definition BigInt_String :: "int \<Rightarrow> string" where
  "BigInt_String x = (if x < 0 then ''-'' @ nat_decimal (nat (- x)) else nat_decimal (nat x))"

fun scan_digits :: "nat \<Rightarrow> string \<Rightarrow> nat option" where
  "scan_digits acc [] = Some acc"
| "scan_digits acc (c # cs) =
     (case digit_val c of None \<Rightarrow> None | Some d \<Rightarrow> scan_digits (10 * acc + d) cs)"

definition scan_nat :: "string \<Rightarrow> nat option" where
  "scan_nat s = (if s = [] then None else scan_digits 0 s)"

definition BigInt_SetString :: "string \<Rightarrow> int option" where
  "BigInt_SetString s =
     (case s of
        [] \<Rightarrow> None
      | c # cs \<Rightarrow>
          if c = CHR ''-'' then map_option (\<lambda>n. - int n) (scan_nat cs)
          else if c = CHR ''+'' then map_option int (scan_nat cs)
          else map_option int (scan_nat s))"

text \<open>\<open>utils.BigIntToString\<close> (a nil pointer is ``0'') and \<open>utils.StringToBigInt\<close> (unreadable text is 0).\<close>

definition BigIntToString :: "int option \<Rightarrow> string" where
  "BigIntToString b = (case b of None \<Rightarrow> ''0'' | Some x \<Rightarrow> BigInt_String x)"

definition StringToBigInt :: "string \<Rightarrow> int" where
  "StringToBigInt s = (case BigInt_SetString s of None \<Rightarrow> 0 | Some x \<Rightarrow> x)"

lemma digit_val_char [simp]: "d < 10 \<Longrightarrow> digit_val (digit_char d) = Some d"
  by (simp add: digit_val_def digit_char_def Let_def)

lemma scan_digits_append:
  "scan_digits acc (xs @ ys) = Option.bind (scan_digits acc xs) (\<lambda>a. scan_digits a ys)"
  by (induction xs arbitrary: acc) (simp_all split: option.split)

lemma scan_nat_decimal: "scan_digits 0 (nat_decimal n) = Some n"
proof (induction n rule: nat_decimal.induct)
  case (1 n)
  show ?case
  proof (cases "n < 10")
    case True
    then show ?thesis by (simp add: nat_decimal.simps [of n])
  next
    case False
    with 1 show ?thesis by (simp add: nat_decimal.simps [of n] scan_digits_append)
  qed
qed

lemma nat_decimal_nonempty [simp]: "nat_decimal n \<noteq> []"
  by (simp add: nat_decimal.simps [of n])

lemma nat_decimal_hd: "\<exists>d < 10. hd (nat_decimal n) = digit_char d"
proof (induction n rule: nat_decimal.induct)
  case (1 n)
  show ?case
  proof (cases "n < 10")
    case True
    then show ?thesis by (auto simp: nat_decimal.simps [of n])
  next
    case False
    with 1 show ?thesis by (simp add: nat_decimal.simps [of n] hd_append)
  qed
qed

lemma nat_decimal_no_sign: "hd (nat_decimal n) \<noteq> CHR ''-''" "hd (nat_decimal n) \<noteq> CHR ''+''"
proof -
  obtain d where d: "d < 10" "hd (nat_decimal n) = digit_char d" using nat_decimal_hd by blast
  then have "digit_val (hd (nat_decimal n)) = Some d" by simp
  then show "hd (nat_decimal n) \<noteq> CHR ''-''" "hd (nat_decimal n) \<noteq> CHR ''+''"
    by (auto simp: digit_val_def Let_def)
qed

lemma SetString_String [simp]: "BigInt_SetString (BigInt_String x) = Some x"
proof (cases "x < 0")
  case True
  then show ?thesis
    by (simp add: BigInt_SetString_def BigInt_String_def scan_nat_def scan_nat_decimal)
next
  case False
  obtain c cs where cs: "nat_decimal (nat x) = c # cs"
    by (cases "nat_decimal (nat x)") simp_all
  with nat_decimal_no_sign [of "nat x"] have "c \<noteq> CHR ''-''" "c \<noteq> CHR ''+''" by simp_all
  with False cs scan_nat_decimal [of "nat x"] show ?thesis
    by (simp add: BigInt_SetString_def BigInt_String_def scan_nat_def)
qed

lemma StringToBigInt_BigInt_String [simp]: "StringToBigInt (BigInt_String x) = x"
  by (simp add: StringToBigInt_def)

lemma StringToBigInt_zero [simp]: "StringToBigInt ''0'' = 0"
  by (simp add: StringToBigInt_def BigInt_SetString_def scan_nat_def digit_val_def Let_def)

subsection \<open>Hexadecimal text\<close>

definition hex_char :: "nat \<Rightarrow> char" where
  "hex_char d = (if d < 10 then char_of (48 + d) else char_of (87 + d))"

definition hex_val :: "char \<Rightarrow> nat option" where
  "hex_val c =
     (let k = of_char c in
      if 48 \<le> k \<and> k \<le> 57 then Some (k - 48)
      else if 97 \<le> k \<and> k \<le> 102 then Some (k - 87)
      else if 65 \<le> k \<and> k \<le> 70 then Some (k - 55)
      else None)"

text \<open>\<open>hex.EncodeToString\<close>: lower case, two digits per byte.\<close>

definition hex_encode :: "byte list \<Rightarrow> string" where
  "hex_encode bs = concat (map (\<lambda>b. [hex_char (unat b div 16), hex_char (unat b mod 16)]) bs)"

text \<open>\<open>hex.DecodeString\<close> with its error dropped: the bytes before the first bad pair.\<close>

fun hex_decode :: "string \<Rightarrow> byte list" where
  "hex_decode (c # d # cs) =
     (case (hex_val c, hex_val d) of
        (Some h, Some l) \<Rightarrow> of_nat (16 * h + l) # hex_decode cs
      | _ \<Rightarrow> [])"
| "hex_decode _ = []"

definition FromHex :: "string \<Rightarrow> byte list" where
  "FromHex s =
     (let s1 = (if take 2 s = ''0x'' \<or> take 2 s = ''0X'' then drop 2 s else s);
          s2 = (if odd (length s1) then CHR ''0'' # s1 else s1)
      in hex_decode s2)"

text \<open>\<open>SetBytes\<close> of both array types keeps the last bytes when there are too many.\<close>

definition BytesToHash :: "byte list \<Rightarrow> Hash" where
  "BytesToHash b = of_nat (nat_of_bytes (drop (length b - 32) b))"

definition BytesToAddress :: "byte list \<Rightarrow> Address" where
  "BytesToAddress b = of_nat (nat_of_bytes (drop (length b - 20) b))"

definition HexToHash :: "string \<Rightarrow> Hash" where
  "HexToHash s = BytesToHash (FromHex s)"

definition HexToAddress :: "string \<Rightarrow> Address" where
  "HexToAddress s = BytesToAddress (FromHex s)"

definition Hash_String :: "Hash \<Rightarrow> string" where
  "Hash_String h = ''0x'' @ hex_encode (word_bytes h)"

text \<open>
  \<open>Address.Hex\<close>: the EIP-55 check sum upper-cases a letter when the matching nibble of the Keccak
  hash of the lower-case text exceeds 7.  The Keccak hash is a parameter of the model.
\<close>

definition checksum_char :: "byte list \<Rightarrow> nat \<Rightarrow> char \<Rightarrow> char" where
  "checksum_char hash i c =
     (let b = unat (hash ! (i div 2)); hashByte = (if even i then b div 16 else b mod 16) in
      if of_char c > (57 :: nat) \<and> hashByte > 7 then char_of (of_char c - 32 :: nat) else c)"

definition Address_Hex :: "(byte list \<Rightarrow> Hash) \<Rightarrow> Address \<Rightarrow> string" where
  "Address_Hex keccak a =
     (let unchecksummed = hex_encode (word_bytes a);
          hash = word_bytes (keccak (map (\<lambda>c. of_nat (of_char c)) unchecksummed))
      in ''0x'' @ map (\<lambda>(i, c). checksum_char hash i c) (enumerate 0 unchecksummed))"

lemma hex_val_hex_char [simp]: "d < 16 \<Longrightarrow> hex_val (hex_char d) = Some d"
  by (auto simp: hex_val_def hex_char_def Let_def)

lemma byte_div16 [simp]: "unat (b :: byte) div 16 < 16"
proof -
  have "unat b < 2 ^ LENGTH(8)" by (rule unsigned_less)
  then show ?thesis by simp
qed

lemma byte_mod16: "unat (b :: byte) mod 16 < 16"
  by simp

lemma hex_decode_encode [simp]: "hex_decode (hex_encode bs) = bs"
  by (induction bs) (simp_all add: hex_encode_def)

lemma length_hex_encode [simp]: "length (hex_encode bs) = 2 * length bs"
  by (induction bs) (simp_all add: hex_encode_def)

lemma hex_decode_cong: "map hex_val s = map hex_val t \<Longrightarrow> hex_decode s = hex_decode t"
proof (induction s arbitrary: t rule: hex_decode.induct)
  case (1 c d cs)
  then obtain c' d' cs' where "t = c' # d' # cs'"
    by (cases t; cases "tl t") auto
  with 1 show ?case by (auto split: option.split)
next
  case "2_1"
  then show ?case by simp
next
  case "2_2"
  then show ?case by auto
qed

lemma FromHex_0x: "even (length s) \<Longrightarrow> FromHex (''0x'' @ s) = hex_decode s"
  by (simp add: FromHex_def Let_def)

lemma HexToHash_String [simp]: "HexToHash (Hash_String h) = h"
  by (simp add: HexToHash_def Hash_String_def FromHex_0x [simplified] BytesToHash_def)

lemma Hash_String_inject: "Hash_String g = Hash_String h \<longleftrightarrow> g = h"
  by (metis HexToHash_String)

lemma Hash_String_nonempty [simp]: "Hash_String h \<noteq> []"
  by (simp add: Hash_String_def)

lemma hex_val_checksum:
  assumes "hex_val c = Some d" and "\<not> (65 \<le> (of_char c :: nat) \<and> of_char c \<le> (70 :: nat))"
  shows "hex_val (checksum_char hash i c) = Some d"
  using assms by (auto simp: hex_val_def checksum_char_def Let_def split: if_splits)

lemma hex_encode_lower: "c \<in> set (hex_encode bs) \<Longrightarrow> \<exists>d < 16. c = hex_char d"
  by (induction bs) (auto simp: hex_encode_def intro: byte_div16 byte_mod16)

lemma hex_char_not_upper: "d < 16 \<Longrightarrow> \<not> (65 \<le> (of_char (hex_char d) :: nat) \<and> of_char (hex_char d) \<le> (70 :: nat))"
  by (auto simp: hex_char_def)

lemma HexToAddress_Hex [simp]: "HexToAddress (Address_Hex keccak a) = a"
proof -
  let ?u = "hex_encode (word_bytes a)"
  let ?h = "word_bytes (keccak (map (\<lambda>c. of_nat (of_char c)) ?u))"
  let ?s = "map (\<lambda>(i, c). checksum_char ?h i c) (enumerate 0 ?u)"
  have "hex_val (checksum_char ?h i (?u ! i)) = hex_val (?u ! i)" if "i < length ?u" for i
  proof -
    from that have "?u ! i \<in> set ?u" by (rule nth_mem)
    then obtain d where "d < 16" "?u ! i = hex_char d" using hex_encode_lower by blast
    then show ?thesis by (simp add: hex_val_checksum hex_char_not_upper)
  qed
  then have "map hex_val ?s = map hex_val ?u"
    by (auto intro!: nth_equalityI simp: nth_enumerate_eq)
  then have "hex_decode ?s = word_bytes a"
    using hex_decode_cong [of ?s ?u] by simp
  then have "FromHex (Address_Hex keccak a) = word_bytes a"
    by (simp add: Address_Hex_def Let_def FromHex_0x [simplified])
  then show ?thesis by (simp add: HexToAddress_def BytesToAddress_def)
qed

subsection \<open>Fixed-width integers in signed messages\<close>

text \<open>
  Photon's \<open>BigIntTo32Bytes\<close>: a nil pointer and a value of more than 32 bytes panic; the sign is
  dropped by \<open>Bytes\<close>.  \<open>binary.Write\<close> of an \<open>int64\<close> in big-endian order writes its
  two's-complement word.
\<close>

definition BigIntTo32Bytes :: "int option \<Rightarrow> byte list outcome" where
  "BigIntTo32Bytes i =
     (case i of
        None \<Rightarrow> Panic ''nil pointer dereference''
      | Some x \<Rightarrow>
          let data = BigInt_Bytes x in
          if 32 < length data then Panic ''index out of range'' else Ret (pad_left 32 data))"

definition int64_bytes :: "int \<Rightarrow> byte list" where
  "int64_bytes x = word_bytes (word_of_int x :: 64 word)"

lemma length_int64_bytes [simp]: "length (int64_bytes x) = 8"
  by (simp add: int64_bytes_def)

lemma int64_bytes_inject:
  assumes "in_int64 x" "in_int64 y" "int64_bytes x = int64_bytes y"
  shows "x = y"
proof -
  from assms(3) have "(word_of_int x :: 64 word) = word_of_int y"
    by (simp add: int64_bytes_def word_bytes_inject)
  then have "sint (word_of_int x :: 64 word) = sint (word_of_int y :: 64 word)" by simp
  then have "signed_take_bit 63 x = signed_take_bit 63 y" by (simp add: sint_sbintrunc')
  with assms(1,2) show ?thesis using i64_id by (simp add: i64_def)
qed

lemma BigIntTo32Bytes_Ret:
  assumes "BigIntTo32Bytes i = Ret bs"
  shows "\<exists>x. i = Some x \<and> length bs = 32 \<and> int (nat_of_bytes bs) = \<bar>x\<bar>"
  using assms
  by (auto simp: BigIntTo32Bytes_def Let_def BigInt_Bytes_def length_pad_left
      split: option.splits if_splits)

lemma BigIntTo32Bytes_uint256: "0 \<le> x \<Longrightarrow> x < 2 ^ 256 \<Longrightarrow> \<exists>bs. BigIntTo32Bytes (Some x) = Ret bs"
proof -
  assume "0 \<le> x" "x < 2 ^ 256"
  then have "nat \<bar>x\<bar> < 256 ^ 32" by simp
  then have "length (nat_bytes (nat \<bar>x\<bar>)) \<le> 32" by (rule length_nat_bytes)
  then show ?thesis by (simp add: BigIntTo32Bytes_def BigInt_Bytes_def Let_def)
qed

end
