(* ===== verification/PM_Types.thy ===== *)
theory PM_Types
  imports PM_Common
begin

text \<open>
  The data of the service: the request structures of \<open>models/dto.go\<close> with their conversions, the
  row structures of the eight tables of \<open>models/db.go\<close> with their getters, and the configuration
  of \<open>params/config.go\<close>.

  A Go pointer that may be nil is an \<open>option\<close>; reading through it is an \<open>outcome\<close> that panics.
  Slices are lists (a nil slice is the empty one).  A column of gob bytes is an \<open>option\<close>: \<open>None\<close> is the
  empty byte string of a struct that was never encoded, which the decoder refuses, and
  \<open>Some v\<close> the encoding of \<open>v\<close>, which it reads back as \<open>v\<close>.
\<close>

subsection \<open>Errors\<close>

text \<open>
  One datatype for the \<open>error\<close> values: the store's own failure and gorm's \<open>ErrRecordNotFound\<close>, the
  refusals of the account operations, of \<open>updateDelegate\<close> and of the verifier.
\<close>

datatype error =
    DbErr string
  | ErrRecordNotFound
  | BalanceNotEnough int int
  | NeedSmtSmaller int int
  | UnlockTooMuch int int
  | OpenBlockNumberNotEqual int int
  | OlderNonce int int
  | Wrapped string error
  | ChainErr string
  | OpenBlockNumberNotMatch int int
  | ParticipantError
  | NonClosingError
  | LockError
  | UnlockSignatureError
  | PunishSignatureError
  | AnnouceDisposedError
  | SecretError
  | EmptyDelegate
  | SignatureError string
  | NonceNotPositive

text \<open>\<open>err.Error()\<close> for the errors whose text is kept in a column.\<close>

fun errText :: "error \<Rightarrow> string" where
  "errText (DbErr e) = e"
| "errText ErrRecordNotFound = ''record not found''"
| "errText (BalanceNotEnough av amount) =
     ''balance not enough,availabe='' @ BigInt_String av @ '',amount='' @ BigInt_String amount"
| "errText (NeedSmtSmaller need amount) =
     ''need smt smaller, need='' @ BigInt_String need @ '',amount='' @ BigInt_String amount"
| "errText (UnlockTooMuch amount locked) =
     ''error unlock smt ,unlock amount='' @ BigInt_String amount @ '',locked='' @ BigInt_String locked"
| "errText (Wrapped msg e) = msg @ errText e"
| "errText (ChainErr e) = e"
| "errText (SignatureError e) = e"
| "errText _ = ''''"

subsection \<open>Requests (\<open>dto.go\<close>)\<close>

text \<open>\<open>mtree.Lock\<close> of Photon.\<close>

record mtreeLock =
  Lock_Expiration :: int
  Lock_Amount :: "int option"
  Lock_LockSecretHash :: Hash

record updateTransfer =
  ut_Nonce :: int
  ut_TransferAmount :: "int option"
  ut_Locksroot :: Hash
  ut_ExtraHash :: Hash
  ut_ClosingSignature :: "byte list"
  ut_NonClosingSignature :: "byte list"
  ut_TxStatus :: int
  ut_TxError :: string
  ut_TxHash :: Hash

record unlockReq =
  un_Lock :: "mtreeLock option"
  un_MerkleProof :: "byte list"
  un_Signature :: "byte list"
  un_TxStatus :: int
  un_TxError :: string
  un_TxHash :: Hash

record secretReq =
  se_Secret :: Hash
  se_RegisterBlock :: int
  se_TxStatus :: int
  se_TxError :: string
  se_TxHash :: Hash

record punishReq =
  pu_LockHash :: Hash
  pu_AdditionalHash :: Hash
  pu_Signature :: "byte list"
  pu_TxStatus :: int
  pu_TxError :: string
  pu_TxHash :: Hash

record annouceDisposed =
  ad_LockSecretHash :: Hash

record channelFor3rd =
  c_ChannelIdentifier :: Hash
  c_OpenBlockNumber :: int
  c_TokenAddress :: Address
  c_PartnerAddress :: Address
  c_UpdateTransfer :: updateTransfer
  c_Unlocks :: "unlockReq option list"
  c_Punishes :: "punishReq option list"
  c_AnnouceDisposed :: "annouceDisposed option list"
  c_Secrets :: "secretReq option list"
  c_settleBlockNumber :: int

definition SetSettleBlockNumber :: "int \<Rightarrow> channelFor3rd \<Rightarrow> channelFor3rd" where
  "SetSettleBlockNumber blockNumber c = c\<lparr>c_settleBlockNumber := blockNumber\<rparr>"

subsection \<open>Stored parts of a delegation\<close>

record delegateUpdateBalanceProof =
  du_Nonce :: int
  du_TransferAmountStr :: string
  du_LocksrootStr :: string
  du_ExtraHashStr :: string
  du_ClosingSignature :: "byte list"
  du_NonClosingSignature :: "byte list"

definition TransferAmount :: "delegateUpdateBalanceProof \<Rightarrow> int" where
  "TransferAmount dubp = StringToBigInt (du_TransferAmountStr dubp)"

definition Locksroot :: "delegateUpdateBalanceProof \<Rightarrow> Hash" where
  "Locksroot dubp = HexToHash (du_LocksrootStr dubp)"

definition ExtraHash :: "delegateUpdateBalanceProof \<Rightarrow> Hash" where
  "ExtraHash dubp = HexToHash (du_ExtraHashStr dubp)"

record delegateUnlock =
  dl_LockSecretHashStr :: string
  dl_AmountStr :: string
  dl_Expiration :: int
  dl_MerkleProof :: "byte list"
  dl_Signature :: "byte list"

definition dl_LockSecretHash :: "delegateUnlock \<Rightarrow> Hash" where
  "dl_LockSecretHash du = HexToHash (dl_LockSecretHashStr du)"

definition dl_Amount :: "delegateUnlock \<Rightarrow> int" where
  "dl_Amount du = StringToBigInt (dl_AmountStr du)"

record delegateSecret =
  ds_Secret :: string
  ds_RegisterBlock :: int

definition GetSecret :: "delegateSecret \<Rightarrow> Hash" where
  "GetSecret ds = HexToHash (ds_Secret ds)"

record delegatePunish =
  dp_ID :: nat
  dp_LockHashStr :: string
  dp_DelegateKey :: "byte list"
  dp_AdditionalHashStr :: string
  dp_Signature :: "byte list"

definition dp_LockHash :: "delegatePunish \<Rightarrow> Hash" where
  "dp_LockHash dp = HexToHash (dp_LockHashStr dp)"

definition dp_AdditionalHash :: "delegatePunish \<Rightarrow> Hash" where
  "dp_AdditionalHash dp = HexToHash (dp_AdditionalHashStr dp)"

record delegateAnnounceDispose =
  da_ID :: nat
  da_LockSecretHashStr :: string
  da_DelegateKey :: "byte list"

definition da_LockSecretHash :: "delegateAnnounceDispose \<Rightarrow> Hash" where
  "da_LockSecretHash da = HexToHash (da_LockSecretHashStr da)"

subsection \<open>Conversions of a request\<close>

definition GetDelegateUpdateBalanceProof :: "channelFor3rd \<Rightarrow> delegateUpdateBalanceProof" where
  "GetDelegateUpdateBalanceProof c =
     (let u = c_UpdateTransfer c in
      \<lparr>du_Nonce = ut_Nonce u,
       du_TransferAmountStr = BigIntToString (ut_TransferAmount u),
       du_LocksrootStr = Hash_String (ut_Locksroot u),
       du_ExtraHashStr = Hash_String (ut_ExtraHash u),
       du_ClosingSignature = ut_ClosingSignature u,
       du_NonClosingSignature = ut_NonClosingSignature u\<rparr>)"

text \<open>A nil element, or an unlock whose \<open>Lock\<close> is nil, is dereferenced: a panic.\<close>

fun mapOutcome :: "('a \<Rightarrow> 'b outcome) \<Rightarrow> 'a list \<Rightarrow> 'b list outcome" where
  "mapOutcome f [] = Ret []"
| "mapOutcome f (x # xs) =
     (case f x of
        Panic msg \<Rightarrow> Panic msg
      | Ret y \<Rightarrow> (case mapOutcome f xs of Panic msg \<Rightarrow> Panic msg | Ret ys \<Rightarrow> Ret (y # ys)))"

definition nilDeref :: string where
  "nilDeref = ''nil pointer dereference''"

definition toDelegateUnlock :: "unlockReq option \<Rightarrow> delegateUnlock outcome" where
  "toDelegateUnlock p =
     (case p of
        None \<Rightarrow> Panic nilDeref
      | Some u \<Rightarrow>
          (case un_Lock u of
             None \<Rightarrow> Panic nilDeref
           | Some l \<Rightarrow>
               Ret \<lparr>dl_LockSecretHashStr = Hash_String (Lock_LockSecretHash l),
                    dl_AmountStr = BigIntToString (Lock_Amount l),
                    dl_Expiration = Lock_Expiration l,
                    dl_MerkleProof = un_MerkleProof u,
                    dl_Signature = un_Signature u\<rparr>))"

definition GetDelegateUnlocks :: "channelFor3rd \<Rightarrow> delegateUnlock list outcome" where
  "GetDelegateUnlocks c = mapOutcome toDelegateUnlock (c_Unlocks c)"

definition toDelegateSecret :: "secretReq option \<Rightarrow> delegateSecret outcome" where
  "toDelegateSecret p =
     (case p of
        None \<Rightarrow> Panic nilDeref
      | Some s \<Rightarrow> Ret \<lparr>ds_Secret = Hash_String (se_Secret s), ds_RegisterBlock = se_RegisterBlock s\<rparr>)"

definition GetDeleteSecrets :: "channelFor3rd \<Rightarrow> delegateSecret list outcome" where
  "GetDeleteSecrets c = mapOutcome toDelegateSecret (c_Secrets c)"

lemma mapOutcome_Ret_length: "mapOutcome f xs = Ret ys \<Longrightarrow> length ys = length xs"
  by (induction xs arbitrary: ys) (auto split: outcome.splits)

lemma mapOutcome_Ret_nth:
  "mapOutcome f xs = Ret ys \<Longrightarrow> i < length xs \<Longrightarrow> f (xs ! i) = Ret (ys ! i)"
proof (induction xs arbitrary: ys i)
  case Nil
  then show ?case by simp
next
  case (Cons x xs)
  then show ?case by (cases i) (auto split: outcome.splits)
qed

lemma mapOutcome_total: "(\<And>x. x \<in> set xs \<Longrightarrow> \<exists>y. f x = Ret y) \<Longrightarrow> \<exists>ys. mapOutcome f xs = Ret ys"
proof (induction xs)
  case Nil
  then show ?case by simp
next
  case (Cons x xs)
  then obtain y ys where "f x = Ret y" "mapOutcome f xs = Ret ys" by force
  then show ?case by simp
qed

subsection \<open>Rows of the tables\<close>

datatype delegateStatus =
    DelegateStatusInit
  | DelegateStatusRunning
  | DelegateStatusSuccessFinished
  | DelegateStatusPartialSuccess
  | DelegateStatusSuccessFinishedByOther
  | DelegateStatusFailed
  | DelegateStatusCooperativeSettled
  | DelegateStatusWithdrawed

record delegate =
  d_Key :: "byte list"
  d_ChannelIdentifierStr :: string
  d_OpenBlockNumber :: int
  d_TokenAddressStr :: string
  d_DelegatorAddressStr :: string
  d_PartnerAddressStr :: string
  d_SettleBlockNumber :: int
  d_DelegateTimestamp :: int
  d_DelegateBlockNumber :: int
  d_Status :: delegateStatus
  d_Error :: string
  d_NeedSMTStr :: string
  d_UpdateBalanceProofGob :: "delegateUpdateBalanceProof option"
  d_UnlocksGob :: "delegateUnlock list option"
  d_SecretsGob :: "delegateSecret list option"

record accountSerialization =
  al_Address :: "byte list"
  al_TotalReceivedSmtBytes :: "byte list"
  al_UsedSmtBytes :: "byte list"
  al_LockedSmtBytes :: "byte list"
  al_NeedSmtBytes :: "byte list"

datatype monitorType = MonitorTypeUnlockAndUpdateBalanceProof | MonitorTypePunish

record delegateMonitor =
  dm_Key :: "byte list"
  dm_BlockNumber :: int
  dm_Type :: monitorType
  dm_DelegateKey :: "byte list"

record receivedTransfer =
  rt_Key :: string
  rt_BlockNumber :: int
  rt_ChannelIdentifierStr :: string
  rt_OpenBlockNumber :: int
  rt_TokenAddressStr :: string
  rt_FromAddressStr :: string
  rt_Nonce :: int
  rt_AmountStr :: string

record lastBlockNumberRow =
  lb_Key :: string
  lb_BlockNumber :: int

datatype executeStatus = ExecuteStatusNotExecute | ExecuteStatusSuccessFinished | ExecuteStatusErrorFinished

datatype delegateType =
    DelegateTypeUpdateBalanceProof
  | DelegateTypeUnlock
  | DelegateTypePunish
  | DelegateTypeRegisterSecret

text \<open>The gob-encoded parameters of an execution record, one constructor per type passed to it.\<close>

datatype executeParams =
    ParamsUpdateBalanceProof delegateUpdateBalanceProof
  | ParamsUnlock delegateUnlock
  | ParamsPunish delegatePunish
  | ParamsSecret delegateSecret

record delegateExecuteRecord =
  r_Key :: string
  r_ChannelIdentifierStr :: string
  r_OpenBlockNumber :: int
  r_DelegatorStr :: string
  r_Type :: delegateType
  r_Status :: executeStatus
  r_Error :: string
  r_ExecuteTimestamp :: int
  r_TxHashStr :: string
  r_TxCreateBlockNumber :: int
  r_TxCreateTimestamp :: int
  r_TxPackBlockNumber :: int
  r_TxPackTimestamp :: int
  r_GobParams :: executeParams
  r_Secret :: string

subsection \<open>Configuration (\<open>params/config.go\<close>)\<close>

record params =
  SmtUnlock :: int
  SmtUpdateTransfer :: int
  SmtPunish :: int
  SmtSecret :: int
  SmtAddress :: Address
  DebugMode :: bool
  RevealTimeout :: int

text \<open>The values of the declarations and of \<open>init\<close>, before the command line is read.\<close>

definition initParams :: params where
  "initParams =
     \<lparr>SmtUnlock = 1, SmtUpdateTransfer = 3, SmtPunish = 2, SmtSecret = 1,
      SmtAddress = HexToAddress ''0x292650fee408320D888e06ed89D938294Ea42f99'',
      DebugMode = False, RevealTimeout = 30\<rparr>"

end
