(* ===== verification/PM_World.thy ===== *)
theory PM_World
  imports PM_Types
begin

text \<open>
  The state the service works on and the outside it talks to.

  \<open>modeldb\<close> is the SQLite database of \<open>models/db.go\<close>: one list of rows per migrated table, in the
  order of insertion.  The \<open>gorm_\<close> functions are what the vendored gorm does with a struct
  argument: a blank field is no condition, \<open>Save\<close> updates by primary key and inserts when no row was
  updated, \<open>Delete\<close> uses the primary key only and, when that is blank, removes every row.

  \<open>env\<close> holds what is not this repository's code, as functions of a call counter: whether a
  statement fails, the clock, the random keys, the Ethereum node and its contracts, Keccak and
  signature recovery.  A theorem that holds for every \<open>env\<close> holds for every behaviour of those
  parts.  \<open>world\<close> is the database, the counter, the \<open>ChainEvents\<close> fields that change, the
  goroutines started and not yet run, and the transactions sent to the node.
\<close>

subsection \<open>Tables\<close>

record modeldb =
  tDelegate :: "delegate list"
  tPunish :: "delegatePunish list"
  tDispose :: "delegateAnnounceDispose list"
  tAccount :: "accountSerialization list"
  tMonitor :: "delegateMonitor list"
  tTransfer :: "receivedTransfer list"
  tLastBlock :: "lastBlockNumberRow list"
  tRecord :: "delegateExecuteRecord list"
  seqPunish :: nat
  seqDispose :: nat

text \<open>The database of a new file after \<open>OpenDb\<close>: every table migrated, no row.\<close>

definition emptyDb :: modeldb where
  "emptyDb =
     \<lparr>tDelegate = [], tPunish = [], tDispose = [], tAccount = [], tMonitor = [], tTransfer = [],
      tLastBlock = [], tRecord = [], seqPunish = 0, seqDispose = 0\<rparr>"

definition gorm_where :: "('k \<Rightarrow> bool) \<Rightarrow> ('r \<Rightarrow> 'k) \<Rightarrow> 'k \<Rightarrow> 'r list \<Rightarrow> 'r list" where
  "gorm_where blank field v rows = filter (\<lambda>r. blank v \<or> field r = v) rows"

text \<open>\<open>Find\<close> into a struct scans every matching row into it: the last one stays.\<close>

definition gorm_find :: "'r list \<Rightarrow> error + 'r" where
  "gorm_find rows = (if rows = [] then Inl ErrRecordNotFound else Inr (last rows))"

definition gorm_first :: "'r list \<Rightarrow> error + 'r" where
  "gorm_first rows = (if rows = [] then Inl ErrRecordNotFound else Inr (hd rows))"

definition gorm_save :: "('k \<Rightarrow> bool) \<Rightarrow> ('r \<Rightarrow> 'k) \<Rightarrow> 'r \<Rightarrow> 'r list \<Rightarrow> 'r list" where
  "gorm_save blank pk r rows =
     (if \<not> blank (pk r) \<and> pk r \<in> pk ` set rows
      then map (\<lambda>x. if pk x = pk r then r else x) rows
      else rows @ [r])"

definition gorm_delete :: "('k \<Rightarrow> bool) \<Rightarrow> ('r \<Rightarrow> 'k) \<Rightarrow> 'k \<Rightarrow> 'r list \<Rightarrow> 'r list" where
  "gorm_delete blank pk k rows = (if blank k then [] else filter (\<lambda>r. pk r \<noteq> k) rows)"

text \<open>\<open>UpdateColumn\<close> on a model: the rows with its primary key, all rows when that is blank.\<close>

definition gorm_update_column :: "('k \<Rightarrow> bool) \<Rightarrow> ('r \<Rightarrow> 'k) \<Rightarrow> 'k \<Rightarrow> ('r \<Rightarrow> 'r) \<Rightarrow> 'r list \<Rightarrow> 'r list" where
  "gorm_update_column blank pk k f rows = map (\<lambda>r. if blank k \<or> pk r = k then f r else r) rows"

abbreviation blankList :: "'a list \<Rightarrow> bool" where
  "blankList xs \<equiv> xs = []"

abbreviation blankInt :: "int \<Rightarrow> bool" where
  "blankInt x \<equiv> x = 0"

abbreviation blankNat :: "nat \<Rightarrow> bool" where
  "blankNat x \<equiv> x = 0"

definition saveDelegate :: "delegate \<Rightarrow> modeldb \<Rightarrow> modeldb" where
  "saveDelegate d db = db\<lparr>tDelegate := gorm_save blankList d_Key d (tDelegate db)\<rparr>"

definition saveAccount :: "accountSerialization \<Rightarrow> modeldb \<Rightarrow> modeldb" where
  "saveAccount a db = db\<lparr>tAccount := gorm_save blankList al_Address a (tAccount db)\<rparr>"

definition saveMonitor :: "delegateMonitor \<Rightarrow> modeldb \<Rightarrow> modeldb" where
  "saveMonitor m db = db\<lparr>tMonitor := gorm_save blankList dm_Key m (tMonitor db)\<rparr>"

definition saveTransfer :: "receivedTransfer \<Rightarrow> modeldb \<Rightarrow> modeldb" where
  "saveTransfer t db = db\<lparr>tTransfer := gorm_save blankList rt_Key t (tTransfer db)\<rparr>"

definition saveRecord :: "delegateExecuteRecord \<Rightarrow> modeldb \<Rightarrow> modeldb" where
  "saveRecord r db = db\<lparr>tRecord := gorm_save blankList r_Key r (tRecord db)\<rparr>"

definition saveLastBlock :: "lastBlockNumberRow \<Rightarrow> modeldb \<Rightarrow> modeldb" where
  "saveLastBlock r db = db\<lparr>tLastBlock := gorm_save blankList lb_Key r (tLastBlock db)\<rparr>"

text \<open>New punish and dispose rows have a blank auto-increment key: always an insert.\<close>

definition insertPunish :: "delegatePunish \<Rightarrow> modeldb \<Rightarrow> modeldb" where
  "insertPunish p db =
     db\<lparr>tPunish := tPunish db @ [p\<lparr>dp_ID := Suc (seqPunish db)\<rparr>], seqPunish := Suc (seqPunish db)\<rparr>"

definition insertDispose :: "delegateAnnounceDispose \<Rightarrow> modeldb \<Rightarrow> modeldb" where
  "insertDispose a db =
     db\<lparr>tDispose := tDispose db @ [a\<lparr>da_ID := Suc (seqDispose db)\<rparr>], seqDispose := Suc (seqDispose db)\<rparr>"

text \<open>The row a primary key selects.\<close>

definition rowBy :: "('r \<Rightarrow> 'k) \<Rightarrow> 'k \<Rightarrow> 'r list \<Rightarrow> 'r option" where
  "rowBy pk k rows = find (\<lambda>r. pk r = k) rows"

lemma rowBy_Nil [simp]: "rowBy pk k [] = None"
  by (simp add: rowBy_def)

lemma rowBy_Cons [simp]: "rowBy pk k (r # rows) = (if pk r = k then Some r else rowBy pk k rows)"
  by (simp add: rowBy_def)

lemma rowBy_append:
  "rowBy pk k (xs @ ys) = (case rowBy pk k xs of None \<Rightarrow> rowBy pk k ys | Some r \<Rightarrow> Some r)"
  by (induction xs) simp_all

lemma rowBy_Some: "rowBy pk k rows = Some r \<Longrightarrow> r \<in> set rows \<and> pk r = k"
  by (induction rows) (auto split: if_splits)

lemma rowBy_None: "rowBy pk k rows = None \<longleftrightarrow> k \<notin> pk ` set rows"
  by (induction rows) auto

lemma rowBy_unique: "distinct (map pk rows) \<Longrightarrow> r \<in> set rows \<Longrightarrow> rowBy pk (pk r) rows = Some r"
  by (induction rows) (auto simp: rev_image_eqI)

lemma rowBy_map_key:
  "(\<And>r. pk (f r) = pk r) \<Longrightarrow> rowBy pk k (map f rows) = map_option f (rowBy pk k rows)"
  by (induction rows) simp_all

lemma gorm_find_where_key:
  assumes "\<not> blank k" "distinct (map pk rows)"
  shows "gorm_find (gorm_where blank pk k rows) =
     (case rowBy pk k rows of None \<Rightarrow> Inl ErrRecordNotFound | Some r \<Rightarrow> Inr r)"
  using assms(2)
proof (induction rows)
  case Nil
  then show ?case by (simp add: gorm_find_def gorm_where_def)
next
  case (Cons x xs)
  then have "pk x = k \<Longrightarrow> filter (\<lambda>r. pk r = k) xs = []"
    by (auto simp: filter_empty_conv rev_image_eqI)
  with Cons assms(1) show ?case by (auto simp: gorm_find_def gorm_where_def)
qed

lemma gorm_first_where_key:
  assumes "\<not> blank k"
  shows "gorm_first (gorm_where blank pk k rows) =
     (case rowBy pk k rows of None \<Rightarrow> Inl ErrRecordNotFound | Some r \<Rightarrow> Inr r)"
  using assms by (induction rows) (auto simp: gorm_first_def gorm_where_def)

lemma rowBy_gorm_save:
  assumes "\<not> blank (pk r)"
  shows "rowBy pk k (gorm_save blank pk r rows) = (if k = pk r then Some r else rowBy pk k rows)"
proof -
  have "rowBy pk k (map (\<lambda>x. if pk x = pk r then r else x) rows) =
      (if k = pk r \<and> pk r \<in> pk ` set rows then Some r else rowBy pk k rows)"
    by (induction rows) auto
  moreover have "pk r \<notin> pk ` set rows \<Longrightarrow> rowBy pk (pk r) rows = None"
    by (simp add: rowBy_None)
  ultimately show ?thesis
    using assms by (auto simp: gorm_save_def rowBy_append split: option.split)
qed

lemma distinct_gorm_save:
  assumes "distinct (map pk rows)" "\<not> blank (pk r)"
  shows "distinct (map pk (gorm_save blank pk r rows))"
proof -
  have "map pk (map (\<lambda>x. if pk x = pk r then r else x) rows) = map pk rows"
    by (induction rows) simp_all
  with assms show ?thesis by (simp add: gorm_save_def del: map_map)
qed

lemma set_gorm_save: "set (gorm_save blank pk r rows) \<subseteq> insert r (set rows)"
  by (auto simp: gorm_save_def)

lemma rowBy_gorm_delete:
  "\<not> blank k \<Longrightarrow>
   rowBy pk j (gorm_delete blank pk k rows) = (if j = k then None else rowBy pk j rows)"
  by (induction rows) (auto simp: gorm_delete_def)

lemma distinct_gorm_delete: "distinct (map pk rows) \<Longrightarrow> distinct (map pk (gorm_delete blank pk k rows))"
  by (simp add: gorm_delete_def distinct_map_filter)

lemma rowBy_gorm_update_column:
  "\<not> blank k \<Longrightarrow> (\<And>r. pk (f r) = pk r) \<Longrightarrow>
   rowBy pk j (gorm_update_column blank pk k f rows) =
     (if j = k then map_option f (rowBy pk j rows) else rowBy pk j rows)"
  by (induction rows) (auto simp: gorm_update_column_def)

lemma map_pk_gorm_update_column:
  "(\<And>r. pk (f r) = pk r) \<Longrightarrow> map pk (gorm_update_column blank pk k f rows) = map pk rows"
  by (simp add: gorm_update_column_def)

subsection \<open>The contract of a table with a primary key\<close>

text \<open>
  What the data access functions rely on: a saved row is the one its key selects afterwards, rows
  of other keys are untouched, and the keys stay distinct.
\<close>

locale keyed_table =
  fixes lookup :: "'k \<Rightarrow> 'db \<Rightarrow> 'r option"
    and save :: "'r \<Rightarrow> 'db \<Rightarrow> 'db"
    and pk :: "'r \<Rightarrow> 'k"
    and usable :: "'k \<Rightarrow> bool"
    and invar :: "'db \<Rightarrow> bool"
  assumes lookup_save: "invar db \<Longrightarrow> usable (pk r) \<Longrightarrow>
      lookup k (save r db) = (if k = pk r then Some r else lookup k db)"
    and invar_save: "invar db \<Longrightarrow> usable (pk r) \<Longrightarrow> invar (save r db)"
    and lookup_pk: "invar db \<Longrightarrow> lookup k db = Some r \<Longrightarrow> pk r = k"
begin

lemma lookup_saved: "invar db \<Longrightarrow> usable (pk r) \<Longrightarrow> lookup (pk r) (save r db) = Some r"
  by (simp add: lookup_save)

lemma lookup_other: "invar db \<Longrightarrow> usable (pk r) \<Longrightarrow> k \<noteq> pk r \<Longrightarrow> lookup k (save r db) = lookup k db"
  by (simp add: lookup_save)

lemma last_save_wins:
  "invar db \<Longrightarrow> usable (pk r) \<Longrightarrow> pk r' = pk r \<Longrightarrow>
   lookup k (save r' (save r db)) = lookup k (save r' db)"
  by (simp add: lookup_save invar_save)

lemma saves_commute:
  "invar db \<Longrightarrow> usable (pk r) \<Longrightarrow> usable (pk r') \<Longrightarrow> pk r \<noteq> pk r' \<Longrightarrow>
   lookup k (save r' (save r db)) = lookup k (save r (save r' db))"
  by (simp add: lookup_save invar_save)

lemma save_back: "invar db \<Longrightarrow> usable k \<Longrightarrow> lookup k db = Some r \<Longrightarrow> lookup j (save r db) = lookup j db"
  using lookup_pk [of db k r] lookup_save [of db r j] by auto

end

abbreviation delegateBy :: "byte list \<Rightarrow> modeldb \<Rightarrow> delegate option" where
  "delegateBy k db \<equiv> rowBy d_Key k (tDelegate db)"

abbreviation accountBy :: "byte list \<Rightarrow> modeldb \<Rightarrow> accountSerialization option" where
  "accountBy k db \<equiv> rowBy al_Address k (tAccount db)"

abbreviation monitorBy :: "byte list \<Rightarrow> modeldb \<Rightarrow> delegateMonitor option" where
  "monitorBy k db \<equiv> rowBy dm_Key k (tMonitor db)"

abbreviation transferBy :: "string \<Rightarrow> modeldb \<Rightarrow> receivedTransfer option" where
  "transferBy k db \<equiv> rowBy rt_Key k (tTransfer db)"

abbreviation recordBy :: "string \<Rightarrow> modeldb \<Rightarrow> delegateExecuteRecord option" where
  "recordBy k db \<equiv> rowBy r_Key k (tRecord db)"

abbreviation lastBlockBy :: "string \<Rightarrow> modeldb \<Rightarrow> lastBlockNumberRow option" where
  "lastBlockBy k db \<equiv> rowBy lb_Key k (tLastBlock db)"

interpretation delegates: keyed_table delegateBy saveDelegate d_Key "\<lambda>k. k \<noteq> []"
    "\<lambda>db. distinct (map d_Key (tDelegate db))"
  by unfold_locales
    (auto simp: saveDelegate_def rowBy_gorm_save distinct_gorm_save dest: rowBy_Some)

interpretation accounts: keyed_table accountBy saveAccount al_Address "\<lambda>k. k \<noteq> []"
    "\<lambda>db. distinct (map al_Address (tAccount db))"
  by unfold_locales
    (auto simp: saveAccount_def rowBy_gorm_save distinct_gorm_save dest: rowBy_Some)

interpretation monitors: keyed_table monitorBy saveMonitor dm_Key "\<lambda>k. k \<noteq> []"
    "\<lambda>db. distinct (map dm_Key (tMonitor db))"
  by unfold_locales
    (auto simp: saveMonitor_def rowBy_gorm_save distinct_gorm_save dest: rowBy_Some)

interpretation transfers: keyed_table transferBy saveTransfer rt_Key "\<lambda>k. k \<noteq> []"
    "\<lambda>db. distinct (map rt_Key (tTransfer db))"
  by unfold_locales
    (auto simp: saveTransfer_def rowBy_gorm_save distinct_gorm_save dest: rowBy_Some)

interpretation records: keyed_table recordBy saveRecord r_Key "\<lambda>k. k \<noteq> []"
    "\<lambda>db. distinct (map r_Key (tRecord db))"
  by unfold_locales
    (auto simp: saveRecord_def rowBy_gorm_save distinct_gorm_save dest: rowBy_Some)

interpretation lastBlocks: keyed_table lastBlockBy saveLastBlock lb_Key "\<lambda>k. k \<noteq> []"
    "\<lambda>db. distinct (map lb_Key (tLastBlock db))"
  by unfold_locales
    (auto simp: saveLastBlock_def rowBy_gorm_save distinct_gorm_save dest: rowBy_Some)

subsection \<open>The outside\<close>

datatype contractCall =
    UpdateBalanceProofDelegate Address Address Address int Hash "64 word" Hash "byte list" "byte list"
  | UnlockDelegate Address Address Address int int int Hash "byte list" "byte list"
  | PunishObsoleteUnlock Address Address Address Hash Hash "byte list"
  | RegisterSecret Hash

record env =
  env_fault :: "nat \<Rightarrow> string option"
  env_now :: "nat \<Rightarrow> int"
  env_random :: "nat \<Rightarrow> Address"
  env_TokenNetwork :: "nat \<Rightarrow> Address \<Rightarrow> string option"
  env_ChannelInfo :: "nat \<Rightarrow> Address \<Rightarrow> Hash \<Rightarrow> string + 64 word \<times> 64 word"
  env_submit :: "nat \<Rightarrow> contractCall \<Rightarrow> string + Hash"
  env_wait :: "nat \<Rightarrow> Hash \<Rightarrow> string + bool"
  env_keccak :: "byte list \<Rightarrow> Hash"
  env_ecrecover :: "Hash \<Rightarrow> byte list \<Rightarrow> string + Address"
  env_NodeAddress :: Address
  env_ChainID :: int
  env_params :: params

datatype goroutine =
    GoUnlocks delegate
  | GoUpdateBalanceProofAndUnlocks delegate
  | GoPunishes delegate

record world =
  store :: modeldb
  clock :: nat
  ce_blockNumber :: "int option"
  goroutines :: "goroutine list"
  txs :: "contractCall list"

type_synonym 'a action = "(world, 'a) act"

abbreviation tick :: "world \<Rightarrow> world" where
  "tick w \<equiv> w\<lparr>clock := Suc (clock w)\<rparr>"

text \<open>One statement sent to the database: it fails and changes nothing, or runs.\<close>

definition db_query :: "env \<Rightarrow> (modeldb \<Rightarrow> error + 'a) \<Rightarrow> (error + 'a) action" where
  "db_query env q w =
     (case env_fault env (clock w) of
        Some e \<Rightarrow> (Ret (Inl (DbErr e)), tick w)
      | None \<Rightarrow> (Ret (q (store w)), tick w))"

definition db_write :: "env \<Rightarrow> (modeldb \<Rightarrow> modeldb) \<Rightarrow> error option action" where
  "db_write env f w =
     (case env_fault env (clock w) of
        Some e \<Rightarrow> (Ret (Some (DbErr e)), tick w)
      | None \<Rightarrow> (Ret None, (tick w)\<lparr>store := f (store w)\<rparr>))"

text \<open>
  \<open>tx := db.Begin()\<close> with the deferred \<open>if err != nil { Rollback } else { Commit }\<close>: the deferred
  function runs on a panic too, where \<open>err\<close> is still nil, and the error of \<open>Commit\<close> is dropped.
\<close>

definition db_commit :: "env \<Rightarrow> modeldb \<Rightarrow> world \<Rightarrow> world" where
  "db_commit env before w =
     (case env_fault env (clock w) of
        Some e \<Rightarrow> (tick w)\<lparr>store := before\<rparr>
      | None \<Rightarrow> tick w)"

definition transaction :: "env \<Rightarrow> (error + 'a) action \<Rightarrow> (error + 'a) action" where
  "transaction env body w =
     (case body w of
        (Ret (Inl e), w') \<Rightarrow> (Ret (Inl e), w'\<lparr>store := store w\<rparr>)
      | (Ret (Inr x), w') \<Rightarrow> (Ret (Inr x), db_commit env (store w) w')
      | (Panic msg, w') \<Rightarrow> (Panic msg, db_commit env (store w) w'))"

definition now :: "env \<Rightarrow> int action" where
  "now env w = (Ret (env_now env (clock w)), tick w)"

definition NewRandomAddress :: "env \<Rightarrow> Address action" where
  "NewRandomAddress env w = (Ret (env_random env (clock w)), tick w)"

text \<open>No statement fails: the hypothesis of the theorems on the undisturbed service.\<close>

definition no_faults :: "env \<Rightarrow> bool" where
  "no_faults env \<longleftrightarrow> (\<forall>n. env_fault env n = None)"

lemma no_faultsD [simp]: "no_faults env \<Longrightarrow> env_fault env n = None"
  by (simp add: no_faults_def)

lemma db_query_ok [simp]: "no_faults env \<Longrightarrow> db_query env q w = (Ret (q (store w)), tick w)"
  by (simp add: db_query_def)

lemma db_write_ok [simp]: "no_faults env \<Longrightarrow> db_write env f w = (Ret None, (tick w)\<lparr>store := f (store w)\<rparr>)"
  by (simp add: db_write_def)

lemma now_app [simp]: "now env w = (Ret (env_now env (clock w)), tick w)"
  by (simp add: now_def)

lemma NewRandomAddress_app [simp]:
  "NewRandomAddress env w = (Ret (env_random env (clock w)), tick w)"
  by (simp add: NewRandomAddress_def)

subsection \<open>Invariants of the database\<close>

text \<open>
  \<open>on_store I\<close> lifts a predicate on the database to the world.  Queries, the clock and the random
  source keep it; a write keeps it when its function does; a transaction keeps it when its body
  does, whichever way it ends.
\<close>

definition on_store :: "(modeldb \<Rightarrow> bool) \<Rightarrow> world \<Rightarrow> bool" where
  "on_store I w \<longleftrightarrow> I (store w)"

lemma on_store_simps [simp]:
  "on_store I (w\<lparr>clock := n\<rparr>) = on_store I w"
  "on_store I (w\<lparr>store := s\<rparr>) = I s"
  "on_store I (w\<lparr>ce_blockNumber := b\<rparr>) = on_store I w"
  "on_store I (w\<lparr>goroutines := g\<rparr>) = on_store I w"
  "on_store I (w\<lparr>txs := t\<rparr>) = on_store I w"
  by (simp_all add: on_store_def)

lemma keeps_db_query [keeps_rules]: "keeps (on_store I) (db_query env q)"
  by (rule keepsI) (simp add: db_query_def split: option.split)

lemma keeps_db_write:
  "(\<And>s. I s \<Longrightarrow> I (f s)) \<Longrightarrow> keeps (on_store I) (db_write env f)"
  by (rule keepsI) (auto simp: db_write_def on_store_def split: option.split)

lemma keeps_now [keeps_rules]: "keeps (on_store I) (now env)"
  by (rule keepsI) (simp add: now_def)

lemma keeps_NewRandomAddress [keeps_rules]: "keeps (on_store I) (NewRandomAddress env)"
  by (rule keepsI) (simp add: NewRandomAddress_def)

lemma db_commit_store: "store (db_commit env s w) = s \<or> store (db_commit env s w) = store w"
  by (simp add: db_commit_def split: option.split)

lemma keeps_transaction [keeps_rules]:
  assumes "keeps (on_store I) body"
  shows "keeps (on_store I) (transaction env body)"
proof (rule keepsI)
  fix w assume w: "on_store I w"
  from keepsD [OF assms w] have body: "on_store I (snd (body w))" .
  have "on_store I (db_commit env (store w) (snd (body w)))"
    using db_commit_store [of env "store w" "snd (body w)"] w body by (auto simp: on_store_def)
  with w body show "on_store I (snd (transaction env body w))"
    by (cases "body w") (auto simp: transaction_def on_store_def split: outcome.split sum.split)
qed

text \<open>
  Getters of rows and requests read through outcomes; the counter only grows.
\<close>

lemma transaction_error:
  "transaction env body w = (Ret (Inl e), w') \<Longrightarrow> store w' = store w"
  by (auto simp: transaction_def split: prod.splits outcome.splits sum.splits)

lemma transaction_ok:
  assumes "no_faults env" "body w = (Ret (Inr x), w')"
  shows "transaction env body w = (Ret (Inr x), tick w')"
  using assms by (simp add: transaction_def db_commit_def)

text \<open>
  What only the chain-event loop changes: \<open>on_process R\<close> lifts a predicate on the block number and the
  started goroutines, which no statement, clock reading or transaction touches.
\<close>

definition on_process :: "(int option \<Rightarrow> goroutine list \<Rightarrow> bool) \<Rightarrow> world \<Rightarrow> bool" where
  "on_process R w \<longleftrightarrow> R (ce_blockNumber w) (goroutines w)"

lemma on_process_simps [simp]:
  "on_process R (w\<lparr>clock := n\<rparr>) = on_process R w" "on_process R (w\<lparr>store := s\<rparr>) = on_process R w"
  "on_process R (w\<lparr>txs := t\<rparr>) = on_process R w"
  by (simp_all add: on_process_def)

lemma process_statements [keeps_rules]:
  "keeps (on_process R) (db_query env q)" "keeps (on_process R) (db_write env f)"
  "keeps (on_process R) (now env)" "keeps (on_process R) (NewRandomAddress env)"
  by (auto intro!: keepsI simp: db_query_def db_write_def split: option.split)

lemma process_transaction [keeps_rules]:
  assumes "keeps (on_process R) body"
  shows "keeps (on_process R) (transaction env body)"
proof (rule keepsI)
  fix w assume w: "on_process R w"
  from keepsD [OF assms w] show "on_process R (snd (transaction env body w))"
    by (cases "body w") (auto simp: transaction_def db_commit_def split: outcome.split sum.split option.split)
qed

subsection \<open>A concrete outside\<close>

text \<open>
  An environment in which nothing fails, and a fresh process on an empty database: the concrete
  inputs at which the theorems are applied.
\<close>

definition quietEnv :: env where
  "quietEnv =
     \<lparr>env_fault = (\<lambda>_. None), env_now = int, env_random = (\<lambda>n. of_nat (Suc n)),
      env_TokenNetwork = (\<lambda>_ _. None), env_ChannelInfo = (\<lambda>_ _ _. Inr (0, 3)),
      env_submit = (\<lambda>_ _. Inr 1), env_wait = (\<lambda>_ _. Inr True),
      env_keccak = (\<lambda>bs. of_nat (nat_of_bytes bs)), env_ecrecover = (\<lambda>_ _. Inr 1),
      env_NodeAddress = 9, env_ChainID = 8888, env_params = initParams\<rparr>"

definition freshWorld :: world where
  "freshWorld = \<lparr>store = emptyDb, clock = 0, ce_blockNumber = None, goroutines = [], txs = []\<rparr>"

lemma no_faults_quietEnv [simp]: "no_faults quietEnv"
  by (simp add: no_faults_def quietEnv_def)

end
