(* ===== verification/PM_Account.thy ===== *)
theory PM_Account
  imports PM_World
begin

text \<open>
  \<open>models/account.go\<close>: the prepaid account of a delegator.  \<open>account\<close> is the in-memory struct,
  \<open>accountSerialization\<close> the row; every operation reads the row, changes the struct, checks it with
  \<open>accountSanity\<close> (which panics) and writes the row back.

  The lemmas give each operation on every branch when no statement fails, the solvency invariant
  (\<open>accounts_ok\<close>: what is used and locked never exceeds what was received) that the operations keep even
  when statements fail, and the contract \<open>charging\<close> of lock, use and unlock for the
  operations that bill a transaction.
\<close>

record account =
  a_Address :: "byte list"
  a_TotalReceivedSmt :: int
  a_UsedSmt :: int
  a_LockedSmt :: int
  a_NeedSmt :: int

definition toSerialization :: "account \<Rightarrow> accountSerialization" where
  "toSerialization a =
     \<lparr>al_Address = a_Address a,
      al_TotalReceivedSmtBytes = BigInt_Bytes (a_TotalReceivedSmt a),
      al_UsedSmtBytes = BigInt_Bytes (a_UsedSmt a),
      al_LockedSmtBytes = BigInt_Bytes (a_LockedSmt a),
      al_NeedSmtBytes = BigInt_Bytes (a_NeedSmt a)\<rparr>"

definition toAccount :: "accountSerialization \<Rightarrow> account" where
  "toAccount al =
     \<lparr>a_Address = al_Address al,
      a_TotalReceivedSmt = BigInt_SetBytes (al_TotalReceivedSmtBytes al),
      a_UsedSmt = BigInt_SetBytes (al_UsedSmtBytes al),
      a_LockedSmt = BigInt_SetBytes (al_LockedSmtBytes al),
      a_NeedSmt = BigInt_SetBytes (al_NeedSmtBytes al)\<rparr>"

text \<open>\<open>&accountSerialization{}\<close> with the address set.\<close>

definition newAccountRow :: "Address \<Rightarrow> accountSerialization" where
  "newAccountRow addr =
     \<lparr>al_Address = word_bytes addr, al_TotalReceivedSmtBytes = [], al_UsedSmtBytes = [],
      al_LockedSmtBytes = [], al_NeedSmtBytes = []\<rparr>"

definition Account_String :: "(byte list \<Rightarrow> Hash) \<Rightarrow> account \<Rightarrow> string" where
  "Account_String keccak a =
     ''addr='' @ Address_Hex keccak (BytesToAddress (a_Address a)) @ '',total='' @ BigInt_String (a_TotalReceivedSmt a) @
     '',used='' @ BigInt_String (a_UsedSmt a) @ '',locked='' @ BigInt_String (a_LockedSmt a) @
     '',need='' @ BigInt_String (a_NeedSmt a)"

definition AccountAvailable :: "account \<Rightarrow> int" where
  "AccountAvailable a = a_TotalReceivedSmt a - a_UsedSmt a - a_LockedSmt a"

definition accountSanity :: "account \<Rightarrow> unit action" where
  "accountSanity a =
     (if a_TotalReceivedSmt a < 0 then panicA ''totalReceive negative''
      else if a_UsedSmt a < 0 then panicA ''UsedSmt negative''
      else if a_LockedSmt a < 0 then panicA ''LockedSmt negative''
      else if a_NeedSmt a < 0 then panicA ''NeedSmt negative''
      else if a_UsedSmt a > a_TotalReceivedSmt a then panicA ''UsedSmt>TotalReceivedSmt''
      else returnA ())"

definition findAccount :: "env \<Rightarrow> Address \<Rightarrow> (error + accountSerialization) action" where
  "findAccount env addr =
     db_query env (\<lambda>db. gorm_find (gorm_where blankList al_Address (word_bytes addr) (tAccount db)))"

text \<open>On any error the row is the blank one: an unreadable account looks like an empty account.\<close>

definition AccountGetAccount :: "env \<Rightarrow> Address \<Rightarrow> account action" where
  "AccountGetAccount env addr =
     bindA (findAccount env addr) (\<lambda>r.
     returnA (toAccount (case r of Inl e \<Rightarrow> newAccountRow addr | Inr al \<Rightarrow> al)))"

definition GetAccountInTx :: "env \<Rightarrow> Address \<Rightarrow> account action" where
  "GetAccountInTx env addr =
     bindA (findAccount env addr) (\<lambda>r.
     returnA (toAccount (case r of Inl e \<Rightarrow> newAccountRow addr | Inr al \<Rightarrow> al)))"

definition AccountAddSmt :: "env \<Rightarrow> Address \<Rightarrow> int \<Rightarrow> unit action" where
  "AccountAddSmt env addr amount =
     bindA (findAccount env addr) (\<lambda>r.
     bindA (case r of
              Inl ErrRecordNotFound \<Rightarrow>
                bindA (db_write env (saveAccount (newAccountRow addr))) (\<lambda>_. returnA (newAccountRow addr))
            | Inl _ \<Rightarrow> returnA (newAccountRow addr)
            | Inr al \<Rightarrow> returnA al) (\<lambda>al.
     let a = toAccount al; a' = a\<lparr>a_TotalReceivedSmt := a_TotalReceivedSmt a + amount\<rparr> in
     bindA (accountSanity a') (\<lambda>_.
     let al' = toSerialization a' in
     bindA (db_write env (\<lambda>db. db\<lparr>tAccount :=
              gorm_update_column blankList al_Address (al_Address al')
                (\<lambda>row. row\<lparr>al_TotalReceivedSmtBytes := al_TotalReceivedSmtBytes al'\<rparr>) (tAccount db)\<rparr>)) (\<lambda>err.
     case err of None \<Rightarrow> returnA () | Some e \<Rightarrow> panicA (''save account err '' @ errText e)))))"

definition accountUpdateNeedSmt :: "env \<Rightarrow> Address \<Rightarrow> int \<Rightarrow> unit action" where
  "accountUpdateNeedSmt env addr amount =
     bindA (AccountGetAccount env addr) (\<lambda>a.
     let a' = a\<lparr>a_NeedSmt := amount\<rparr> in
     bindA (accountSanity a') (\<lambda>_.
     bindA (db_write env (saveAccount (toSerialization a'))) (\<lambda>err.
     case err of None \<Rightarrow> returnA () | Some e \<Rightarrow> panicA (''save account err '' @ errText e))))"

definition AccountIsBalanceEnough :: "env \<Rightarrow> Address \<Rightarrow> bool action" where
  "AccountIsBalanceEnough env addr =
     bindA (AccountGetAccount env addr) (\<lambda>a.
     bindA (accountSanity a) (\<lambda>_.
     let av = AccountAvailable a in returnA (av \<ge> a_NeedSmt a)))"

definition AccountLockSmt :: "env \<Rightarrow> Address \<Rightarrow> int \<Rightarrow> error option action" where
  "AccountLockSmt env addr amount =
     bindA (AccountGetAccount env addr) (\<lambda>a.
     let av = AccountAvailable a in
     if av < amount then returnA (Some (BalanceNotEnough av amount))
     else if a_NeedSmt a < amount then returnA (Some (NeedSmtSmaller (a_NeedSmt a) amount))
     else
       let a' = a\<lparr>a_LockedSmt := a_LockedSmt a + amount, a_NeedSmt := a_NeedSmt a - amount\<rparr> in
       bindA (accountSanity a') (\<lambda>_.
       db_write env (saveAccount (toSerialization a'))))"

definition AccountUnlockSmt :: "env \<Rightarrow> Address \<Rightarrow> int \<Rightarrow> error option action" where
  "AccountUnlockSmt env addr amount =
     bindA (AccountGetAccount env addr) (\<lambda>a.
     if a_LockedSmt a < amount then returnA (Some (UnlockTooMuch amount (a_LockedSmt a)))
     else
       let a' = a\<lparr>a_LockedSmt := a_LockedSmt a - amount\<rparr> in
       bindA (accountSanity a') (\<lambda>_.
       db_write env (saveAccount (toSerialization a'))))"

definition AccountUseSmt :: "env \<Rightarrow> Address \<Rightarrow> int \<Rightarrow> error option action" where
  "AccountUseSmt env addr amount =
     bindA (AccountGetAccount env addr) (\<lambda>a.
     if a_LockedSmt a < amount then returnA (Some (UnlockTooMuch amount (a_LockedSmt a)))
     else
       let a' = a\<lparr>a_LockedSmt := a_LockedSmt a - amount, a_UsedSmt := a_UsedSmt a + amount\<rparr> in
       bindA (accountSanity a') (\<lambda>_.
       db_write env (saveAccount (toSerialization a'))))"

subsection \<open>Serialisation\<close>

lemma toAccount_sel [simp]:
  "a_Address (toAccount al) = al_Address al"
  "0 \<le> a_TotalReceivedSmt (toAccount al)" "0 \<le> a_UsedSmt (toAccount al)"
  "0 \<le> a_LockedSmt (toAccount al)" "0 \<le> a_NeedSmt (toAccount al)"
  by (simp_all add: toAccount_def)

lemma toAccount_toSerialization:
  "toAccount (toSerialization a) =
     a\<lparr>a_TotalReceivedSmt := \<bar>a_TotalReceivedSmt a\<bar>, a_UsedSmt := \<bar>a_UsedSmt a\<bar>,
       a_LockedSmt := \<bar>a_LockedSmt a\<bar>, a_NeedSmt := \<bar>a_NeedSmt a\<bar>\<rparr>"
  by (simp add: toAccount_def toSerialization_def SetBytes_Bytes)

lemma al_Address_toSerialization [simp]: "al_Address (toSerialization a) = a_Address a"
  by (simp add: toSerialization_def)

lemma al_Address_new [simp]: "al_Address (newAccountRow addr) = word_bytes addr"
  by (simp add: newAccountRow_def)

definition nonneg :: "account \<Rightarrow> bool" where
  "nonneg a \<longleftrightarrow> 0 \<le> a_TotalReceivedSmt a \<and> 0 \<le> a_UsedSmt a \<and> 0 \<le> a_LockedSmt a \<and> 0 \<le> a_NeedSmt a"

lemma serialization_nonneg [simp]: "nonneg a \<Longrightarrow> toAccount (toSerialization a) = a"
  by (simp add: toAccount_toSerialization nonneg_def)

lemma accountSanity_ok [simp]:
  "nonneg a \<Longrightarrow> a_UsedSmt a \<le> a_TotalReceivedSmt a \<Longrightarrow> accountSanity a = returnA ()"
  by (simp add: accountSanity_def nonneg_def)

lemma accountSanity_Ret:
  "accountSanity a w = (Ret x, w') \<Longrightarrow> w' = w \<and> nonneg a \<and> a_UsedSmt a \<le> a_TotalReceivedSmt a"
  by (auto simp: accountSanity_def nonneg_def split: if_splits)

lemma keeps_accountSanity [keeps_rules]: "keeps I (accountSanity a)"
  unfolding accountSanity_def by (intro keeps_rules)

subsection \<open>The account a database holds for an address\<close>

definition accountOf :: "Address \<Rightarrow> modeldb \<Rightarrow> account" where
  "accountOf addr db =
     toAccount (case accountBy (word_bytes addr) db of None \<Rightarrow> newAccountRow addr | Some al \<Rightarrow> al)"

definition solvent :: "account \<Rightarrow> bool" where
  "solvent a \<longleftrightarrow> a_UsedSmt a + a_LockedSmt a \<le> a_TotalReceivedSmt a"

definition accounts_ok :: "modeldb \<Rightarrow> bool" where
  "accounts_ok db \<longleftrightarrow>
     distinct (map al_Address (tAccount db)) \<and> (\<forall>al \<in> set (tAccount db). solvent (toAccount al))"

lemma word_bytes_Address_nonempty [simp]: "word_bytes (addr :: Address) \<noteq> []"
  using length_word_bytes_Address [of addr] by force

lemma newAccount_solvent [simp]: "solvent (toAccount (newAccountRow addr))"
  by (simp add: solvent_def toAccount_def newAccountRow_def)

lemma accountOf_sel [simp]:
  "0 \<le> a_TotalReceivedSmt (accountOf addr db)" "0 \<le> a_UsedSmt (accountOf addr db)"
  "0 \<le> a_LockedSmt (accountOf addr db)" "0 \<le> a_NeedSmt (accountOf addr db)"
  by (simp_all add: accountOf_def)

lemma accountOf_Address [simp]: "a_Address (accountOf addr db) = word_bytes addr"
  by (auto simp: accountOf_def dest: rowBy_Some split: option.split)

lemma accountOf_solvent: "accounts_ok db \<Longrightarrow> solvent (accountOf addr db)"
  by (auto simp: accountOf_def accounts_ok_def dest: rowBy_Some split: option.split)

lemma accountOf_used: "accounts_ok db \<Longrightarrow> a_UsedSmt (accountOf addr db) \<le> a_TotalReceivedSmt (accountOf addr db)"
  using accountOf_solvent [of db addr] accountOf_sel(3) [of addr db] unfolding solvent_def by linarith

lemma accounts_ok_save:
  assumes "accounts_ok db" "nonneg a" "solvent a" "a_Address a \<noteq> []"
  shows "accounts_ok (saveAccount (toSerialization a) db)"
  using assms set_gorm_save [of blankList al_Address "toSerialization a" "tAccount db"]
  by (auto simp: accounts_ok_def saveAccount_def intro!: distinct_gorm_save)

lemma accountOf_save:
  assumes "nonneg a" "a_Address a = word_bytes addr"
  shows "accountOf b (saveAccount (toSerialization a) db) = (if b = addr then a else accountOf b db)"
  using assms
  by (auto simp: accountOf_def saveAccount_def rowBy_gorm_save word_bytes_inject)

lemma findAccount_ok:
  assumes "no_faults env" "accounts_ok (store w)"
  shows "findAccount env addr w =
     (Ret (case accountBy (word_bytes addr) (store w) of None \<Rightarrow> Inl ErrRecordNotFound | Some al \<Rightarrow> Inr al),
      tick w)"
  using assms by (simp add: findAccount_def gorm_find_where_key accounts_ok_def)

lemma AccountGetAccount_ok [simp]:
  assumes "no_faults env" "accounts_ok (store w)"
  shows "AccountGetAccount env addr w = (Ret (accountOf addr (store w)), tick w)"
  using assms by (simp add: AccountGetAccount_def findAccount_ok accountOf_def split: option.split)

lemma GetAccountInTx_eq: "GetAccountInTx = AccountGetAccount"
  by (simp add: fun_eq_iff GetAccountInTx_def AccountGetAccount_def)

text \<open>With or without a failing statement, the account read has no negative field and is solvent.\<close>

lemma AccountGetAccount_reads:
  assumes "accounts_ok (store w)" "AccountGetAccount env addr w = (r, w')"
  shows "\<exists>a. r = Ret a \<and> w' = tick w \<and> nonneg a \<and> solvent a \<and> a_Address a = word_bytes addr"
  using assms
  by (auto simp: AccountGetAccount_def findAccount_def db_query_def accounts_ok_def nonneg_def
      bindA_def gorm_find_where_key dest: rowBy_Some split: option.splits)

subsection \<open>Each operation, when no statement fails\<close>

lemma AccountLockSmt_ok:
  fixes addr :: Address
  assumes "no_faults env" "accounts_ok (store w)" "0 \<le> amount"
  defines "a \<equiv> accountOf addr (store w)"
  shows "AccountLockSmt env addr amount w =
     (if AccountAvailable a < amount
      then (Ret (Some (BalanceNotEnough (AccountAvailable a) amount)), tick w)
      else if a_NeedSmt a < amount
      then (Ret (Some (NeedSmtSmaller (a_NeedSmt a) amount)), tick w)
      else (Ret None, w\<lparr>clock := Suc (Suc (clock w)),
              store := saveAccount (toSerialization
                (a\<lparr>a_LockedSmt := a_LockedSmt a + amount, a_NeedSmt := a_NeedSmt a - amount\<rparr>)) (store w)\<rparr>))"
  using assms(1-3) accountOf_used [OF assms(2), of addr]
  by (auto simp: AccountLockSmt_def Let_def a_def nonneg_def)

lemma AccountUnlockSmt_ok:
  fixes addr :: Address
  assumes "no_faults env" "accounts_ok (store w)" "0 \<le> amount"
  defines "a \<equiv> accountOf addr (store w)"
  shows "AccountUnlockSmt env addr amount w =
     (if a_LockedSmt a < amount
      then (Ret (Some (UnlockTooMuch amount (a_LockedSmt a))), tick w)
      else (Ret None, w\<lparr>clock := Suc (Suc (clock w)),
              store := saveAccount (toSerialization (a\<lparr>a_LockedSmt := a_LockedSmt a - amount\<rparr>)) (store w)\<rparr>))"
  using assms(1-3) accountOf_used [OF assms(2), of addr]
  by (auto simp: AccountUnlockSmt_def Let_def a_def nonneg_def)

lemma AccountUseSmt_ok:
  fixes addr :: Address
  assumes "no_faults env" "accounts_ok (store w)" "0 \<le> amount"
  defines "a \<equiv> accountOf addr (store w)"
  shows "AccountUseSmt env addr amount w =
     (if a_LockedSmt a < amount
      then (Ret (Some (UnlockTooMuch amount (a_LockedSmt a))), tick w)
      else (Ret None, w\<lparr>clock := Suc (Suc (clock w)),
              store := saveAccount (toSerialization
                (a\<lparr>a_LockedSmt := a_LockedSmt a - amount, a_UsedSmt := a_UsedSmt a + amount\<rparr>)) (store w)\<rparr>))"
  using assms(1-3) accountOf_solvent [OF assms(2), of addr]
  by (auto simp: AccountUseSmt_def Let_def a_def nonneg_def solvent_def)

lemma AccountAddSmt_run:
  fixes addr :: Address
  assumes "no_faults env" "accounts_ok (store w)" "0 \<le> amount"
  defines "a \<equiv> accountOf addr (store w)"
  defines "rows \<equiv> (case accountBy (word_bytes addr) (store w) of
      None \<Rightarrow> tAccount (store w) @ [newAccountRow addr] | Some al \<Rightarrow> tAccount (store w))"
  shows "AccountAddSmt env addr amount w =
      (Ret (), w\<lparr>clock := (if accountBy (word_bytes addr) (store w) = None then 3 else 2) + clock w, store := (store w)\<lparr>tAccount := gorm_update_column blankList al_Address (word_bytes addr) 
        (\<lambda>row. row\<lparr>al_TotalReceivedSmtBytes := BigInt_Bytes (a_TotalReceivedSmt a + amount)\<rparr>) rows\<rparr>\<rparr>)"
proof (cases "accountBy (word_bytes addr) (store w)")
  case None
  then have a: "a = toAccount (newAccountRow addr)" by (simp add: a_def accountOf_def)
  from None have "gorm_save blankList al_Address (newAccountRow addr) (tAccount (store w)) = tAccount (store w) @ [newAccountRow addr]"
    by (simp add: gorm_save_def rowBy_None)
  with None assms(1-3) show ?thesis 
    by (simp add: AccountAddSmt_def findAccount_ok saveAccount_def Let_def toSerialization_def rows_def a accountSanity_def newAccountRow_def toAccount_def)
next
  case (Some al)
  then have a: "a = toAccount al" by (simp add: a_def accountOf_def)
  have "a_UsedSmt a \<le> a_TotalReceivedSmt a" using accountOf_used assms(2) a_def by simp
  with Some assms(1-3)  rowBy_Some [OF Some] show ?thesis 
    by (simp add: AccountAddSmt_def findAccount_ok saveAccount_def Let_def toSerialization_def rows_def a nonneg_def)
qed

lemma AccountAddSmt_ok:
  fixes addr :: Address
  assumes "no_faults env" "accounts_ok (store w)" "0 \<le> amount"
  shows "\<exists>w'. AccountAddSmt env addr amount w = (Ret (), w') \<and> accounts_ok (store w') \<and>
     accountOf addr (store w') =
       (accountOf addr (store w))\<lparr>a_TotalReceivedSmt := a_TotalReceivedSmt (accountOf addr (store w)) + amount\<rparr> \<and>
     (\<forall>b. b \<noteq> addr \<longrightarrow> accountOf b (store w') = accountOf b (store w)) \<and>
     (store w')\<lparr>tAccount := []\<rparr> = (store w)\<lparr>tAccount := []\<rparr>"
proof -
  define a where "a = accountOf addr (store w)"
  define f where "f = (\<lambda>row. row\<lparr>al_TotalReceivedSmtBytes := BigInt_Bytes (a_TotalReceivedSmt a + amount)\<rparr> :: accountSerialization)"
  define rows where "rows = (case accountBy (word_bytes addr) (store w) of
      None \<Rightarrow> tAccount (store w) @ [newAccountRow addr] | Some al \<Rightarrow> tAccount (store w))"
  define db' where "db' = (store w)\<lparr>tAccount := gorm_update_column blankList al_Address (word_bytes addr) f rows\<rparr>"
  obtain n where run: "AccountAddSmt env addr amount w = (Ret (), w\<lparr>clock := n, store := db'\<rparr>)"
    using AccountAddSmt_run [OF assms, of addr] by (simp add: a_def f_def rows_def db'_def)
  have f_acc: "toAccount (f al) = (toAccount al)\<lparr>a_TotalReceivedSmt := a_TotalReceivedSmt a + amount\<rparr>" for al
    using assms(3) by (simp add: f_def toAccount_def SetBytes_Bytes a_def)
  have f_key: "al_Address (f al) = al_Address al" for al by (simp add: f_def)
  have dist: "distinct (map al_Address rows)" and solv: "\<And>al. al \<in> set rows \<Longrightarrow> solvent (toAccount al)"
    using assms(2) by (auto simp: rows_def accounts_ok_def rowBy_None split: option.splits)
  have row: "rowBy al_Address (word_bytes b) rows = (if b = addr then Some (case accountBy (word_bytes addr) (store w) of None \<Rightarrow> newAccountRow addr | Some al \<Rightarrow> al) else accountBy (word_bytes b) (store w))" for b
    by (auto simp: rows_def rowBy_append word_bytes_inject split: option.split)
  have "accountOf b db' = (if b = addr then a\<lparr>a_TotalReceivedSmt := a_TotalReceivedSmt a + amount\<rparr> else accountOf b (store w))" for b
    by (cases "b = addr")
      (simp_all add: accountOf_def db'_def rowBy_gorm_update_column f_key word_bytes_inject f_acc a_def row)
  moreover have "accounts_ok db'"
  proof -
    have "solvent (toAccount (f al))" if al: "al \<in> set rows" "al_Address al = word_bytes addr" for al
    proof -
      from rowBy_unique [OF dist al(1)] al(2) row [of addr] have "toAccount al = a"
        by (simp add: a_def accountOf_def)
      with solv [OF al(1)] assms(3) show ?thesis by (simp add: f_acc solvent_def)
    qed
    with dist solv show ?thesis
      by (auto simp: accounts_ok_def db'_def gorm_update_column_def f_def comp_def if_distrib
          cong: if_cong)
  qed
  ultimately show ?thesis using run by (simp add: a_def db'_def)
qed

subsection \<open>The solvency invariant\<close>

lemma keeps_findAccount [keeps_rules]: "keeps (on_store I) (findAccount env addr)"
  unfolding findAccount_def by (rule keeps_db_query)

lemma keeps_AccountGetAccount [keeps_rules]: "keeps (on_store I) (AccountGetAccount env addr)"
  unfolding AccountGetAccount_def by (intro keeps_rules)

lemma keeps_AccountIsBalanceEnough [keeps_rules]: "keeps (on_store I) (AccountIsBalanceEnough env addr)"
  unfolding AccountIsBalanceEnough_def by (intro keeps_rules)

text \<open>
  The shape of the four operations that write the account back: read it, refuse or change it, check
  it, save it.  The invariant is kept when the change keeps the account solvent.
\<close>

lemma keeps_read_check_save:
  assumes chg: "\<And>a. nonneg a \<Longrightarrow> solvent a \<Longrightarrow> \<not> refuse a \<Longrightarrow> nonneg (chg a) \<Longrightarrow> solvent (chg a)"
    and addr: "\<And>a. a_Address (chg a) = a_Address a"
    and fin: "\<And>e. keeps (on_store accounts_ok) (fin e)"
    and ref: "\<And>a. keeps (on_store accounts_ok) (refused a)"
  shows "keeps (on_store accounts_ok)
     (bindA (AccountGetAccount env addr) (\<lambda>a.
      if refuse a then refused a
      else bindA (accountSanity (chg a)) (\<lambda>_.
           bindA (db_write env (saveAccount (toSerialization (chg a)))) fin)))"
proof (rule keepsI)
  fix w assume w: "on_store accounts_ok w"
  then have ok: "accounts_ok (store w)" by (simp add: on_store_def)
  obtain a where a: "AccountGetAccount env addr w = (Ret a, tick w)" "nonneg a" "solvent a"
      "a_Address a = word_bytes addr"
    using AccountGetAccount_reads [OF ok] by (metis surj_pair)
  let ?rest = "if refuse a then refused a
      else bindA (accountSanity (chg a)) (\<lambda>_. bindA (db_write env (saveAccount (toSerialization (chg a)))) fin)"
  have "on_store accounts_ok (snd (?rest (tick w)))"
  proof (cases "refuse a")
    case True
    with keepsD [OF ref] w show ?thesis by simp
  next
    case False
    show ?thesis
    proof (cases "nonneg (chg a) \<and> a_UsedSmt (chg a) \<le> a_TotalReceivedSmt (chg a)")
      case True
      have "accounts_ok (saveAccount (toSerialization (chg a)) s)" if "accounts_ok s" for s
        using that True False chg a addr by (intro accounts_ok_save) auto
      then have "keeps (on_store accounts_ok) (bindA (db_write env (saveAccount (toSerialization (chg a)))) fin)"
        by (intro keeps_bindA keeps_db_write fin)
      with True False w show ?thesis by (simp add: keepsD)
    next
      case bad: False
      then have "\<exists>msg. accountSanity (chg a) (tick w) = (Panic msg, tick w)"
        by (auto simp: accountSanity_def nonneg_def)
      with False w show ?thesis by auto
    qed
  qed
  with a(1) show "on_store accounts_ok (snd (bindA (AccountGetAccount env addr) (\<lambda>a.
      if refuse a then refused a
      else bindA (accountSanity (chg a)) (\<lambda>_.
           bindA (db_write env (saveAccount (toSerialization (chg a)))) fin)) w))"
    by simp
qed

lemma keeps_AccountLockSmt [keeps_rules]: "keeps (on_store accounts_ok) (AccountLockSmt env addr amount)"
proof -
  let ?chg = "\<lambda>a. a\<lparr>a_LockedSmt := a_LockedSmt a + amount, a_NeedSmt := a_NeedSmt a - amount\<rparr>"
  let ?refused = "\<lambda>a. returnA (if AccountAvailable a < amount then Some (BalanceNotEnough (AccountAvailable a) amount)
      else Some (NeedSmtSmaller (a_NeedSmt a) amount))"
  have eq: "AccountLockSmt env addr amount =
     bindA (AccountGetAccount env addr) (\<lambda>a.
       if AccountAvailable a < amount \<or> a_NeedSmt a < amount then ?refused a
       else bindA (accountSanity (?chg a)) (\<lambda>_. bindA (db_write env (saveAccount (toSerialization (?chg a)))) returnA))"
    by (auto simp: AccountLockSmt_def Let_def intro!: arg_cong [where f = "bindA (AccountGetAccount env addr)"])
  show ?thesis unfolding eq
    by (rule keeps_read_check_save) (auto simp: solvent_def AccountAvailable_def intro: keeps_returnA)
qed

lemma keeps_AccountUnlockSmt:
  "0 \<le> amount \<Longrightarrow> keeps (on_store accounts_ok) (AccountUnlockSmt env addr amount)"
  using keeps_read_check_save [where env = env and addr = addr and fin = returnA
      and refuse = "\<lambda>a. a_LockedSmt a < amount"
      and chg = "\<lambda>a. a\<lparr>a_LockedSmt := a_LockedSmt a - amount\<rparr>"
      and refused = "\<lambda>a. returnA (Some (UnlockTooMuch amount (a_LockedSmt a)))"]
  by (simp add: AccountUnlockSmt_def Let_def solvent_def keeps_returnA cong: if_cong)

lemma keeps_AccountUseSmt [keeps_rules]: "keeps (on_store accounts_ok) (AccountUseSmt env addr amount)"
  using keeps_read_check_save [where env = env and addr = addr and fin = returnA
      and refuse = "\<lambda>a. a_LockedSmt a < amount"
      and chg = "\<lambda>a. a\<lparr>a_LockedSmt := a_LockedSmt a - amount, a_UsedSmt := a_UsedSmt a + amount\<rparr>"
      and refused = "\<lambda>a. returnA (Some (UnlockTooMuch amount (a_LockedSmt a)))"]
  by (simp add: AccountUseSmt_def Let_def solvent_def keeps_returnA cong: if_cong)

lemma keeps_accountUpdateNeedSmt [keeps_rules]:
  "keeps (on_store accounts_ok) (accountUpdateNeedSmt env addr amount)"
  using keeps_read_check_save [where env = env and addr = addr and refuse = "\<lambda>a. False"
      and chg = "\<lambda>a. a\<lparr>a_NeedSmt := amount\<rparr>" and refused = "\<lambda>a. returnA ()"
      and fin = "\<lambda>err. case err of None \<Rightarrow> returnA () | Some e \<Rightarrow> panicA (''save account err '' @ errText e)"]
  by (simp add: accountUpdateNeedSmt_def Let_def solvent_def keeps_rules)

subsection \<open>The contract of lock, use and unlock\<close>

text \<open>Everything but the account of one address.\<close>

definition otherThan :: "Address \<Rightarrow> world \<Rightarrow>
    (Address \<Rightarrow> account option) \<times> modeldb \<times> int option \<times> goroutine list \<times> contractCall list" where
  "otherThan addr w =
     (\<lambda>b. if b = addr then None else Some (accountOf b (store w)), (store w)\<lparr>tAccount := []\<rparr>,
      ce_blockNumber w, goroutines w, txs w)"

text \<open>
  What the operations that pay for a transaction rely on.  \<open>rest\<close> is everything but the account
  \<open>acct\<close>; a refused operation changes neither.
\<close>

locale charging =
  fixes lock unlock spend :: "int \<Rightarrow> ('w, error option) act"
    and acct :: "'w \<Rightarrow> account"
    and rest :: "'w \<Rightarrow> 'r"
    and inv :: "'w \<Rightarrow> bool"
  assumes lock_granted: "inv w \<Longrightarrow> 0 \<le> n \<Longrightarrow> n \<le> AccountAvailable (acct w) \<Longrightarrow> n \<le> a_NeedSmt (acct w) \<Longrightarrow>
      \<exists>w'. lock n w = (Ret None, w') \<and> inv w' \<and> rest w' = rest w \<and>
        acct w' = (acct w)\<lparr>a_LockedSmt := a_LockedSmt (acct w) + n, a_NeedSmt := a_NeedSmt (acct w) - n\<rparr>"
    and lock_refused: "inv w \<Longrightarrow> 0 \<le> n \<Longrightarrow> AccountAvailable (acct w) < n \<or> a_NeedSmt (acct w) < n \<Longrightarrow>
      \<exists>e w'. lock n w = (Ret (Some e), w') \<and> inv w' \<and> rest w' = rest w \<and> acct w' = acct w"
    and unlock_locked: "inv w \<Longrightarrow> 0 \<le> n \<Longrightarrow> n \<le> a_LockedSmt (acct w) \<Longrightarrow>
      \<exists>w'. unlock n w = (Ret None, w') \<and> inv w' \<and> rest w' = rest w \<and>
        acct w' = (acct w)\<lparr>a_LockedSmt := a_LockedSmt (acct w) - n\<rparr>"
    and spend_locked: "inv w \<Longrightarrow> 0 \<le> n \<Longrightarrow> n \<le> a_LockedSmt (acct w) \<Longrightarrow>
      \<exists>w'. spend n w = (Ret None, w') \<and> inv w' \<and> rest w' = rest w \<and>
        acct w' = (acct w)\<lparr>a_LockedSmt := a_LockedSmt (acct w) - n, a_UsedSmt := a_UsedSmt (acct w) + n\<rparr>"
begin

text \<open>Locking a fee and giving it back costs nothing but the entry in \<open>NeedSmt\<close>.\<close>

lemma lock_then_unlock:
  assumes "inv w" "0 \<le> n" "n \<le> AccountAvailable (acct w)" "n \<le> a_NeedSmt (acct w)"
    "0 \<le> a_LockedSmt (acct w)"
  shows "\<exists>w'. bindA (lock n) (\<lambda>_. unlock n) w = (Ret None, w') \<and> inv w' \<and> rest w' = rest w \<and>
    acct w' = (acct w)\<lparr>a_NeedSmt := a_NeedSmt (acct w) - n\<rparr>"
proof -
  obtain w1 where w1: "lock n w = (Ret None, w1)" "inv w1" "rest w1 = rest w"
      "acct w1 = (acct w)\<lparr>a_LockedSmt := a_LockedSmt (acct w) + n, a_NeedSmt := a_NeedSmt (acct w) - n\<rparr>"
    using lock_granted [OF assms(1-4)] by blast
  obtain w2 where "unlock n w1 = (Ret None, w2)" "inv w2" "rest w2 = rest w1"
      "acct w2 = (acct w1)\<lparr>a_LockedSmt := a_LockedSmt (acct w1) - n\<rparr>"
    using unlock_locked [OF w1(2) assms(2)] w1(4) assms(5) by auto
  with w1 show ?thesis by simp
qed

text \<open>
  The loop that works through a list of jobs on a fee locked for all of them: each job's fee is spent
  when it succeeds and given back when it fails.  What the jobs do to the rest of the state is a run of the jobs'
  own relation.
\<close>

lemma settle_jobs:
  assumes job: "\<And>x w. x \<in> set xs \<Longrightarrow> inv w \<Longrightarrow>
      \<exists>r w'. job x w = (Ret r, w') \<and> inv w' \<and> J x r (rest w) (rest w') \<and> acct w' = acct w"
    and fee: "0 \<le> fee"
  shows "inv w \<Longrightarrow> fee * int (length xs) \<le> a_LockedSmt (acct w) \<Longrightarrow>
    \<exists>rs w'. inv w' \<and> runs J xs rs (rest w) (rest w') \<and>
      foldA (\<lambda>x (hasErr, hasSuccess).
        bindA (job x) (\<lambda>r.
        if \<not> good r then bindA (unlock fee) (\<lambda>_. returnA (True, hasSuccess))
        else bindA (spend fee) (\<lambda>_. returnA (hasErr, True)))) xs (he, hs) w =
        (Ret (he \<or> (\<exists>r \<in> set rs. \<not> good r), hs \<or> (\<exists>r \<in> set rs. good r)), w') \<and>
      acct w' = (acct w)\<lparr>a_LockedSmt := a_LockedSmt (acct w) - fee * int (length xs),
        a_UsedSmt := a_UsedSmt (acct w) + fee * int (length (filter good rs))\<rparr>"
  using job
proof (induction xs arbitrary: w he hs)
  case Nil
  then show ?case by (intro exI [of _ "[]"]) simp
next
  case (Cons x xs)
  obtain r w1 where w1: "job x w = (Ret r, w1)" "inv w1" "acct w1 = acct w" "J x r (rest w) (rest w1)"
    using Cons.prems(1) Cons.prems(3) [of x w] by auto
  have part: "0 \<le> fee * int (length xs)" using fee by simp
  have le: "fee + fee * int (length xs) \<le> a_LockedSmt (acct w1)"
    using Cons.prems(2) w1(3) by (simp add: algebra_simps)
  have le1: "fee \<le> a_LockedSmt (acct w1)" using le part by linarith
  let ?s = "(he \<or> \<not> good r, hs \<or> good r)"
  obtain w2 where w2: "(if good r then spend fee else unlock fee) w1 = (Ret None, w2)" "inv w2" "rest w2 = rest w1"
      "acct w2 = (acct w1)\<lparr>a_LockedSmt := a_LockedSmt (acct w1) - fee,
        a_UsedSmt := a_UsedSmt (acct w1) + (if good r then fee else 0)\<rparr>"
    using spend_locked [OF w1(2) fee le1] unlock_locked [OF w1(2) fee le1] by (cases "good r") auto
  have "fee * int (length xs) \<le> a_LockedSmt (acct w2)" using le w2(4) by simp
  then obtain rs w' where IH: "inv w'" "runs J xs rs (rest w2) (rest w')"
      "foldA (\<lambda>x (hasErr, hasSuccess).
        bindA (job x) (\<lambda>r.
        if \<not> good r then bindA (unlock fee) (\<lambda>_. returnA (True, hasSuccess))
        else bindA (spend fee) (\<lambda>_. returnA (hasErr, True)))) xs ?s w2 =
        (Ret (fst ?s \<or> (\<exists>r \<in> set rs. \<not> good r), snd ?s \<or> (\<exists>r \<in> set rs. good r)), w')"
      "acct w' = (acct w2)\<lparr>a_LockedSmt := a_LockedSmt (acct w2) - fee * int (length xs),
        a_UsedSmt := a_UsedSmt (acct w2) + fee * int (length (filter good rs))\<rparr>"
    using Cons.IH [OF w2(2), of "fst ?s" "snd ?s"] Cons.prems(3) by auto
  have "runs J (x # xs) (r # rs) (rest w) (rest w')" using w1(4) w2(3) IH(2) by auto
  then show ?case
    using IH w1(1,3) w2
    by (intro exI [of _ "r # rs"] exI [of _ w']) (cases "good r"; auto simp: algebra_simps simp del: runs.simps)
qed

end

text \<open>
  The state in which the paying operations run: no statement fails, the accounts are sound, and a
  block number has been stored.
\<close>

definition billing_inv :: "env \<Rightarrow> world \<Rightarrow> bool" where
  "billing_inv env w \<longleftrightarrow> no_faults env \<and> accounts_ok (store w) \<and> ce_blockNumber w \<noteq> None"

lemma saveAccount_rest [simp]: "(saveAccount al db)\<lparr>tAccount := rows\<rparr> = db\<lparr>tAccount := rows\<rparr>"
  by (simp add: saveAccount_def)

lemma saved_account:
  fixes n :: nat
  assumes "nonneg a" "solvent a" "a_Address a = word_bytes addr" "accounts_ok (store w)"
  defines "w' \<equiv> w\<lparr>clock := n, store := saveAccount (toSerialization a) (store w)\<rparr>"
  shows "otherThan addr w' = otherThan addr w" "accountOf addr (store w') = a" "accounts_ok (store w')"
    "ce_blockNumber w' = ce_blockNumber w"
  using assms
  by (simp_all add: otherThan_def accountOf_save accounts_ok_save fun_eq_iff)

lemma AccountLockSmt_effect:
  fixes addr :: Address
  assumes "no_faults env" "accounts_ok (store w)" "0 \<le> n"
  defines "a \<equiv> accountOf addr (store w)"
  shows "\<exists>r w'. AccountLockSmt env addr n w = (Ret r, w') \<and> accounts_ok (store w') \<and>
     otherThan addr w' = otherThan addr w \<and> ce_blockNumber w' = ce_blockNumber w \<and>
     (r = None \<longleftrightarrow> n \<le> AccountAvailable a \<and> n \<le> a_NeedSmt a) \<and>
     accountOf addr (store w') =
       (if r = None then a\<lparr>a_LockedSmt := a_LockedSmt a + n, a_NeedSmt := a_NeedSmt a - n\<rparr> else a)"
proof (cases "n \<le> AccountAvailable a \<and> n \<le> a_NeedSmt a")
  case True
  let ?a' = "a\<lparr>a_LockedSmt := a_LockedSmt a + n, a_NeedSmt := a_NeedSmt a - n\<rparr>"
  have "nonneg ?a'" "solvent ?a'" "a_Address ?a' = word_bytes addr"
    using True assms(3) by (auto simp: a_def nonneg_def solvent_def AccountAvailable_def)
  note saved = saved_account [OF this assms(2)]
  show ?thesis
    using True saved [where n = "Suc (Suc (clock w))"] assms(1-3)
    by (auto simp: AccountLockSmt_ok a_def not_less)
next
  case False
  then show ?thesis
    using assms(1-3) by (auto simp: AccountLockSmt_ok a_def otherThan_def not_less)
qed

lemma AccountUnlockSmt_effect:
  fixes addr :: Address
  assumes "no_faults env" "accounts_ok (store w)" "0 \<le> n"
  defines "a \<equiv> accountOf addr (store w)"
  shows "\<exists>r w'. AccountUnlockSmt env addr n w = (Ret r, w') \<and> accounts_ok (store w') \<and>
     otherThan addr w' = otherThan addr w \<and> ce_blockNumber w' = ce_blockNumber w \<and>
     (r = None \<longleftrightarrow> n \<le> a_LockedSmt a) \<and>
     accountOf addr (store w') = (if r = None then a\<lparr>a_LockedSmt := a_LockedSmt a - n\<rparr> else a)"
proof (cases "n \<le> a_LockedSmt a")
  case True
  let ?a' = "a\<lparr>a_LockedSmt := a_LockedSmt a - n\<rparr>"
  have "nonneg ?a'" "solvent ?a'" "a_Address ?a' = word_bytes addr"
    using True assms(3) accountOf_solvent [OF assms(2), of addr] by (auto simp: a_def nonneg_def solvent_def)
  note saved = saved_account [OF this assms(2)]
  show ?thesis
    using True saved [where n = "Suc (Suc (clock w))"] assms(1-3)
    by (auto simp: AccountUnlockSmt_ok a_def not_less)
next
  case False
  then show ?thesis
    using assms(1-3) by (auto simp: AccountUnlockSmt_ok a_def otherThan_def not_less)
qed

lemma AccountUseSmt_effect:
  fixes addr :: Address
  assumes "no_faults env" "accounts_ok (store w)" "0 \<le> n"
  defines "a \<equiv> accountOf addr (store w)"
  shows "\<exists>r w'. AccountUseSmt env addr n w = (Ret r, w') \<and> accounts_ok (store w') \<and>
     otherThan addr w' = otherThan addr w \<and> ce_blockNumber w' = ce_blockNumber w \<and>
     (r = None \<longleftrightarrow> n \<le> a_LockedSmt a) \<and>
     accountOf addr (store w') =
       (if r = None then a\<lparr>a_LockedSmt := a_LockedSmt a - n, a_UsedSmt := a_UsedSmt a + n\<rparr> else a)"
proof (cases "n \<le> a_LockedSmt a")
  case True
  let ?a' = "a\<lparr>a_LockedSmt := a_LockedSmt a - n, a_UsedSmt := a_UsedSmt a + n\<rparr>"
  have "nonneg ?a'" "solvent ?a'" "a_Address ?a' = word_bytes addr"
    using True assms(3) accountOf_solvent [OF assms(2), of addr] by (auto simp: a_def nonneg_def solvent_def)
  note saved = saved_account [OF this assms(2)]
  show ?thesis
    using True saved [where n = "Suc (Suc (clock w))"] assms(1-3)
    by (auto simp: AccountUseSmt_ok a_def not_less)
next
  case False
  then show ?thesis
    using assms(1-3) by (auto simp: AccountUseSmt_ok a_def otherThan_def not_less)
qed

interpretation smt: charging "AccountLockSmt env addr" "AccountUnlockSmt env addr" "AccountUseSmt env addr"
    "\<lambda>w. accountOf addr (store w)" "otherThan addr" "billing_inv env" for env addr
proof
  fix w :: world and n :: int
  assume inv: "billing_inv env w" and n: "0 \<le> n"
  then have ok: "no_faults env" "accounts_ok (store w)" "ce_blockNumber w \<noteq> None"
    by (simp_all add: billing_inv_def)
  note effects = AccountLockSmt_effect [OF ok(1,2) n, of addr]
    AccountUnlockSmt_effect [OF ok(1,2) n, of addr] AccountUseSmt_effect [OF ok(1,2) n, of addr]
  let ?a = "accountOf addr (store w)"
  show "\<exists>w'. AccountLockSmt env addr n w = (Ret None, w') \<and> billing_inv env w' \<and>
      otherThan addr w' = otherThan addr w \<and>
      accountOf addr (store w') = ?a\<lparr>a_LockedSmt := a_LockedSmt ?a + n, a_NeedSmt := a_NeedSmt ?a - n\<rparr>"
    if "n \<le> AccountAvailable ?a" "n \<le> a_NeedSmt ?a"
    using effects(1) that ok by (auto simp: billing_inv_def)
  show "\<exists>e w'. AccountLockSmt env addr n w = (Ret (Some e), w') \<and> billing_inv env w' \<and>
      otherThan addr w' = otherThan addr w \<and> accountOf addr (store w') = ?a"
    if "AccountAvailable ?a < n \<or> a_NeedSmt ?a < n"
    using effects(1) that ok by (auto simp: billing_inv_def)
  show "\<exists>w'. AccountUnlockSmt env addr n w = (Ret None, w') \<and> billing_inv env w' \<and>
      otherThan addr w' = otherThan addr w \<and>
      accountOf addr (store w') = ?a\<lparr>a_LockedSmt := a_LockedSmt ?a - n\<rparr>"
    if "n \<le> a_LockedSmt ?a"
    using effects(2) that ok by (auto simp: billing_inv_def)
  show "\<exists>w'. AccountUseSmt env addr n w = (Ret None, w') \<and> billing_inv env w' \<and>
      otherThan addr w' = otherThan addr w \<and>
      accountOf addr (store w') = ?a\<lparr>a_LockedSmt := a_LockedSmt ?a - n, a_UsedSmt := a_UsedSmt ?a + n\<rparr>"
    if "n \<le> a_LockedSmt ?a"
    using effects(3) that ok by (auto simp: billing_inv_def)
qed

subsection \<open>Properties\<close>

text \<open>An account with a balance, for the concrete applications.\<close>

definition sampleAccount :: account where
  "sampleAccount =
     \<lparr>a_Address = word_bytes (7 :: Address), a_TotalReceivedSmt = 20, a_UsedSmt = 0, a_LockedSmt = 0,
      a_NeedSmt = 20\<rparr>"

definition accountWorld :: world where
  "accountWorld = freshWorld\<lparr>store := emptyDb\<lparr>tAccount := [toSerialization sampleAccount]\<rparr>\<rparr>"

lemma sampleAccount_nonneg [simp]: "nonneg sampleAccount"
  by (simp add: nonneg_def sampleAccount_def)

lemma accountWorld_ok [simp]: "accounts_ok (store accountWorld)"
  by (simp add: accountWorld_def accounts_ok_def freshWorld_def emptyDb_def) (simp add: sampleAccount_def solvent_def)

lemma accountWorld_account [simp]: "accountOf 7 (store accountWorld) = sampleAccount"
  by (simp add: accountWorld_def accountOf_def) (simp add: sampleAccount_def)

lemma accountWorld_clock [simp]: "clock accountWorld = 0"
  by (simp add: accountWorld_def freshWorld_def)

text \<open>
  Locking a fee, when no statement fails: it succeeds exactly when the fee is covered by what
  is available (received minus used minus locked) and by the recorded need; it then moves the fee
  from the need to the locked amount.  A refusal leaves the account as it was.  Either way no other
  account, no other table and nothing else of the process changes, and the accounts stay solvent.
\<close>
lemma lock_fee_spec:
  fixes addr :: Address
  assumes "no_faults env" and "accounts_ok (store w)" and "0 \<le> fee"
  shows "\<exists>r w'. AccountLockSmt env addr fee w = (Ret r, w') \<and> accounts_ok (store w') \<and>
     otherThan addr w' = otherThan addr w \<and>
     (r = None \<longleftrightarrow> fee \<le> AccountAvailable (accountOf addr (store w)) \<and> fee \<le> a_NeedSmt (accountOf addr (store w))) \<and>
     accountOf addr (store w') =
       (if r = None
        then (accountOf addr (store w))\<lparr>a_LockedSmt := a_LockedSmt (accountOf addr (store w)) + fee,
               a_NeedSmt := a_NeedSmt (accountOf addr (store w)) - fee\<rparr>
        else accountOf addr (store w))"
  using AccountLockSmt_effect [OF assms, of addr] by blast

lemma lock_fee_spec_witness:
  "\<exists>r w'. AccountLockSmt quietEnv 7 10 accountWorld = (Ret r, w') \<and> r = None \<and>
     accountOf 7 (store w') = sampleAccount\<lparr>a_LockedSmt := 10, a_NeedSmt := 10\<rparr>"
  using lock_fee_spec [of quietEnv accountWorld 10 7]
  by (auto simp: sampleAccount_def AccountAvailable_def)

text \<open>
  The second half of a payment, when no statement fails.  A locked fee that is spent leaves the
  locked amount and enters the used one; a locked fee that is given back only leaves the locked
  amount.  Either is refused, without effect, when less than the fee is locked.  Nothing else
  changes, so spending never touches what was received, and \<open>NeedSmt\<close> stays reduced even when the fee
  is given back.
\<close>
lemma settle_fee_spec:
  fixes addr :: Address
  assumes "no_faults env" and "accounts_ok (store w)" and "0 \<le> fee"
  shows "(\<exists>r w'. AccountUseSmt env addr fee w = (Ret r, w') \<and> accounts_ok (store w') \<and>
        otherThan addr w' = otherThan addr w \<and>
        (r = None \<longleftrightarrow> fee \<le> a_LockedSmt (accountOf addr (store w))) \<and>
        accountOf addr (store w') =
          (if r = None
           then (accountOf addr (store w))\<lparr>a_LockedSmt := a_LockedSmt (accountOf addr (store w)) - fee,
                  a_UsedSmt := a_UsedSmt (accountOf addr (store w)) + fee\<rparr>
           else accountOf addr (store w))) \<and>
     (\<exists>r w'. AccountUnlockSmt env addr fee w = (Ret r, w') \<and> accounts_ok (store w') \<and>
        otherThan addr w' = otherThan addr w \<and>
        (r = None \<longleftrightarrow> fee \<le> a_LockedSmt (accountOf addr (store w))) \<and>
        accountOf addr (store w') =
          (if r = None
           then (accountOf addr (store w))\<lparr>a_LockedSmt := a_LockedSmt (accountOf addr (store w)) - fee\<rparr>
           else accountOf addr (store w)))"
  using AccountUseSmt_effect [OF assms, of addr] AccountUnlockSmt_effect [OF assms, of addr] by blast

lemma settle_fee_spec_witness:
  "\<exists>e w'. AccountUseSmt quietEnv 7 10 accountWorld = (Ret (Some e), w') \<and>
     accountOf 7 (store w') = sampleAccount"
  using settle_fee_spec [of quietEnv accountWorld 10 7] by (auto simp: sampleAccount_def)

text \<open>
  Solvency is an invariant of the paying operations: as long as the amounts are not negative, no
  lock, spend, give-back or update of the need makes used plus locked exceed what was received, in any
  account, whatever statement of the operation fails and even when the operation panics.
\<close>
lemma accounts_stay_solvent:
  assumes "accounts_ok (store w)" and "0 \<le> fee"
  shows "accounts_ok (store (snd (AccountLockSmt env addr fee w)))
     \<and> accounts_ok (store (snd (AccountUseSmt env addr fee w)))
     \<and> accounts_ok (store (snd (AccountUnlockSmt env addr fee w)))
     \<and> accounts_ok (store (snd (accountUpdateNeedSmt env addr fee w)))"
  using keepsD [OF keeps_AccountLockSmt, of w env addr fee] keepsD [OF keeps_AccountUseSmt, of w env addr fee]
    keepsD [OF keeps_AccountUnlockSmt [OF assms(2)], of w env addr]
    keepsD [OF keeps_accountUpdateNeedSmt, of w env addr fee] assms(1)
  by (simp add: on_store_def)

lemma accounts_stay_solvent_witness:
  "accounts_ok (store (snd (AccountLockSmt (quietEnv\<lparr>env_fault := \<lambda>n. Some ''disk I/O error''\<rparr>) 7 0 accountWorld)))"
  using accounts_stay_solvent [of accountWorld 0] by simp

text \<open>
  A deposit, when no statement fails, raises the total received of exactly the paying address by
  exactly the amount, opening the account if it has none, and changes no other account and no other
  table.
\<close>
lemma deposit_credited:
  fixes addr :: Address
  assumes "no_faults env" and "accounts_ok (store w)" and "0 \<le> amount"
  shows "\<exists>w'. AccountAddSmt env addr amount w = (Ret (), w') \<and> accounts_ok (store w') \<and>
     accountOf addr (store w') =
       (accountOf addr (store w))\<lparr>a_TotalReceivedSmt := a_TotalReceivedSmt (accountOf addr (store w)) + amount\<rparr> \<and>
     (\<forall>b. b \<noteq> addr \<longrightarrow> accountOf b (store w') = accountOf b (store w)) \<and>
     (store w')\<lparr>tAccount := []\<rparr> = (store w)\<lparr>tAccount := []\<rparr>"
  using assms by (rule AccountAddSmt_ok)

lemma deposit_credited_witness:
  "\<exists>w'. AccountAddSmt quietEnv 7 5 accountWorld = (Ret (), w') \<and>
     accountOf 7 (store w') = sampleAccount\<lparr>a_TotalReceivedSmt := 25\<rparr>"
  using deposit_credited [of quietEnv accountWorld 5 7] by (auto simp: sampleAccount_def)

text \<open>
  A deposit whose first read fails forgets the account: the row is taken to be blank, so the total
  received is overwritten by the single amount while what was used and locked stays.  An account that
  had received more is then recorded as having received only the last deposit.
\<close>
lemma deposit_after_failed_read_overwrites:
  fixes addr :: Address
  assumes "env_fault env (clock w) = Some e" and "env_fault env (Suc (clock w)) = None"
    and "accounts_ok (store w)" and "accountBy (word_bytes addr) (store w) = Some al" and "0 \<le> amount"
  shows "\<exists>w'. AccountAddSmt env addr amount w = (Ret (), w') \<and>
     accountOf addr (store w') = (accountOf addr (store w))\<lparr>a_TotalReceivedSmt := amount\<rparr>"
proof -
  have blank: "toAccount (newAccountRow addr) =
      \<lparr>a_Address = word_bytes addr, a_TotalReceivedSmt = 0, a_UsedSmt = 0, a_LockedSmt = 0, a_NeedSmt = 0\<rparr>"
    by (simp add: toAccount_def newAccountRow_def)
  have "findAccount env addr w = (Ret (Inl (DbErr e)), tick w)"
    using assms(1) by (simp add: findAccount_def db_query_def)
  then show ?thesis
    using assms(2,4,5)
    by (simp add: AccountAddSmt_def Let_def blank accountSanity_def db_write_def toSerialization_def
        accountOf_def rowBy_gorm_update_column)
      (simp add: toAccount_def SetBytes_Bytes)
qed

lemma deposit_after_failed_read_overwrites_witness:
  "\<exists>w'. AccountAddSmt (quietEnv\<lparr>env_fault := \<lambda>n. if n = 0 then Some ''database is locked'' else None\<rparr>) 7 5 accountWorld
      = (Ret (), w') \<and> accountOf 7 (store w') = sampleAccount\<lparr>a_TotalReceivedSmt := 5\<rparr>"
proof -
  let ?env = "quietEnv\<lparr>env_fault := \<lambda>n. if n = 0 then Some ''database is locked'' else None\<rparr>"
  have "accountBy (word_bytes (7 :: Address)) (store accountWorld) = Some (toSerialization sampleAccount)"
    by (simp add: accountWorld_def sampleAccount_def)
  from deposit_after_failed_read_overwrites [of ?env accountWorld "''database is locked''" 7, OF _ _ _ this, of 5]
  show ?thesis by simp
qed

text \<open>
  C40. An account survives the trip to its row and back exactly when none of its four amounts is
  negative: the row keeps absolute values, and the sign of a negative amount is lost.
\<close>
theorem account_row_roundtrip:
  "toAccount (toSerialization a) = a \<longleftrightarrow>
     0 \<le> a_TotalReceivedSmt a \<and> 0 \<le> a_UsedSmt a \<and> 0 \<le> a_LockedSmt a \<and> 0 \<le> a_NeedSmt a"
  by (cases a) (auto simp: toAccount_toSerialization)

end
