(* ===== verification/PM_Delegate.thy ===== *)
theory PM_Delegate
  imports PM_World
begin

text \<open>
  \<open>models/delegate.go\<close>, \<open>delegate_punish.go\<close> and \<open>delegate_announcedispose.go\<close>: the delegation of one
  participant of one channel, its fee, and the data access functions of the three tables.

  The lemmas give the fee a delegation is charged, the identity of the key, and what deleting a
  delegation does to the three tables; \<open>delegates_ok\<close> is the row invariant on which the rest of the
  service relies: every stored delegation has the key of its channel and delegator and its three
  encoded parts.
\<close>

subsection \<open>Getters and setters\<close>

definition ChannelIdentifier :: "delegate \<Rightarrow> Hash" where
  "ChannelIdentifier d = HexToHash (d_ChannelIdentifierStr d)"

definition TokenAddress :: "delegate \<Rightarrow> Address" where
  "TokenAddress d = HexToAddress (d_TokenAddressStr d)"

definition DelegatorAddress :: "delegate \<Rightarrow> Address" where
  "DelegatorAddress d = HexToAddress (d_DelegatorAddressStr d)"

definition PartnerAddress :: "delegate \<Rightarrow> Address" where
  "PartnerAddress d = HexToAddress (d_PartnerAddressStr d)"

text \<open>Decoding the empty byte string is an error, on which the getters panic.\<close>

definition gobDecode :: "'a option \<Rightarrow> 'a outcome" where
  "gobDecode b = (case b of None \<Rightarrow> Panic ''EOF'' | Some v \<Rightarrow> Ret v)"

definition SetUpdateBalanceProof :: "delegateUpdateBalanceProof \<Rightarrow> delegate \<Rightarrow> delegate" where
  "SetUpdateBalanceProof dubp d = d\<lparr>d_UpdateBalanceProofGob := Some dubp\<rparr>"

definition UpdateBalanceProof :: "delegate \<Rightarrow> delegateUpdateBalanceProof outcome" where
  "UpdateBalanceProof d = gobDecode (d_UpdateBalanceProofGob d)"

definition SetUnlocks :: "delegateUnlock list \<Rightarrow> delegate \<Rightarrow> delegate" where
  "SetUnlocks unlocks d = d\<lparr>d_UnlocksGob := Some unlocks\<rparr>"

definition Unlocks :: "delegate \<Rightarrow> delegateUnlock list outcome" where
  "Unlocks d = gobDecode (d_UnlocksGob d)"

definition SetSecrets :: "delegateSecret list \<Rightarrow> delegate \<Rightarrow> delegate" where
  "SetSecrets secrets d = d\<lparr>d_SecretsGob := Some secrets\<rparr>"

definition Secrets :: "delegate \<Rightarrow> delegateSecret list outcome" where
  "Secrets d = gobDecode (d_SecretsGob d)"

definition NeedSMT :: "delegate \<Rightarrow> int" where
  "NeedSMT d = StringToBigInt (d_NeedSMTStr d)"

text \<open>The fee of a delegation: per balance proof, per lock, per secret, plus the punish fee given.\<close>

definition CalcNeedSMT :: "params \<Rightarrow> int \<Rightarrow> delegate \<Rightarrow> delegate outcome" where
  "CalcNeedSMT p smt4Punish d =
     (case UpdateBalanceProof d of Panic msg \<Rightarrow> Panic msg | Ret ubp \<Rightarrow>
     (let needSMT0 = (if du_Nonce ubp > 0 then 0 + SmtUpdateTransfer p else 0) in
      case Unlocks d of Panic msg \<Rightarrow> Panic msg | Ret us \<Rightarrow>
     (let needSMT1 = needSMT0 + int (length us) * SmtUnlock p in
      case Secrets d of Panic msg \<Rightarrow> Panic msg | Ret ss \<Rightarrow>
     (let needSMT2 = needSMT1 + int (length ss) * SmtSecret p;
          needSMT3 = needSMT2 + smt4Punish
      in Ret (d\<lparr>d_NeedSMTStr := BigIntToString (Some needSMT3)\<rparr>)))))"

definition BuildDelegateKey :: "Hash \<Rightarrow> Address \<Rightarrow> byte list" where
  "BuildDelegateKey cAddr delegator = ([] @ word_bytes cAddr) @ word_bytes delegator"

subsection \<open>Data access\<close>

definition GetDelegateByKey :: "env \<Rightarrow> byte list \<Rightarrow> (error + delegate) action" where
  "GetDelegateByKey env key =
     db_query env (\<lambda>db. gorm_first (gorm_where blankList d_Key key (tDelegate db)))"

definition GetAllDelegate :: "env \<Rightarrow> delegate list action" where
  "GetAllDelegate env =
     bindA (db_query env (\<lambda>db. Inr (tDelegate db))) (\<lambda>r.
     case r of Inl e \<Rightarrow> panicA (errText e) | Inr ds \<Rightarrow> returnA ds)"

definition GetDelegateListByChannelIdentifier :: "env \<Rightarrow> Hash \<Rightarrow> (error + delegate list) action" where
  "GetDelegateListByChannelIdentifier env channelIdentifier =
     db_query env (\<lambda>db. Inr (gorm_where blankList d_ChannelIdentifierStr (Hash_String channelIdentifier)
       (tDelegate db)))"

text \<open>\<open>UpdateObject\<close> of a delegation: \<open>Save\<close>, and a panic on an error.\<close>

definition UpdateObject :: "env \<Rightarrow> delegate \<Rightarrow> unit action" where
  "UpdateObject env d =
     bindA (db_write env (saveDelegate d)) (\<lambda>err.
     case err of None \<Rightarrow> returnA () | Some e \<Rightarrow> panicA (errText e))"

text \<open>The status is set in memory and in the row's column; the caller gets both back.\<close>

definition UpdateDelegateStatus :: "env \<Rightarrow> delegate \<Rightarrow> delegateStatus \<Rightarrow> (delegate \<times> error option) action" where
  "UpdateDelegateStatus env d status =
     (let d' = d\<lparr>d_Status := status\<rparr> in
      bindA (db_write env (\<lambda>db. db\<lparr>tDelegate :=
               gorm_update_column blankList d_Key (d_Key d') (\<lambda>r. r\<lparr>d_Status := status\<rparr>) (tDelegate db)\<rparr>))
        (\<lambda>err. returnA (d', err)))"

text \<open>Two helpers of the tests.\<close>

definition markDelegateRunning :: "env \<Rightarrow> Hash \<Rightarrow> Address \<Rightarrow> error option action" where
  "markDelegateRunning env cAddr addr =
     (let key = BuildDelegateKey cAddr addr in
      db_write env (\<lambda>db. db\<lparr>tDelegate :=
        gorm_update_column blankList d_Key key (\<lambda>r. r\<lparr>d_Status := DelegateStatusRunning\<rparr>) (tDelegate db)\<rparr>))"

definition getDelegateByOriginKey :: "env \<Rightarrow> Hash \<Rightarrow> Address \<Rightarrow> delegate action" where
  "getDelegateByOriginKey env cAddr addr =
     bindA (GetDelegateByKey env (BuildDelegateKey cAddr addr)) (\<lambda>r.
     case r of Inl e \<Rightarrow> panicA (errText e) | Inr d \<Rightarrow> returnA d)"

text \<open>
  Each \<open>Delete\<close> is given a struct: for the delegation its primary key is set, for the other two tables
  only \<open>DelegateKey\<close> is, and the primary key \<open>ID\<close> is blank.  The error of the first two statements is
  overwritten by the next one's.
\<close>

definition DeleteDelegate :: "env \<Rightarrow> byte list \<Rightarrow> (error + unit) action" where
  "DeleteDelegate env key =
     transaction env
       (bindA (db_write env (\<lambda>db. db\<lparr>tDelegate := gorm_delete blankList d_Key key (tDelegate db)\<rparr>)) (\<lambda>_.
        bindA (db_write env (\<lambda>db. db\<lparr>tPunish := gorm_delete blankNat dp_ID 0 (tPunish db)\<rparr>)) (\<lambda>_.
        bindA (db_write env (\<lambda>db. db\<lparr>tDispose := gorm_delete blankNat da_ID 0 (tDispose db)\<rparr>)) (\<lambda>err.
        returnA (case err of None \<Rightarrow> Inr () | Some e \<Rightarrow> Inl e)))))"

definition GetDelegatePunishListByDelegateKey :: "env \<Rightarrow> byte list \<Rightarrow> (error + delegatePunish list) action" where
  "GetDelegatePunishListByDelegateKey env delegateKey =
     db_query env (\<lambda>db. Inr (gorm_where blankList dp_DelegateKey delegateKey (tPunish db)))"

definition GetDelegateAnnounceDisposeListByDelegateKey ::
    "env \<Rightarrow> byte list \<Rightarrow> (error + delegateAnnounceDispose list) action" where
  "GetDelegateAnnounceDisposeListByDelegateKey env delegateKey =
     db_query env (\<lambda>db. Inr (gorm_where blankList da_DelegateKey delegateKey (tDispose db)))"

subsection \<open>The row invariant\<close>

definition delegate_ok :: "delegate \<Rightarrow> bool" where
  "delegate_ok d \<longleftrightarrow>
     d_Key d = BuildDelegateKey (ChannelIdentifier d) (DelegatorAddress d) \<and>
     d_ChannelIdentifierStr d = Hash_String (ChannelIdentifier d) \<and>
     d_UpdateBalanceProofGob d \<noteq> None \<and> d_UnlocksGob d \<noteq> None \<and> d_SecretsGob d \<noteq> None"

definition delegates_ok :: "modeldb \<Rightarrow> bool" where
  "delegates_ok db \<longleftrightarrow> distinct (map d_Key (tDelegate db)) \<and> (\<forall>d \<in> set (tDelegate db). delegate_ok d)"

lemma BuildDelegateKey_inject:
  "BuildDelegateKey c a = BuildDelegateKey c' a' \<longleftrightarrow> c = c' \<and> a = a'"
  by (auto simp: BuildDelegateKey_def word_bytes_inject)

lemma BuildDelegateKey_nonempty [simp]: "BuildDelegateKey c a \<noteq> []"
proof
  assume "BuildDelegateKey c a = []"
  then have "length (BuildDelegateKey c a) = 0" by simp
  then show False by (simp add: BuildDelegateKey_def)
qed

lemma delegate_ok_key [simp]: "delegate_ok d \<Longrightarrow> d_Key d \<noteq> []"
  by (simp add: delegate_ok_def)

lemma delegate_ok_getters:
  assumes "delegate_ok d"
  obtains u us ss where "UpdateBalanceProof d = Ret u" "Unlocks d = Ret us" "Secrets d = Ret ss"
  using assms
  by (auto simp: delegate_ok_def UpdateBalanceProof_def Unlocks_def Secrets_def gobDecode_def)

lemma delegate_ok_status [simp]:
  "delegate_ok (d\<lparr>d_Status := s\<rparr>) = delegate_ok d"
  "delegate_ok (d\<lparr>d_Error := e\<rparr>) = delegate_ok d"
  "delegate_ok (d\<lparr>d_SettleBlockNumber := n\<rparr>) = delegate_ok d"
  by (simp_all add: delegate_ok_def ChannelIdentifier_def DelegatorAddress_def)

lemma delegates_ok_save:
  "delegates_ok db \<Longrightarrow> delegate_ok d \<Longrightarrow> delegates_ok (saveDelegate d db)"
  using set_gorm_save [of blankList d_Key d "tDelegate db"]
  by (auto simp: delegates_ok_def saveDelegate_def intro!: distinct_gorm_save)

lemma delegates_ok_status_column:
  assumes "delegates_ok db"
  shows "delegates_ok (db\<lparr>tDelegate :=
     gorm_update_column blankList d_Key k (\<lambda>r. r\<lparr>d_Status := s\<rparr>) (tDelegate db)\<rparr>)"
  using assms
  by (auto simp: delegates_ok_def map_pk_gorm_update_column) (auto simp: gorm_update_column_def)

lemma delegates_ok_delete:
  "delegates_ok db \<Longrightarrow> delegates_ok (db\<lparr>tDelegate := gorm_delete blankList d_Key k (tDelegate db)\<rparr>)"
  by (auto simp: delegates_ok_def distinct_gorm_delete) (auto simp: gorm_delete_def split: if_splits)

lemma keeps_GetDelegateByKey [keeps_rules]: "keeps (on_store I) (GetDelegateByKey env key)"
  unfolding GetDelegateByKey_def by (rule keeps_db_query)

lemma keeps_GetAllDelegate [keeps_rules]: "keeps (on_store I) (GetAllDelegate env)"
  unfolding GetAllDelegate_def by (intro keeps_rules)

lemma keeps_GetDelegateListByChannelIdentifier [keeps_rules]:
  "keeps (on_store I) (GetDelegateListByChannelIdentifier env c)"
  unfolding GetDelegateListByChannelIdentifier_def by (rule keeps_db_query)

lemma keeps_GetDelegatePunishListByDelegateKey [keeps_rules]:
  "keeps (on_store I) (GetDelegatePunishListByDelegateKey env k)"
  unfolding GetDelegatePunishListByDelegateKey_def by (rule keeps_db_query)

lemma keeps_GetDelegateAnnounceDisposeListByDelegateKey [keeps_rules]:
  "keeps (on_store I) (GetDelegateAnnounceDisposeListByDelegateKey env k)"
  unfolding GetDelegateAnnounceDisposeListByDelegateKey_def by (rule keeps_db_query)

lemma keeps_delegates_UpdateObject:
  "delegate_ok d \<Longrightarrow> keeps (on_store delegates_ok) (UpdateObject env d)"
  unfolding UpdateObject_def
  by (intro keeps_bindA keeps_db_write delegates_ok_save keeps_case_option keeps_returnA keeps_panicA)

lemma keeps_delegates_UpdateDelegateStatus [keeps_rules]:
  "keeps (on_store delegates_ok) (UpdateDelegateStatus env d s)"
  unfolding UpdateDelegateStatus_def Let_def
  by (intro keeps_bindA keeps_db_write delegates_ok_status_column keeps_returnA)

lemma keeps_delegates_DeleteDelegate [keeps_rules]:
  "keeps (on_store delegates_ok) (DeleteDelegate env key)"
  unfolding DeleteDelegate_def
  by (intro keeps_transaction keeps_bindA keeps_db_write delegates_ok_delete keeps_returnA)
    (simp_all add: delegates_ok_def)

subsection \<open>Each operation, when no statement fails\<close>

lemma GetDelegateByKey_ok [simp]:
  assumes "no_faults env" "key \<noteq> []"
  shows "GetDelegateByKey env key w =
     (Ret (case delegateBy key (store w) of None \<Rightarrow> Inl ErrRecordNotFound | Some d \<Rightarrow> Inr d), tick w)"
  using assms by (simp add: GetDelegateByKey_def gorm_first_where_key)

lemma mark_then_read:
  assumes "no_faults env" "delegateBy (BuildDelegateKey c a) (store w) = Some d"
  shows "\<exists>w'. bindA (markDelegateRunning env c a) (\<lambda>_. getDelegateByOriginKey env c a) w = (Ret (d\<lparr>d_Status := DelegateStatusRunning\<rparr>), w')"
  using assms by (simp add: markDelegateRunning_def getDelegateByOriginKey_def Let_def rowBy_gorm_update_column)

lemma UpdateObject_ok [simp]:
  "no_faults env \<Longrightarrow> UpdateObject env d w = (Ret (), (tick w)\<lparr>store := saveDelegate d (store w)\<rparr>)"
  by (simp add: UpdateObject_def)

lemma DeleteDelegate_ok:
  assumes "no_faults env" "key \<noteq> []"
  shows "DeleteDelegate env key w =
     (Ret (Inr ()), w\<lparr>clock := clock w + 4, store := (store w)\<lparr>
        tDelegate := filter (\<lambda>d. d_Key d \<noteq> key) (tDelegate (store w)), tPunish := [], tDispose := []\<rparr>\<rparr>)"
proof -
  let ?body = "bindA (db_write env (\<lambda>db. db\<lparr>tDelegate := gorm_delete blankList d_Key key (tDelegate db)\<rparr>)) (\<lambda>_.
        bindA (db_write env (\<lambda>db. db\<lparr>tPunish := gorm_delete blankNat dp_ID 0 (tPunish db)\<rparr>)) (\<lambda>_.
        bindA (db_write env (\<lambda>db. db\<lparr>tDispose := gorm_delete blankNat da_ID 0 (tDispose db)\<rparr>)) (\<lambda>err.
        returnA (case err of None \<Rightarrow> Inr () | Some e \<Rightarrow> Inl e))))"
  have "?body w = (Ret (Inr ()), w\<lparr>clock := Suc (Suc (Suc (clock w))), store := (store w)\<lparr>
        tDelegate := filter (\<lambda>d. d_Key d \<noteq> key) (tDelegate (store w)), tPunish := [], tDispose := []\<rparr>\<rparr>)"
    using assms by (simp add: gorm_delete_def)
  from transaction_ok [of env ?body, OF assms(1) this] show ?thesis
    by (auto simp: DeleteDelegate_def)
qed

subsection \<open>Properties\<close>

text \<open>A stored delegation with one lock and one secret, for the concrete applications.\<close>

definition sampleProof :: delegateUpdateBalanceProof where
  "sampleProof =
     \<lparr>du_Nonce = 2, du_TransferAmountStr = ''200'', du_LocksrootStr = Hash_String 0,
      du_ExtraHashStr = Hash_String 0, du_ClosingSignature = [], du_NonClosingSignature = []\<rparr>"

definition sampleUnlock :: delegateUnlock where
  "sampleUnlock =
     \<lparr>dl_LockSecretHashStr = Hash_String 11, dl_AmountStr = ''30'', dl_Expiration = 900,
      dl_MerkleProof = [], dl_Signature = []\<rparr>"

definition sampleDelegate :: "Hash \<Rightarrow> Address \<Rightarrow> delegate" where
  "sampleDelegate c a =
     \<lparr>d_Key = BuildDelegateKey c a, d_ChannelIdentifierStr = Hash_String c, d_OpenBlockNumber = 3,
      d_TokenAddressStr = Address_Hex (env_keccak quietEnv) 4,
      d_DelegatorAddressStr = Address_Hex (env_keccak quietEnv) a,
      d_PartnerAddressStr = Address_Hex (env_keccak quietEnv) 8,
      d_SettleBlockNumber = 0, d_DelegateTimestamp = 0, d_DelegateBlockNumber = 0,
      d_Status = DelegateStatusInit, d_Error = '''', d_NeedSMTStr = ''5'',
      d_UpdateBalanceProofGob = Some sampleProof, d_UnlocksGob = Some [sampleUnlock],
      d_SecretsGob = Some [\<lparr>ds_Secret = Hash_String 13, ds_RegisterBlock = 100\<rparr>]\<rparr>"

lemma sampleDelegate_ok [simp]: "delegate_ok (sampleDelegate c a)"
  by (simp add: delegate_ok_def sampleDelegate_def ChannelIdentifier_def DelegatorAddress_def)

lemma sampleDelegate_getters:
  "UpdateBalanceProof (sampleDelegate c a) = Ret sampleProof"
  "Unlocks (sampleDelegate c a) = Ret [sampleUnlock]"
  "Secrets (sampleDelegate c a) = Ret [\<lparr>ds_Secret = Hash_String 13, ds_RegisterBlock = 100\<rparr>]"
  "d_Key (sampleDelegate c a) = BuildDelegateKey c a"
  "d_Status (sampleDelegate c a) = DelegateStatusInit"
  by (simp_all add: sampleDelegate_def UpdateBalanceProof_def Unlocks_def Secrets_def gobDecode_def)

definition samplePunish :: "byte list \<Rightarrow> delegatePunish" where
  "samplePunish k =
     \<lparr>dp_ID = 1, dp_LockHashStr = Hash_String 17, dp_DelegateKey = k,
      dp_AdditionalHashStr = Hash_String 19, dp_Signature = []\<rparr>"

text \<open>
  The fee of a stored delegation: the balance-proof fee once if its nonce is positive, the unlock
  fee per lock, the registration fee per secret, and the punish fee that is passed in; the fee
  can be read back from the text column it is kept in, and no other field changes.
\<close>
lemma delegation_fee:
  assumes "delegate_ok d"
  shows "\<exists>u us ss d'. UpdateBalanceProof d = Ret u \<and> Unlocks d = Ret us \<and> Secrets d = Ret ss \<and>
     CalcNeedSMT p smt4Punish d = Ret d' \<and> d' = d\<lparr>d_NeedSMTStr := d_NeedSMTStr d'\<rparr> \<and>
     NeedSMT d' = (if du_Nonce u > 0 then SmtUpdateTransfer p else 0) +
       int (length us) * SmtUnlock p + int (length ss) * SmtSecret p + smt4Punish"
proof -
  obtain u us ss where g: "UpdateBalanceProof d = Ret u" "Unlocks d = Ret us" "Secrets d = Ret ss"
    using delegate_ok_getters [OF assms] .
  let ?n = "(if du_Nonce u > 0 then SmtUpdateTransfer p else 0) +
       int (length us) * SmtUnlock p + int (length ss) * SmtSecret p + smt4Punish"
  have "CalcNeedSMT p smt4Punish d = Ret (d\<lparr>d_NeedSMTStr := BigIntToString (Some ?n)\<rparr>)"
    by (simp add: CalcNeedSMT_def g Let_def)
  then show ?thesis using g by (auto simp: NeedSMT_def BigIntToString_def)
qed

lemma delegation_fee_witness:
  "\<exists>d'. CalcNeedSMT initParams 2 (sampleDelegate 5 7) = Ret d' \<and> NeedSMT d' = 7"
proof -
  have "delegate_ok (sampleDelegate 5 7)" by simp
  from delegation_fee [OF this, of initParams 2] obtain d' where
    "CalcNeedSMT initParams 2 (sampleDelegate 5 7) = Ret d'"
    "NeedSMT d' = (if du_Nonce sampleProof > 0 then SmtUpdateTransfer initParams else 0) +
       int (length [sampleUnlock]) * SmtUnlock initParams +
       int (length [\<lparr>ds_Secret = Hash_String 13, ds_RegisterBlock = 100\<rparr>]) * SmtSecret initParams + 2"
    unfolding sampleDelegate_getters outcome.inject by blast
  moreover have "du_Nonce sampleProof > 0" by (simp add: sampleProof_def)
  ultimately show ?thesis by (simp add: initParams_def)
qed

text \<open>
  Deleting one delegation, when no statement fails: that delegation is gone and every other one is
  kept, but the punish evidence and the disposed locks of \emph{all} delegations are removed, because
  the two other statements have no condition.
\<close>
lemma delete_delegate_removes_all_evidence:
  assumes "no_faults env" and "key \<noteq> []"
  shows "\<exists>w'. DeleteDelegate env key w = (Ret (Inr ()), w') \<and>
     tDelegate (store w') = filter (\<lambda>d. d_Key d \<noteq> key) (tDelegate (store w)) \<and>
     tPunish (store w') = [] \<and> tDispose (store w') = []"
  using DeleteDelegate_ok [OF assms, of w] by simp

lemma delete_delegate_removes_all_evidence_witness:
  "\<exists>w'. DeleteDelegate quietEnv (BuildDelegateKey 5 7)
       (freshWorld\<lparr>store := emptyDb\<lparr>tDelegate := [sampleDelegate 5 7, sampleDelegate 6 7],
          tPunish := [samplePunish (BuildDelegateKey 6 7)]\<rparr>\<rparr>) = (Ret (Inr ()), w') \<and>
     delegateBy (BuildDelegateKey 6 7) (store w') = Some (sampleDelegate 6 7) \<and> tPunish (store w') = []"
  using delete_delegate_removes_all_evidence [of quietEnv "BuildDelegateKey 5 7"
      "freshWorld\<lparr>store := emptyDb\<lparr>tDelegate := [sampleDelegate 5 7, sampleDelegate 6 7],
          tPunish := [samplePunish (BuildDelegateKey 6 7)]\<rparr>\<rparr>"]
  by (auto simp: sampleDelegate_getters BuildDelegateKey_inject)

text \<open>
  A delegation whose own delete statement fails is reported as deleted when the last statement
  succeeds: the error of the first statement is overwritten, the transaction is committed, and the
  delegation stays without its evidence.
\<close>
lemma failed_delete_is_reported_as_success:
  assumes "env_fault env (clock w) = Some e" and "\<And>n. clock w < n \<Longrightarrow> env_fault env n = None"
  shows "\<exists>w'. DeleteDelegate env key w = (Ret (Inr ()), w') \<and>
     tDelegate (store w') = tDelegate (store w) \<and> tPunish (store w') = [] \<and> tDispose (store w') = []"
  using assms by (simp add: DeleteDelegate_def transaction_def db_write_def db_commit_def gorm_delete_def
      bindA_def)

lemma failed_delete_is_reported_as_success_witness:
  "\<exists>w'. DeleteDelegate (quietEnv\<lparr>env_fault := \<lambda>n. if n = 0 then Some ''database is locked'' else None\<rparr>)
       (BuildDelegateKey 5 7) (freshWorld\<lparr>store := emptyDb\<lparr>tDelegate := [sampleDelegate 5 7]\<rparr>\<rparr>)
     = (Ret (Inr ()), w') \<and> tDelegate (store w') = [sampleDelegate 5 7]"
  using failed_delete_is_reported_as_success
    [of "quietEnv\<lparr>env_fault := \<lambda>n. if n = 0 then Some ''database is locked'' else None\<rparr>"
      "freshWorld\<lparr>store := emptyDb\<lparr>tDelegate := [sampleDelegate 5 7]\<rparr>\<rparr>"]
  by (auto simp: freshWorld_def)

text \<open>
  C39. The primary key of a delegation identifies its channel and its delegator: two keys are equal
  exactly when both are, and a key is 52 bytes long.
\<close>
theorem delegate_key_identifies:
  "(BuildDelegateKey c a = BuildDelegateKey c' a' \<longleftrightarrow> c = c' \<and> a = a') \<and> length (BuildDelegateKey c a) = 52"
  by (simp add: BuildDelegateKey_inject) (simp add: BuildDelegateKey_def)

end
