(* ===== verification/PM_Monitor.thy ===== *)
theory PM_Monitor
  imports PM_Delegate
begin

text \<open>
  \<open>models/delegatemonitor.go\<close>: the block numbers at which a delegation is executed.

  \<open>AddDelegateMonitorInTx\<close> schedules the two execution points of a delegation,
  \<open>GetDelegateMonitorList\<close> selects the ones of a block.  The lemmas show that the schedule is what
  the lookup returns, that a scheduled point is returned at its own block only, and the exception,
  block 0, where the blank column is no condition.
\<close>

definition GetDelegateMonitorList :: "env \<Rightarrow> int \<Rightarrow> (error + delegateMonitor list) action" where
  "GetDelegateMonitorList env blockNumber =
     db_query env (\<lambda>db. Inr (gorm_where blankInt dm_BlockNumber blockNumber (tMonitor db)))"

definition newMonitor :: "Address \<Rightarrow> int \<Rightarrow> monitorType \<Rightarrow> byte list \<Rightarrow> delegateMonitor" where
  "newMonitor rnd blockNumber typ delegateKey =
     \<lparr>dm_Key = word_bytes rnd, dm_BlockNumber = blockNumber, dm_Type = typ, dm_DelegateKey = delegateKey\<rparr>"

definition AddDelegateMonitorInTx :: "env \<Rightarrow> delegate \<Rightarrow> unit action" where
  "AddDelegateMonitorInTx env d =
     (let updateBalanceProofTime = i64 (d_SettleBlockNumber d - RevealTimeout (env_params env)) in
      bindA (NewRandomAddress env) (\<lambda>k1.
      bindA (db_write env (saveMonitor
        (newMonitor k1 updateBalanceProofTime MonitorTypeUnlockAndUpdateBalanceProof (d_Key d)))) (\<lambda>err.
      case err of Some e \<Rightarrow> panicA (''db err '' @ errText e) | None \<Rightarrow>
      bindA (NewRandomAddress env) (\<lambda>k2.
      bindA (db_write env (saveMonitor
        (newMonitor k2 (d_SettleBlockNumber d) MonitorTypePunish (d_Key d)))) (\<lambda>err.
      case err of Some e \<Rightarrow> panicA (''db err '' @ errText e) | None \<Rightarrow> returnA ())))))"

definition AddDelegateMonitor :: "env \<Rightarrow> delegate \<Rightarrow> unit action" where
  "AddDelegateMonitor env d = AddDelegateMonitorInTx env d"

subsection \<open>Lemmas\<close>

text \<open>The random keys drawn by the next two calls are new: not in the table and not equal.\<close>

definition fresh_keys :: "env \<Rightarrow> world \<Rightarrow> bool" where
  "fresh_keys env w \<longleftrightarrow>
     word_bytes (env_random env (clock w)) \<notin> dm_Key ` set (tMonitor (store w)) \<and>
     word_bytes (env_random env (clock w + 2)) \<notin> dm_Key ` set (tMonitor (store w)) \<and>
     env_random env (clock w) \<noteq> env_random env (clock w + 2)"

text \<open>The two execution points of a delegation, in the order they are saved.\<close>

definition schedule :: "env \<Rightarrow> delegate \<Rightarrow> nat \<Rightarrow> delegateMonitor list" where
  "schedule env d n =
     [newMonitor (env_random env n) (i64 (d_SettleBlockNumber d - RevealTimeout (env_params env)))
        MonitorTypeUnlockAndUpdateBalanceProof (d_Key d),
      newMonitor (env_random env (n + 2)) (d_SettleBlockNumber d) MonitorTypePunish (d_Key d)]"

lemma keeps_GetDelegateMonitorList [keeps_rules]: "keeps (on_store I) (GetDelegateMonitorList env n)"
  unfolding GetDelegateMonitorList_def by (rule keeps_db_query)

lemma keeps_AddDelegateMonitorInTx:
  assumes "\<And>m db. I db \<Longrightarrow> I (saveMonitor m db)"
  shows "keeps (on_store I) (AddDelegateMonitorInTx env d)"
  unfolding AddDelegateMonitorInTx_def
  by (intro keeps_rules keeps_db_write assms; assumption)

lemma AddDelegateMonitorInTx_ok:
  assumes "no_faults env" "fresh_keys env w"
  shows "AddDelegateMonitorInTx env d w =
     (Ret (), w\<lparr>clock := clock w + 4,
        store := (store w)\<lparr>tMonitor := tMonitor (store w) @ schedule env d (clock w)\<rparr>\<rparr>)"
proof -
  have "word_bytes (env_random env (Suc (Suc (clock w)))) \<noteq> word_bytes (env_random env (clock w))"
    using assms(2) by (auto simp: fresh_keys_def word_bytes_inject)
  with assms show ?thesis
    by (simp add: AddDelegateMonitorInTx_def saveMonitor_def gorm_save_def schedule_def newMonitor_def
        Let_def fresh_keys_def)
qed

lemma GetDelegateMonitorList_ok [simp]:
  "no_faults env \<Longrightarrow> GetDelegateMonitorList env n w =
     (Ret (Inr (filter (\<lambda>m. n = 0 \<or> dm_BlockNumber m = n) (tMonitor (store w)))), tick w)"
  by (simp add: GetDelegateMonitorList_def gorm_where_def)

subsection \<open>Properties\<close>

text \<open>
  Scheduling a delegation and then asking for the execution points of a block \<open>n\<close> other than 0:
  the answer is what it was before, followed by the balance-proof and unlock point when \<open>n\<close> is the
  settle block less the reveal timeout, and by the punish point when \<open>n\<close> is the settle block.
\<close>
lemma schedule_then_lookup:
  assumes "no_faults env" "fresh_keys env w" "n \<noteq> 0"
  shows "\<exists>w'. bindA (AddDelegateMonitor env d) (\<lambda>_. GetDelegateMonitorList env n) w =
     (Ret (Inr (filter (\<lambda>m. dm_BlockNumber m = n) (tMonitor (store w)) @
        (if n = i64 (d_SettleBlockNumber d - RevealTimeout (env_params env))
         then [newMonitor (env_random env (clock w)) n MonitorTypeUnlockAndUpdateBalanceProof (d_Key d)] else []) @
        (if n = d_SettleBlockNumber d
         then [newMonitor (env_random env (clock w + 2)) n MonitorTypePunish (d_Key d)] else []))), w')"
  using assms
  by (auto simp: AddDelegateMonitor_def AddDelegateMonitorInTx_ok schedule_def newMonitor_def)

lemma schedule_then_lookup_witness:
  "\<exists>w'. bindA (AddDelegateMonitor quietEnv (sampleDelegate 5 7\<lparr>d_SettleBlockNumber := 100\<rparr>))
       (\<lambda>_. GetDelegateMonitorList quietEnv 70) freshWorld =
     (Ret (Inr [newMonitor 1 70 MonitorTypeUnlockAndUpdateBalanceProof (BuildDelegateKey 5 7)]), w')"
proof -
  have "fresh_keys quietEnv freshWorld"
    by (simp add: fresh_keys_def freshWorld_def emptyDb_def quietEnv_def)
  from schedule_then_lookup [OF no_faults_quietEnv this, of 70 "sampleDelegate 5 7\<lparr>d_SettleBlockNumber := 100\<rparr>"]
  show ?thesis
    by (simp add: freshWorld_def emptyDb_def quietEnv_def initParams_def sampleDelegate_getters i64_id in_int64_def)
qed

text \<open>
  At block 0 the lookup returns every execution point of every delegation: the block number is
  then the blank value of its column and no condition is generated.
\<close>
lemma monitors_of_block_zero:
  "no_faults env \<Longrightarrow> GetDelegateMonitorList env 0 w = (Ret (Inr (tMonitor (store w))), tick w)"
  by simp

lemma monitors_of_block_zero_witness:
  "GetDelegateMonitorList quietEnv 0
       (freshWorld\<lparr>store := emptyDb\<lparr>tMonitor := [newMonitor 1 70 MonitorTypePunish [1]]\<rparr>\<rparr>) =
     (Ret (Inr [newMonitor 1 70 MonitorTypePunish [1]]),
      freshWorld\<lparr>clock := 1, store := emptyDb\<lparr>tMonitor := [newMonitor 1 70 MonitorTypePunish [1]]\<rparr>\<rparr>)"
  using monitors_of_block_zero [OF no_faults_quietEnv, of
      "freshWorld\<lparr>store := emptyDb\<lparr>tMonitor := [newMonitor 1 70 MonitorTypePunish [1]]\<rparr>\<rparr>"]
  by (simp add: freshWorld_def)

end
