(* ===== verification/PM_Record.thy ===== *)
theory PM_Record
  imports PM_Delegate
begin

text \<open>
  \<open>models/delegate_execute_record.go\<close> and \<open>models/blocknumber.go\<close>: the log of the contract calls made
  for the delegations, the question whether a secret is known to be registered, and the number of
  the last processed block.
\<close>

subsection \<open>Execution records\<close>

definition NewDelegateExecuteRecord ::
    "env \<Rightarrow> delegate \<Rightarrow> delegateType \<Rightarrow> executeParams \<Rightarrow> delegateExecuteRecord action" where
  "NewDelegateExecuteRecord env d executeType ps =
     bindA (NewRandomAddress env) (\<lambda>k.
     bindA (now env) (\<lambda>t.
     returnA \<lparr>r_Key = Address_Hex (env_keccak env) k,
       r_ChannelIdentifierStr = d_ChannelIdentifierStr d, r_OpenBlockNumber = d_OpenBlockNumber d,
       r_DelegatorStr = d_DelegatorAddressStr d, r_Type = executeType,
       r_Status = ExecuteStatusNotExecute, r_Error = '''', r_ExecuteTimestamp = t, r_TxHashStr = '''',
       r_TxCreateBlockNumber = 0, r_TxCreateTimestamp = 0, r_TxPackBlockNumber = 0,
       r_TxPackTimestamp = 0, r_GobParams = ps, r_Secret = ''''\<rparr>))"

definition SaveDelegateExecuteRecord :: "env \<Rightarrow> delegateExecuteRecord \<Rightarrow> unit action" where
  "SaveDelegateExecuteRecord env r =
     bindA (db_write env (saveRecord r)) (\<lambda>err.
     case err of None \<Rightarrow> returnA () | Some e \<Rightarrow> panicA (errText e))"

text \<open>
  The three non-blank fields of the query are conditions; an error, also one of the database, is
  answered with \<open>false\<close>.
\<close>

definition HasSecretAlreadyRegister :: "env \<Rightarrow> Hash \<Rightarrow> bool action" where
  "HasSecretAlreadyRegister env secret =
     bindA (db_query env (\<lambda>db. gorm_find (filter (\<lambda>r. r_Type r = DelegateTypeRegisterSecret \<and>
         r_Status r = ExecuteStatusSuccessFinished)
         (gorm_where blankList r_Secret (Hash_String secret) (tRecord db))))) (\<lambda>r.
     case r of Inl e \<Rightarrow> returnA False | Inr _ \<Rightarrow> returnA True)"

definition r_ChannelIdentifier :: "delegateExecuteRecord \<Rightarrow> Hash" where
  "r_ChannelIdentifier r = HexToHash (r_ChannelIdentifierStr r)"

definition r_Delegator :: "delegateExecuteRecord \<Rightarrow> Address" where
  "r_Delegator r = HexToAddress (r_DelegatorStr r)"

definition r_TxHash :: "delegateExecuteRecord \<Rightarrow> Hash" where
  "r_TxHash r = HexToHash (r_TxHashStr r)"

subsection \<open>The last processed block\<close>

definition lastBlockNumberKey :: string where
  "lastBlockNumberKey = ''lastBlockNumberKey''"

text \<open>The row is read into a local variable, and the other local variable, still 0, is returned.\<close>

definition GetLatestBlockNumber :: "env \<Rightarrow> int action" where
  "GetLatestBlockNumber env =
     (let number = 0 in
      bindA (db_query env (\<lambda>db. gorm_first (gorm_where blankList lb_Key lastBlockNumberKey (tLastBlock db)))) (\<lambda>_.
      returnA number))"

text \<open>The error of \<open>Save\<close> is logged only.\<close>

definition SaveLatestBlockNumber :: "env \<Rightarrow> int \<Rightarrow> unit action" where
  "SaveLatestBlockNumber env blockNumber =
     bindA (db_write env (saveLastBlock \<lparr>lb_Key = lastBlockNumberKey, lb_BlockNumber = blockNumber\<rparr>)) (\<lambda>_.
     returnA ())"

subsection \<open>Lemmas\<close>

lemma keeps_NewDelegateExecuteRecord [keeps_rules]:
  "keeps (on_store I) (NewDelegateExecuteRecord env d t ps)"
  unfolding NewDelegateExecuteRecord_def by (intro keeps_rules)

lemma keeps_SaveDelegateExecuteRecord:
  assumes "\<And>r db. I db \<Longrightarrow> I (saveRecord r db)"
  shows "keeps (on_store I) (SaveDelegateExecuteRecord env r)"
  unfolding SaveDelegateExecuteRecord_def by (intro keeps_rules keeps_db_write assms; assumption)

lemma keeps_HasSecretAlreadyRegister [keeps_rules]: "keeps (on_store I) (HasSecretAlreadyRegister env s)"
  unfolding HasSecretAlreadyRegister_def by (intro keeps_rules)

lemma keeps_GetLatestBlockNumber [keeps_rules]: "keeps (on_store I) (GetLatestBlockNumber env)"
  unfolding GetLatestBlockNumber_def Let_def by (intro keeps_rules)

lemma keeps_SaveLatestBlockNumber:
  assumes "\<And>r db. I db \<Longrightarrow> I (saveLastBlock r db)"
  shows "keeps (on_store I) (SaveLatestBlockNumber env n)"
  unfolding SaveLatestBlockNumber_def by (intro keeps_rules keeps_db_write assms; assumption)

text \<open>The predicate that the query of \<open>HasSecretAlreadyRegister\<close> decides.\<close>

definition registers :: "Hash \<Rightarrow> delegateExecuteRecord \<Rightarrow> bool" where
  "registers secret r \<longleftrightarrow> r_Type r = DelegateTypeRegisterSecret \<and>
     r_Status r = ExecuteStatusSuccessFinished \<and> r_Secret r = Hash_String secret"

lemma HasSecretAlreadyRegister_ok [simp]:
  "no_faults env \<Longrightarrow> HasSecretAlreadyRegister env secret w =
     (Ret (\<exists>r \<in> set (tRecord (store w)). registers secret r), tick w)"
  by (auto simp: HasSecretAlreadyRegister_def gorm_find_def gorm_where_def registers_def filter_empty_conv
      split: if_splits)

lemma GetLatestBlockNumber_app [simp]: "GetLatestBlockNumber env w = (Ret 0, tick w)"
  by (simp add: GetLatestBlockNumber_def db_query_def bindA_def split: option.split)

lemma SaveLatestBlockNumber_ok [simp]:
  "no_faults env \<Longrightarrow> SaveLatestBlockNumber env n w = (Ret (), (tick w)\<lparr>store :=
     saveLastBlock \<lparr>lb_Key = lastBlockNumberKey, lb_BlockNumber = n\<rparr> (store w)\<rparr>)"
  by (simp add: SaveLatestBlockNumber_def)

lemma SaveLatestBlockNumber_returns:
  "\<exists>w'. SaveLatestBlockNumber env n w = (Ret (), w')"
  by (simp add: SaveLatestBlockNumber_def db_write_def bindA_def split: option.split)

lemma NewDelegateExecuteRecord_app:
  "\<exists>k t. NewDelegateExecuteRecord env d ty ps w =
     (Ret \<lparr>r_Key = k, r_ChannelIdentifierStr = d_ChannelIdentifierStr d, r_OpenBlockNumber = d_OpenBlockNumber d,
       r_DelegatorStr = d_DelegatorAddressStr d, r_Type = ty,
       r_Status = ExecuteStatusNotExecute, r_Error = '''', r_ExecuteTimestamp = t, r_TxHashStr = '''',
       r_TxCreateBlockNumber = 0, r_TxCreateTimestamp = 0, r_TxPackBlockNumber = 0,
       r_TxPackTimestamp = 0, r_GobParams = ps, r_Secret = ''''\<rparr>, w\<lparr>clock := clock w + 2\<rparr>)"
  by (simp add: NewDelegateExecuteRecord_def)

subsection \<open>Properties\<close>

text \<open>
  The block number that was saved is in the database, under its key, but reading it back returns 0,
  whatever was saved and whatever the database does.
\<close>
lemma saved_block_number_reads_as_zero:
  assumes "no_faults env"
  shows "\<exists>w'. bindA (SaveLatestBlockNumber env n) (\<lambda>_. GetLatestBlockNumber env) w = (Ret 0, w') \<and>
     lastBlockBy lastBlockNumberKey (store w') = Some \<lparr>lb_Key = lastBlockNumberKey, lb_BlockNumber = n\<rparr>"
  using assms by (simp add: saveLastBlock_def rowBy_gorm_save lastBlockNumberKey_def)

lemma saved_block_number_reads_as_zero_witness:
  "\<exists>w'. bindA (SaveLatestBlockNumber quietEnv 77) (\<lambda>_. GetLatestBlockNumber quietEnv) freshWorld = (Ret 0, w') \<and>
     lastBlockBy lastBlockNumberKey (store w') = Some \<lparr>lb_Key = lastBlockNumberKey, lb_BlockNumber = 77\<rparr>"
  by (rule saved_block_number_reads_as_zero [OF no_faults_quietEnv])

end
