(* ===== verification/PM_Execute.thy ===== *)
theory PM_Execute
  imports PM_Account PM_Monitor PM_Record
begin

text \<open>
  The second half of \<open>chainservice/events.go\<close>: executing a delegation.  Each \<open>doDelegate\<close> function
  locks the fee, sends the contract calls, and then uses or gives back the fee; each \<open>do\<close> function
  sends one transaction, waits for it, and saves an execution record, also when it panics.

  A \<open>*models.Delegate\<close> that a function changes in memory is returned changed.  The lemmas give the
  billing of each function through the contract \<open>charging\<close> of the accounts: the locked fee is always
  settled, and only what succeeded is charged.
\<close>

subsection \<open>The chain\<close>

definition TokenNetwork :: "env \<Rightarrow> Address \<Rightarrow> string option action" where
  "TokenNetwork env token w = (Ret (env_TokenNetwork env (clock w) token), tick w)"

definition submitTx :: "env \<Rightarrow> contractCall \<Rightarrow> (string + Hash) action" where
  "submitTx env call w =
     (case env_submit env (clock w) call of
        Inl e \<Rightarrow> (Ret (Inl e), tick w)
      | Inr h \<Rightarrow> (Ret (Inr h), (tick w)\<lparr>txs := txs w @ [call]\<rparr>))"

definition WaitMined :: "env \<Rightarrow> Hash \<Rightarrow> (string + bool) action" where
  "WaitMined env h w = (Ret (env_wait env (clock w) h), tick w)"

definition GetBlockNumber :: "int action" where
  "GetBlockNumber = getsA (\<lambda>w. case ce_blockNumber w of None \<Rightarrow> 0 | Some n \<Rightarrow> n)"

subsection \<open>One transaction\<close>

text \<open>
  The common tail of the four functions: the call, the record's transaction fields, the receipt.
  \<open>ce.blockNumber.Load().(int64)\<close> panics when no block number is stored yet; the record reached
  so far is returned beside the panic, for the deferred save.
\<close>

definition noBlockNumber :: string where
  "noBlockNumber = ''interface conversion: interface {} is nil, not int64''"

definition executeTx ::
    "env \<Rightarrow> contractCall \<Rightarrow> delegateExecuteRecord \<Rightarrow> (delegateExecuteRecord \<times> string option) action" where
  "executeTx env call r =
     bindA (submitTx env call) (\<lambda>res.
     case res of Inl e \<Rightarrow> returnA (r\<lparr>r_Error := ''create tx err : '' @ e\<rparr>, None) | Inr h \<Rightarrow>
     let r = r\<lparr>r_Status := ExecuteStatusErrorFinished, r_TxHashStr := Hash_String h\<rparr> in
     bindA (getsA ce_blockNumber) (\<lambda>b.
     case b of None \<Rightarrow> returnA (r, Some noBlockNumber) | Some n \<Rightarrow>
     bindA (now env) (\<lambda>t.
     let r = r\<lparr>r_TxCreateBlockNumber := n, r_TxCreateTimestamp := t\<rparr> in
     bindA (WaitMined env h) (\<lambda>receipt.
     case receipt of Inl e \<Rightarrow> returnA (r\<lparr>r_Error := ''tx WaitMined err : '' @ e\<rparr>, None) | Inr success \<Rightarrow>
     bindA (getsA ce_blockNumber) (\<lambda>b.
     case b of None \<Rightarrow> returnA (r, Some noBlockNumber) | Some n2 \<Rightarrow>
     bindA (now env) (\<lambda>t2.
     let r = r\<lparr>r_TxPackBlockNumber := n2, r_TxPackTimestamp := t2\<rparr> in
     returnA (if \<not> success then r\<lparr>r_Error := ''tx execution err ''\<rparr>
              else r\<lparr>r_Status := ExecuteStatusSuccessFinished\<rparr>, None)))))))"

definition onTokenNetwork ::
    "env \<Rightarrow> delegate \<Rightarrow> contractCall \<Rightarrow> delegateExecuteRecord \<Rightarrow> (delegateExecuteRecord \<times> string option) action" where
  "onTokenNetwork env d call r =
     bindA (TokenNetwork env (TokenAddress d)) (\<lambda>err.
     case err of Some e \<Rightarrow> returnA (r\<lparr>r_Error := ''TokenNetwork err : '' @ e\<rparr>, None)
     | None \<Rightarrow> executeTx env call r)"

text \<open>\<open>defer ce.db.SaveDelegateExecuteRecord(r)\<close>, then the panic, if any, goes on.\<close>

definition deferSave :: "env \<Rightarrow> (delegateExecuteRecord \<times> string option) action \<Rightarrow> delegateExecuteRecord action" where
  "deferSave env body =
     bindA body (\<lambda>(r, panicking).
     bindA (SaveDelegateExecuteRecord env r) (\<lambda>_.
     case panicking of None \<Rightarrow> returnA r | Some msg \<Rightarrow> panicA msg))"

definition doRegisterSecret :: "env \<Rightarrow> delegate \<Rightarrow> delegateSecret \<Rightarrow> delegateExecuteRecord action" where
  "doRegisterSecret env d ds =
     bindA (NewDelegateExecuteRecord env d DelegateTypeRegisterSecret (ParamsSecret ds)) (\<lambda>r.
     let r = r\<lparr>r_Secret := ds_Secret ds\<rparr> in
     deferSave env (executeTx env (RegisterSecret (GetSecret ds)) r))"

definition doUpdateBalanceProof :: "env \<Rightarrow> delegate \<Rightarrow> delegateUpdateBalanceProof \<Rightarrow> delegateExecuteRecord action" where
  "doUpdateBalanceProof env d du =
     bindA (NewDelegateExecuteRecord env d DelegateTypeUpdateBalanceProof (ParamsUpdateBalanceProof du)) (\<lambda>r.
     deferSave env (onTokenNetwork env d
       (UpdateBalanceProofDelegate (TokenAddress d) (PartnerAddress d) (DelegatorAddress d)
          (TransferAmount du) (Locksroot du) (word_of_int (du_Nonce du)) (ExtraHash du)
          (du_ClosingSignature du) (du_NonClosingSignature du)) r))"

definition doUnlock ::
    "env \<Rightarrow> delegate \<Rightarrow> delegateUnlock \<Rightarrow> int \<Rightarrow> delegateAnnounceDispose list \<Rightarrow> delegateExecuteRecord action" where
  "doUnlock env d du transferAmount das =
     bindA (NewDelegateExecuteRecord env d DelegateTypeUnlock (ParamsUnlock du)) (\<lambda>r.
     deferSave env
       (if list_ex (\<lambda>da. da_LockSecretHash da = dl_LockSecretHash du) das
        then returnA (r\<lparr>r_Status := ExecuteStatusSuccessFinished, r_Error := ''give up by AnnounceDispose''\<rparr>, None)
        else onTokenNetwork env d
          (UnlockDelegate (TokenAddress d) (PartnerAddress d) (DelegatorAddress d) transferAmount
             (dl_Expiration du) (dl_Amount du) (dl_LockSecretHash du) (dl_MerkleProof du) (dl_Signature du)) r))"

definition doPunish :: "env \<Rightarrow> delegate \<Rightarrow> delegatePunish \<Rightarrow> delegateExecuteRecord action" where
  "doPunish env d dp =
     bindA (NewDelegateExecuteRecord env d DelegateTypePunish (ParamsPunish dp)) (\<lambda>r.
     deferSave env (onTokenNetwork env d
       (PunishObsoleteUnlock (TokenAddress d) (DelegatorAddress d) (PartnerAddress d)
          (dp_LockHash dp) (dp_AdditionalHash dp) (dp_Signature dp)) r))"

subsection \<open>The delegated operations\<close>

definition succeeded :: "delegateExecuteRecord \<Rightarrow> bool" where
  "succeeded r \<longleftrightarrow> r_Status r = ExecuteStatusSuccessFinished"

text \<open>One secret of one delegation; \<open>continue\<close> is the end of it.\<close>

definition doDelegateSecret :: "env \<Rightarrow> int \<Rightarrow> delegate \<Rightarrow> delegateSecret \<Rightarrow> unit action" where
  "doDelegateSecret env lastBlockNumber d ds =
     (if ds_RegisterBlock ds > lastBlockNumber then returnA () else
      bindA (HasSecretAlreadyRegister env (GetSecret ds)) (\<lambda>known.
      if known then returnA () else
      bindA (AccountLockSmt env (DelegatorAddress d) (SmtSecret (env_params env))) (\<lambda>err.
      case err of Some _ \<Rightarrow> returnA () | None \<Rightarrow>
      bindA (doRegisterSecret env d ds) (\<lambda>r.
      if \<not> succeeded r
      then bindA (AccountUnlockSmt env (DelegatorAddress d) (SmtSecret (env_params env))) (\<lambda>_. returnA ())
      else bindA (AccountUseSmt env (DelegatorAddress d) (SmtSecret (env_params env))) (\<lambda>_. returnA ())))))"

definition doDelegateSecrets :: "env \<Rightarrow> int \<Rightarrow> unit action" where
  "doDelegateSecrets env lastBlockNumber =
     bindA (GetAllDelegate env) (foreachA (\<lambda>d.
       bindA (outcomeA (Secrets d)) (foreachA (doDelegateSecret env lastBlockNumber d))))"

text \<open>The fee cannot be locked: the delegation fails with the reason.\<close>

definition failNoSmt :: "env \<Rightarrow> delegate \<Rightarrow> error \<Rightarrow> delegate action" where
  "failNoSmt env d e =
     (let d = d\<lparr>d_Status := DelegateStatusFailed, d_Error := ''smt not enough,err='' @ errText e\<rparr> in
      bindA (UpdateObject env d) (\<lambda>_. returnA d))"

definition doDelegateUpdateBalanceProof :: "env \<Rightarrow> delegate \<Rightarrow> delegate action" where
  "doDelegateUpdateBalanceProof env d =
     bindA (outcomeA (UpdateBalanceProof d)) (\<lambda>du.
     if du_Nonce du \<le> 0 then returnA d else
     bindA (AccountLockSmt env (DelegatorAddress d) (SmtUpdateTransfer (env_params env))) (\<lambda>err.
     case err of Some e \<Rightarrow> failNoSmt env d e | None \<Rightarrow>
     bindA (doUpdateBalanceProof env d du) (\<lambda>r.
     if \<not> succeeded r
     then bindA (AccountUnlockSmt env (DelegatorAddress d) (SmtUpdateTransfer (env_params env))) (\<lambda>_.
          let d = d\<lparr>d_Status := DelegateStatusFailed, d_Error := r_Error r\<rparr> in
          bindA (UpdateObject env d) (\<lambda>_. returnA d))
     else bindA (AccountUseSmt env (DelegatorAddress d) (SmtUpdateTransfer (env_params env))) (\<lambda>_.
          returnA d))))"

text \<open>The loop over the locks; the accumulator is \<open>(hasErr, hasSuccess)\<close>.\<close>

definition unlockAll ::
    "env \<Rightarrow> delegate \<Rightarrow> int \<Rightarrow> delegateAnnounceDispose list \<Rightarrow> delegateUnlock list \<Rightarrow> (bool \<times> bool) action" where
  "unlockAll env d transferAmount das dus =
     foldA (\<lambda>du (hasErr, hasSuccess).
       bindA (doUnlock env d du transferAmount das) (\<lambda>r.
       if \<not> succeeded r
       then bindA (AccountUnlockSmt env (DelegatorAddress d) (SmtUnlock (env_params env))) (\<lambda>_. returnA (True, hasSuccess))
       else bindA (AccountUseSmt env (DelegatorAddress d) (SmtUnlock (env_params env))) (\<lambda>_. returnA (hasErr, True))))
       dus (False, False)"

definition unlockResult :: "bool \<Rightarrow> bool \<Rightarrow> delegate \<Rightarrow> delegate" where
  "unlockResult hasErr hasSuccess d =
     (if hasErr then
        (if hasSuccess then d\<lparr>d_Status := DelegateStatusPartialSuccess, d_Error := ''unlock partial success''\<rparr>
         else d\<lparr>d_Status := DelegateStatusFailed, d_Error := ''unlock all failed''\<rparr>)
      else d\<lparr>d_Status := DelegateStatusSuccessFinished\<rparr>)"

definition doDelegateUnlocks :: "env \<Rightarrow> delegate \<Rightarrow> delegate action" where
  "doDelegateUnlocks env d =
     bindA (outcomeA (UpdateBalanceProof d)) (\<lambda>dUpdateBalanceProof.
     bindA (outcomeA (Unlocks d)) (\<lambda>dus.
     if length dus = 0 then returnA d else
     bindA (GetDelegateAnnounceDisposeListByDelegateKey env (d_Key d)) (\<lambda>r.
     case r of Inl e \<Rightarrow> panicA (errText e) | Inr das \<Rightarrow>
     let costSMT = SmtUnlock (env_params env) * int (length dus) in
     bindA (AccountLockSmt env (DelegatorAddress d) costSMT) (\<lambda>err.
     case err of Some e \<Rightarrow> failNoSmt env d e | None \<Rightarrow>
     bindA (unlockAll env d (TransferAmount dUpdateBalanceProof) das dus) (\<lambda>(hasErr, hasSuccess).
     let d = unlockResult hasErr hasSuccess d in
     bindA (UpdateObject env d) (\<lambda>_. returnA d))))))"

text \<open>One evidence of the punish loop; the accumulator is \<open>hasSuccess\<close>.\<close>

definition punishOne :: "env \<Rightarrow> delegate \<Rightarrow> delegatePunish \<Rightarrow> bool \<Rightarrow> bool action" where
  "punishOne env d dp hasSuccess =
     (if hasSuccess then
        bindA (NewDelegateExecuteRecord env d DelegateTypePunish (ParamsPunish dp)) (\<lambda>r.
        let r = r\<lparr>r_Status := ExecuteStatusSuccessFinished, r_Error := ''no need because already punish success''\<rparr> in
        bindA (SaveDelegateExecuteRecord env r) (\<lambda>_. returnA True))
      else bindA (doPunish env d dp) (\<lambda>r. returnA (succeeded r)))"

definition doDelegatePunishes :: "env \<Rightarrow> delegate \<Rightarrow> delegate action" where
  "doDelegatePunishes env d =
     bindA (GetDelegatePunishListByDelegateKey env (d_Key d)) (\<lambda>r.
     case r of Inl e \<Rightarrow> panicA (errText e) | Inr dps \<Rightarrow>
     if length dps = 0 then returnA d else
     bindA (AccountLockSmt env (DelegatorAddress d) (SmtPunish (env_params env))) (\<lambda>err.
     case err of Some e \<Rightarrow> failNoSmt env d e | None \<Rightarrow>
     bindA (foldA (punishOne env d) dps False) (\<lambda>hasSuccess.
     if hasSuccess
     then bindA (AccountUseSmt env (DelegatorAddress d) (SmtPunish (env_params env))) (\<lambda>_. returnA d)
     else bindA (AccountUnlockSmt env (DelegatorAddress d) (SmtPunish (env_params env))) (\<lambda>_.
          let d = d\<lparr>d_Status := DelegateStatusFailed, d_Error := ''punish all failed''\<rparr> in
          bindA (UpdateObject env d) (\<lambda>_. returnA d)))))"

text \<open>The three goroutines that a block can start.\<close>

fun runGoroutine :: "env \<Rightarrow> goroutine \<Rightarrow> unit action" where
  "runGoroutine env (GoUnlocks d) = bindA (doDelegateUnlocks env d) (\<lambda>_. returnA ())"
| "runGoroutine env (GoUpdateBalanceProofAndUnlocks d) =
     bindA (doDelegateUpdateBalanceProof env d) (\<lambda>d.
     bindA (doDelegateUnlocks env d) (\<lambda>_. returnA ()))"
| "runGoroutine env (GoPunishes d) = bindA (doDelegatePunishes env d) (\<lambda>_. returnA ())"

subsection \<open>One transaction, when no statement fails\<close>

lemma accountOf_other_tables [simp]:
  "accountOf a (saveRecord r db) = accountOf a db" "accountOf a (saveDelegate d db) = accountOf a db"
  "accounts_ok (saveRecord r db) = accounts_ok db" "accounts_ok (saveDelegate d db) = accounts_ok db"
  by (simp_all add: accountOf_def accounts_ok_def saveRecord_def saveDelegate_def)

text \<open>
  What the chain has to do with a record: either the call was refused before it became a transaction, by the
  token network or at its submission, and the record is not a success; or it was sent, the record has its hash, and
  the record is a success exactly when the receipt came and says so.
\<close>

fun callToken :: "contractCall \<Rightarrow> Address option" where
  "callToken (UpdateBalanceProofDelegate token _ _ _ _ _ _ _ _) = Some token"
| "callToken (UnlockDelegate token _ _ _ _ _ _ _ _) = Some token"
| "callToken (PunishObsoleteUnlock token _ _ _ _ _) = Some token"
| "callToken (RegisterSecret _) = None"

definition attempt :: "env \<Rightarrow> contractCall \<Rightarrow> delegateExecuteRecord \<Rightarrow> contractCall list \<Rightarrow> bool" where
  "attempt env call r ts \<longleftrightarrow>
     (ts = [] \<and> \<not> succeeded r \<and>
        (\<exists>t e. env_submit env t call = Inl e \<or> (\<exists>token. callToken call = Some token \<and> env_TokenNetwork env t token = Some e))) \<or>
     (ts = [call] \<and> (\<exists>t t' h. env_submit env t call = Inr h \<and> r_TxHashStr r = Hash_String h \<and>
        (succeeded r \<longleftrightarrow> env_wait env t' h = Inr True)))"

lemma attempt_sent: "attempt env call r ts \<Longrightarrow> (ts = [] \<or> ts = [call]) \<and> (succeeded r \<longrightarrow> ts = [call])"
  by (auto simp: attempt_def)

lemma executeTx_run:
  assumes "ce_blockNumber w \<noteq> None" "\<not> succeeded r0"
  shows "\<exists>r n ts. executeTx env call r0 w = (Ret (r, None), w\<lparr>clock := n, txs := txs w @ ts\<rparr>) \<and> attempt env call r ts \<and>
     r_Key r = r_Key r0 \<and> r_Type r = r_Type r0 \<and> r_Secret r = r_Secret r0 \<and> r_GobParams r = r_GobParams r0"
proof -
  obtain b where b: "ce_blockNumber w = Some b" using assms(1) by auto
  show ?thesis
  proof (cases "env_submit env (clock w) call")
    case (Inl e)
    then show ?thesis
      using assms(2)
      by (intro exI [of _ "r0\<lparr>r_Error := ''create tx err : '' @ e\<rparr>"] exI [of _ "Suc (clock w)"] exI [of _ "[]"])
        (auto simp: executeTx_def submitTx_def bindA_def succeeded_def attempt_def)
  next
    case (Inr h)
    have comm: "w\<lparr>txs := t, clock := n\<rparr> = w\<lparr>clock := n, txs := t\<rparr>" for t n by simp
    have "\<exists>r n. executeTx env call r0 w = (Ret (r, None), w\<lparr>clock := n, txs := txs w @ [call]\<rparr>) \<and>
       r_TxHashStr r = Hash_String h \<and> (succeeded r \<longleftrightarrow> env_wait env (Suc (Suc (clock w))) h = Inr True) \<and>
       r_Key r = r_Key r0 \<and> r_Type r = r_Type r0 \<and> r_Secret r = r_Secret r0 \<and> r_GobParams r = r_GobParams r0"
      using b Inr
      by (cases "env_wait env (Suc (Suc (clock w))) h")
        (auto simp: executeTx_def submitTx_def bindA_def WaitMined_def Let_def comm succeeded_def)
    then obtain r n where r: "executeTx env call r0 w = (Ret (r, None), w\<lparr>clock := n, txs := txs w @ [call]\<rparr>)"
        "r_TxHashStr r = Hash_String h" "succeeded r \<longleftrightarrow> env_wait env (Suc (Suc (clock w))) h = Inr True"
        "r_Key r = r_Key r0" "r_Type r = r_Type r0" "r_Secret r = r_Secret r0" "r_GobParams r = r_GobParams r0"
      by blast
    from Inr r(2,3) have "attempt env call r [call]" by (auto simp: attempt_def)
    with r show ?thesis by blast
  qed
qed

text \<open>
  What one transaction does to the process: nothing but a record saved under a new key's row and at
  most the one call sent.
\<close>

definition oneTx :: "env \<Rightarrow> contractCall \<Rightarrow> world \<Rightarrow> delegateExecuteRecord \<Rightarrow> world \<Rightarrow> bool" where
  "oneTx env call w r w' \<longleftrightarrow>
     (\<exists>n ts. w' = w\<lparr>clock := n, store := saveRecord r (store w), txs := txs w @ ts\<rparr> \<and> attempt env call r ts)"

lemma oneTxI:
  "attempt env call r ts \<Longrightarrow>
   oneTx env call w r (w\<lparr>clock := n, store := saveRecord r (store w), txs := txs w @ ts\<rparr>)"
  by (auto simp: oneTx_def)

lemma oneTxI0: "attempt env call r [] \<Longrightarrow> oneTx env call w r (w\<lparr>clock := n, store := saveRecord r (store w)\<rparr>)"
  using oneTxI [of env call r "[]" w n] by (cases w) simp

lemma SaveDelegateExecuteRecord_ok [simp]:
  "no_faults env \<Longrightarrow> SaveDelegateExecuteRecord env r w = (Ret (), (tick w)\<lparr>store := saveRecord r (store w)\<rparr>)"
  by (simp add: SaveDelegateExecuteRecord_def)

lemma deferSave_executeTx:
  assumes "no_faults env" "ce_blockNumber w \<noteq> None" "\<not> succeeded r0"
  shows "\<exists>r w'. deferSave env (executeTx env call r0) w = (Ret r, w') \<and> oneTx env call w r w' \<and>
     r_Type r = r_Type r0 \<and> r_Secret r = r_Secret r0 \<and> r_GobParams r = r_GobParams r0"
proof -
  obtain r n ts where "executeTx env call r0 w = (Ret (r, None), w\<lparr>clock := n, txs := txs w @ ts\<rparr>)"
      "attempt env call r ts" "r_Type r = r_Type r0" "r_Secret r = r_Secret r0" "r_GobParams r = r_GobParams r0"
    using executeTx_run [OF assms(2,3)] by blast
  moreover from calculation have
    "deferSave env (executeTx env call r0) w =
      (Ret r, w\<lparr>clock := Suc n, store := saveRecord r (store w), txs := txs w @ ts\<rparr>)"
    using assms(1) by (simp add: deferSave_def)
  ultimately show ?thesis by (metis oneTxI)
qed

lemma deferSave_onTokenNetwork:
  assumes "no_faults env" "ce_blockNumber w \<noteq> None" "\<not> succeeded r0" "callToken call = Some (TokenAddress d)"
  shows "\<exists>r w'. deferSave env (onTokenNetwork env d call r0) w = (Ret r, w') \<and> oneTx env call w r w' \<and>
     r_Type r = r_Type r0 \<and> r_GobParams r = r_GobParams r0"
proof (cases "env_TokenNetwork env (clock w) (TokenAddress d)")
  case None
  then have "deferSave env (onTokenNetwork env d call r0) w = deferSave env (executeTx env call r0) (tick w)"
    by (simp add: deferSave_def onTokenNetwork_def TokenNetwork_def bindA_def)
  moreover obtain r w' where "deferSave env (executeTx env call r0) (tick w) = (Ret r, w')" "oneTx env call (tick w) r w'"
      "r_Type r = r_Type r0" "r_GobParams r = r_GobParams r0"
    using deferSave_executeTx [OF assms(1) _ assms(3), of "tick w" call] assms(2) by auto
  moreover have "oneTx env call w r w'" if "oneTx env call (tick w) r w'" for r w'
    using that by (auto simp: oneTx_def)
  ultimately show ?thesis by auto
next
  case (Some e)
  let ?r = "r0\<lparr>r_Error := ''TokenNetwork err : '' @ e\<rparr>"
  have "oneTx env call w ?r (w\<lparr>clock := Suc (Suc (clock w)), store := saveRecord ?r (store w)\<rparr>)"
    using assms(3,4) Some by (intro oneTxI0) (auto simp: succeeded_def attempt_def)
  with Some assms(1,3) show ?thesis
    by (simp add: deferSave_def onTokenNetwork_def TokenNetwork_def bindA_def)
qed

lemma oneTx_clock: "oneTx env call (w\<lparr>clock := n\<rparr>) r w' = oneTx env call w r w'"
  by (auto simp: oneTx_def)

text \<open>The four functions.\<close>

lemma doRegisterSecret_ok:
  assumes "no_faults env" "ce_blockNumber w \<noteq> None"
  shows "\<exists>r w'. doRegisterSecret env d ds w = (Ret r, w') \<and> oneTx env (RegisterSecret (GetSecret ds)) w r w' \<and>
     r_Type r = DelegateTypeRegisterSecret \<and> r_Secret r = ds_Secret ds"
proof -
  let ?w = "w\<lparr>clock := clock w + 2\<rparr>"
  obtain r0 where r0: "NewDelegateExecuteRecord env d DelegateTypeRegisterSecret (ParamsSecret ds) w = (Ret r0, ?w)"
      "r_Type r0 = DelegateTypeRegisterSecret" "\<not> succeeded r0"
    using NewDelegateExecuteRecord_app [of env d DelegateTypeRegisterSecret "ParamsSecret ds" w]
    by (auto simp: succeeded_def)
  have "\<not> succeeded (r0\<lparr>r_Secret := ds_Secret ds\<rparr>)" using r0(3) by (simp add: succeeded_def)
  from deferSave_executeTx [OF assms(1) _ this, of ?w "RegisterSecret (GetSecret ds)"] assms(2) r0 show ?thesis
    by (auto simp: doRegisterSecret_def oneTx_clock)
qed

lemma record_then_network:
  assumes "no_faults env" "ce_blockNumber w \<noteq> None" "callToken call = Some (TokenAddress d)"
  shows "\<exists>r w'. bindA (NewDelegateExecuteRecord env d ty ps) (\<lambda>r. deferSave env (onTokenNetwork env d call r)) w = (Ret r, w') \<and>
     oneTx env call w r w' \<and> r_Type r = ty \<and> r_GobParams r = ps"
proof -
  let ?w = "w\<lparr>clock := clock w + 2\<rparr>"
  obtain r0 where r0: "NewDelegateExecuteRecord env d ty ps w = (Ret r0, ?w)" "r_Type r0 = ty" "\<not> succeeded r0" "r_GobParams r0 = ps"
    using NewDelegateExecuteRecord_app [of env d ty ps w] by (auto simp: succeeded_def)
  from deferSave_onTokenNetwork [OF assms(1) _ r0(3) assms(3), of ?w] assms(2) r0 show ?thesis
    by (auto simp: oneTx_clock)
qed

definition updateCall :: "delegate \<Rightarrow> delegateUpdateBalanceProof \<Rightarrow> contractCall" where
  "updateCall d du = UpdateBalanceProofDelegate (TokenAddress d) (PartnerAddress d) (DelegatorAddress d)
     (TransferAmount du) (Locksroot du) (word_of_int (du_Nonce du)) (ExtraHash du)
     (du_ClosingSignature du) (du_NonClosingSignature du)"

definition unlockCall :: "delegate \<Rightarrow> int \<Rightarrow> delegateUnlock \<Rightarrow> contractCall" where
  "unlockCall d transferAmount du = UnlockDelegate (TokenAddress d) (PartnerAddress d) (DelegatorAddress d)
     transferAmount (dl_Expiration du) (dl_Amount du) (dl_LockSecretHash du) (dl_MerkleProof du) (dl_Signature du)"

definition punishCall :: "delegate \<Rightarrow> delegatePunish \<Rightarrow> contractCall" where
  "punishCall d dp = PunishObsoleteUnlock (TokenAddress d) (DelegatorAddress d) (PartnerAddress d)
     (dp_LockHash dp) (dp_AdditionalHash dp) (dp_Signature dp)"

lemma doUpdateBalanceProof_ok:
  assumes "no_faults env" "ce_blockNumber w \<noteq> None"
  shows "\<exists>r w'. doUpdateBalanceProof env d du w = (Ret r, w') \<and> oneTx env (updateCall d du) w r w'"
  using record_then_network [OF assms, of "updateCall d du" d DelegateTypeUpdateBalanceProof "ParamsUpdateBalanceProof du"]
  by (auto simp: doUpdateBalanceProof_def updateCall_def)

lemma doPunish_ok:
  assumes "no_faults env" "ce_blockNumber w \<noteq> None"
  shows "\<exists>r w'. doPunish env d dp w = (Ret r, w') \<and> oneTx env (punishCall d dp) w r w' \<and>
     r_Type r = DelegateTypePunish \<and> r_GobParams r = ParamsPunish dp"
  using record_then_network [OF assms, of "punishCall d dp" d DelegateTypePunish "ParamsPunish dp"]
  by (auto simp: doPunish_def punishCall_def)

lemma doUnlock_disposed:
  assumes "no_faults env" "\<exists>da \<in> set das. da_LockSecretHash da = dl_LockSecretHash du"
  shows "\<exists>r n. doUnlock env d du amt das w = (Ret r, w\<lparr>clock := n, store := saveRecord r (store w)\<rparr>) \<and> succeeded r \<and>
     r_Type r = DelegateTypeUnlock \<and> r_GobParams r = ParamsUnlock du"
  using assms by (auto simp: doUnlock_def deferSave_def list_ex_iff NewDelegateExecuteRecord_def succeeded_def)

lemma doUnlock_ok:
  assumes "no_faults env" "ce_blockNumber w \<noteq> None"
    and "\<not> (\<exists>da \<in> set das. da_LockSecretHash da = dl_LockSecretHash du)"
  shows "\<exists>r w'. doUnlock env d du amt das w = (Ret r, w') \<and> oneTx env (unlockCall d amt du) w r w' \<and>
     r_Type r = DelegateTypeUnlock \<and> r_GobParams r = ParamsUnlock du"
proof -
  have "\<not> list_ex (\<lambda>da. da_LockSecretHash da = dl_LockSecretHash du) das" using assms(3) by (simp add: list_ex_iff)
  then show ?thesis
    using record_then_network [OF assms(1,2), of "unlockCall d amt du" d DelegateTypeUnlock "ParamsUnlock du"]
    by (auto simp: doUnlock_def unlockCall_def)
qed

subsection \<open>Billing\<close>

text \<open>Everything of \<open>otherThan\<close> that sending transactions leaves alone: other accounts, delegations, goroutines.\<close>

definition spared :: "(Address \<Rightarrow> account option) \<times> modeldb \<times> int option \<times> goroutine list \<times> contractCall list \<Rightarrow>
    (Address \<Rightarrow> account option) \<times> delegate list \<times> delegateMonitor list \<times> receivedTransfer list \<times> int option \<times> goroutine list" where
  "spared x = (case x of (accs, db, b, g, t) \<Rightarrow> (accs, tDelegate db, tMonitor db, tTransfer db, b, g))"

abbreviation sparedBy :: "Address \<Rightarrow> world \<Rightarrow>
    (Address \<Rightarrow> account option) \<times> delegate list \<times> delegateMonitor list \<times> receivedTransfer list \<times> int option \<times> goroutine list" where
  "sparedBy addr w \<equiv> spared (otherThan addr w)"

lemma otherThan_clock [simp]: "otherThan addr (w\<lparr>clock := n\<rparr>) = otherThan addr w"
  by (simp add: otherThan_def cong: if_cong)

lemma oneTx_effect:
  assumes "oneTx env call w r w'" "billing_inv env w"
  shows "billing_inv env w'" "accountOf a (store w') = accountOf a (store w)" "sparedBy addr w' = sparedBy addr w"
    "tDelegate (store w') = tDelegate (store w)" "goroutines w' = goroutines w" "ce_blockNumber w' = ce_blockNumber w"
  using assms by (auto simp: oneTx_def billing_inv_def otherThan_def spared_def saveRecord_def accountOf_def accounts_ok_def)

lemma sparedBy_accounts: "sparedBy addr w' = sparedBy addr w \<Longrightarrow> b \<noteq> addr \<Longrightarrow> accountOf b (store w') = accountOf b (store w)"
  by (auto simp: otherThan_def spared_def fun_eq_iff split: if_splits)

lemma sparedBy_delegates: "sparedBy addr w' = sparedBy addr w \<Longrightarrow> tDelegate (store w') = tDelegate (store w)"
  by (simp add: otherThan_def spared_def)

lemma sparedBy_rest:
  "sparedBy addr w' = sparedBy addr w \<Longrightarrow> goroutines w' = goroutines w \<and> tMonitor (store w') = tMonitor (store w) \<and>
   tTransfer (store w') = tTransfer (store w) \<and> ce_blockNumber w' = ce_blockNumber w"
  by (simp add: otherThan_def spared_def)

lemma txs_otherThan: "otherThan addr w' = otherThan addr w \<Longrightarrow> txs w' = txs w"
  by (simp add: otherThan_def)

lemma otherThan_tables:
  assumes "otherThan addr w' = otherThan addr w"
  shows "tRecord (store w') = tRecord (store w) \<and> tDelegate (store w') = tDelegate (store w) \<and>
    tPunish (store w') = tPunish (store w) \<and> tDispose (store w') = tDispose (store w)"
proof -
  have "(store w')\<lparr>tAccount := []\<rparr> = (store w)\<lparr>tAccount := []\<rparr>" using assms by (simp add: otherThan_def)
  from arg_cong [OF this, of tRecord] arg_cong [OF this, of tDelegate] arg_cong [OF this, of tPunish]
    arg_cong [OF this, of tDispose]
  show ?thesis by simp
qed

lemma UpdateObject_billing:
  assumes "billing_inv env w"
  shows "\<exists>w'. UpdateObject env d w = (Ret (), w') \<and> billing_inv env w' \<and>
     accountOf a (store w') = accountOf a (store w) \<and> txs w' = txs w \<and> goroutines w' = goroutines w \<and>
     store w' = saveDelegate d (store w) \<and> ce_blockNumber w' = ce_blockNumber w"
  using assms by (simp add: billing_inv_def)

text \<open>Locking a fee either changes nothing or moves the fee from need to locked.\<close>

lemma lock_cases:
  assumes "billing_inv env w" "0 \<le> n"
  obtains (refused) e w' where "AccountAvailable (accountOf addr (store w)) < n \<or> a_NeedSmt (accountOf addr (store w)) < n"
      "AccountLockSmt env addr n w = (Ret (Some e), w')" "billing_inv env w'" "otherThan addr w' = otherThan addr w"
      "accountOf addr (store w') = accountOf addr (store w)"
    | (granted) w' where "n \<le> AccountAvailable (accountOf addr (store w))" "n \<le> a_NeedSmt (accountOf addr (store w))"
      "AccountLockSmt env addr n w = (Ret None, w')" "billing_inv env w'" "otherThan addr w' = otherThan addr w"
      "accountOf addr (store w') = (accountOf addr (store w))\<lparr>a_LockedSmt := a_LockedSmt (accountOf addr (store w)) + n,
         a_NeedSmt := a_NeedSmt (accountOf addr (store w)) - n\<rparr>"
proof (cases "n \<le> AccountAvailable (accountOf addr (store w)) \<and> n \<le> a_NeedSmt (accountOf addr (store w))")
  case True
  then show ?thesis using smt.lock_granted [OF assms, of addr] granted by blast
next
  case False
  then have "AccountAvailable (accountOf addr (store w)) < n \<or> a_NeedSmt (accountOf addr (store w)) < n" by auto
  with smt.lock_refused [OF assms this] show ?thesis using refused by blast
qed

text \<open>After the lock, the fee of one job is used or given back.\<close>

lemma settle_one:
  assumes "billing_inv env w" "0 \<le> n" "n \<le> a_LockedSmt (accountOf addr (store w))"
  shows "\<exists>w'. (if ok then AccountUseSmt env addr n else AccountUnlockSmt env addr n) w = (Ret None, w') \<and>
     billing_inv env w' \<and> otherThan addr w' = otherThan addr w \<and>
     accountOf addr (store w') = (accountOf addr (store w))\<lparr>a_LockedSmt := a_LockedSmt (accountOf addr (store w)) - n,
       a_UsedSmt := a_UsedSmt (accountOf addr (store w)) + (if ok then n else 0)\<rparr>"
  using smt.spend_locked [OF assms] smt.unlock_locked [OF assms] by (cases ok) auto

text \<open>A transaction paid from a granted lock: it is charged exactly when it succeeded.\<close>

lemma pay_for_tx:
  assumes "AccountLockSmt env addr fee w = (Ret None, w1)" "billing_inv env w1" "otherThan addr w1 = otherThan addr w"
      "accountOf addr (store w1) = (accountOf addr (store w))\<lparr>a_LockedSmt := a_LockedSmt (accountOf addr (store w)) + fee,
         a_NeedSmt := a_NeedSmt (accountOf addr (store w)) - fee\<rparr>"
    and fee: "0 \<le> fee"
    and job: "\<And>v. no_faults env \<Longrightarrow> ce_blockNumber v \<noteq> None \<Longrightarrow> \<exists>r v'. job v = (Ret r, v') \<and> oneTx env call v r v'"
  shows "\<exists>r w2 w3. job w1 = (Ret r, w2) \<and> oneTx env call w1 r w2 \<and>
     (if succeeded r then AccountUseSmt env addr fee else AccountUnlockSmt env addr fee) w2 = (Ret None, w3) \<and>
     billing_inv env w3 \<and> sparedBy addr w3 = sparedBy addr w \<and> tRecord (store w3) = tRecord (saveRecord r (store w)) \<and>
     accountOf addr (store w3) = (accountOf addr (store w))\<lparr>a_NeedSmt := a_NeedSmt (accountOf addr (store w)) - fee,
       a_UsedSmt := a_UsedSmt (accountOf addr (store w)) + (if succeeded r then fee else 0)\<rparr> \<and>
     (succeeded r \<longrightarrow> txs w3 = txs w @ [call])"
proof -
  obtain r w2 where tx: "job w1 = (Ret r, w2)" "oneTx env call w1 r w2"
    using job assms(2) by (metis billing_inv_def)
  note eff = oneTx_effect [OF tx(2) assms(2)]
  have "fee \<le> a_LockedSmt (accountOf addr (store w2))" using assms(4) eff(2) [of addr] by simp
  then obtain w3 where w3: "(if succeeded r then AccountUseSmt env addr fee else AccountUnlockSmt env addr fee) w2 = (Ret None, w3)"
      "billing_inv env w3" "otherThan addr w3 = otherThan addr w2"
      "accountOf addr (store w3) = (accountOf addr (store w2))\<lparr>a_LockedSmt := a_LockedSmt (accountOf addr (store w2)) - fee,
         a_UsedSmt := a_UsedSmt (accountOf addr (store w2)) + (if succeeded r then fee else 0)\<rparr>"
    using settle_one [OF eff(1) fee, of addr "succeeded r"] by blast
  have "sparedBy addr w3 = sparedBy addr w" using w3(3) eff(3) [of addr] assms(3) by simp
  moreover have "accountOf addr (store w3) = (accountOf addr (store w))\<lparr>a_NeedSmt := a_NeedSmt (accountOf addr (store w)) - fee,
       a_UsedSmt := a_UsedSmt (accountOf addr (store w)) + (if succeeded r then fee else 0)\<rparr>"
    using w3(4) eff(2) [of addr] assms(4) by simp
  moreover have "txs w3 = txs w @ [call]" if "succeeded r"
    using tx(2) that txs_otherThan [OF w3(3)] txs_otherThan [OF assms(3)] by (auto simp: oneTx_def dest: attempt_sent)
  moreover have "tRecord (store w3) = tRecord (saveRecord r (store w))"
    using otherThan_tables [OF w3(3)] otherThan_tables [OF assms(3)] tx(2) by (auto simp: oneTx_def saveRecord_def)
  ultimately show ?thesis using tx w3(1,2) by blast
qed

lemma failNoSmt_ok:
  assumes "billing_inv env w"
  shows "\<exists>d' w'. failNoSmt env d e w = (Ret d', w') \<and> billing_inv env w' \<and>
     (\<forall>a. accountOf a (store w') = accountOf a (store w)) \<and> txs w' = txs w \<and>
     d_Status d' = DelegateStatusFailed \<and> d_Key d' = d_Key d \<and> d_DelegatorAddressStr d' = d_DelegatorAddressStr d \<and>
     store w' = saveDelegate d' (store w)"
  using assms by (simp add: failNoSmt_def Let_def billing_inv_def)

lemma update_proof_refused:
  fixes env d w
  defines "addr \<equiv> DelegatorAddress d" and "fee \<equiv> SmtUpdateTransfer (env_params env)"
  defines "a \<equiv> accountOf addr (store w)"
  assumes "billing_inv env w" "delegate_ok d" "0 \<le> fee" "UpdateBalanceProof d = Ret du" "0 < du_Nonce du"
    and "AccountAvailable a < fee \<or> a_NeedSmt a < fee"
  shows "\<exists>d' w'. doDelegateUpdateBalanceProof env d w = (Ret d', w') \<and>
     (\<forall>b. b \<noteq> addr \<longrightarrow> accountOf b (store w') = accountOf b (store w)) \<and>
     accountOf addr (store w') = a \<and> txs w' = txs w \<and> d_Status d' = DelegateStatusFailed \<and> delegateBy (d_Key d) (store w') = Some d'"
  using assms(4,6)
proof (cases rule: lock_cases [where addr = addr])
  case (refused e w1)
  obtain d' w2 where f: "failNoSmt env d e w1 = (Ret d', w2)"
      "\<forall>a. accountOf a (store w2) = accountOf a (store w1)" "txs w2 = txs w1" "d_Status d' = DelegateStatusFailed"
      "d_Key d' = d_Key d" "store w2 = saveDelegate d' (store w1)"
    using failNoSmt_ok [OF refused(3), of d e] by blast
  have "doDelegateUpdateBalanceProof env d w = (Ret d', w2)"
    using refused(2) f(1) assms(7,8) by (simp add: doDelegateUpdateBalanceProof_def addr_def fee_def)
  moreover have "delegateBy (d_Key d) (store w2) = Some d'"
    using f(5,6) delegate_ok_key [OF assms(5)] by (simp add: saveDelegate_def rowBy_gorm_save)
  moreover have "accountOf b (store w1) = accountOf b (store w)" if "b \<noteq> addr" for b
    using sparedBy_accounts [of addr w1 w b] refused(4) that by simp
  moreover have "txs w1 = txs w" using txs_otherThan [OF refused(4)] .
  ultimately show ?thesis
    using refused(5) f(2-4) by (intro exI [of _ d'] exI [of _ w2]) (auto simp: a_def)
qed (use assms(9) in \<open>simp add: a_def\<close>)

lemma update_proof_paid:
  fixes env d w
  defines "addr \<equiv> DelegatorAddress d" and "fee \<equiv> SmtUpdateTransfer (env_params env)"
  defines "a \<equiv> accountOf addr (store w)"
  assumes "billing_inv env w" "delegate_ok d" "0 \<le> fee" "UpdateBalanceProof d = Ret du" "0 < du_Nonce du"
    and "fee \<le> AccountAvailable a" "fee \<le> a_NeedSmt a"
  shows "\<exists>r d' w'. doDelegateUpdateBalanceProof env d w = (Ret d', w') \<and>
     (\<exists>v v'. doUpdateBalanceProof env d du v = (Ret r, v') \<and> ce_blockNumber v = ce_blockNumber w) \<and>
     (\<forall>b. b \<noteq> addr \<longrightarrow> accountOf b (store w') = accountOf b (store w)) \<and> tRecord (store w') = tRecord (saveRecord r (store w)) \<and>
     accountOf addr (store w') = a\<lparr>a_NeedSmt := a_NeedSmt a - fee, a_UsedSmt := a_UsedSmt a + (if succeeded r then fee else 0)\<rparr> \<and>
     (if succeeded r then txs w' = txs w @ [updateCall d du] \<and> d' = d
      else d' = d\<lparr>d_Status := DelegateStatusFailed, d_Error := r_Error r\<rparr> \<and> delegateBy (d_Key d) (store w') = Some d')"
  using assms(4,6)
proof (cases rule: lock_cases [where addr = addr])
  case (granted w1)
  obtain r w2 w3 where tx: "doUpdateBalanceProof env d du w1 = (Ret r, w2)"
      "(if succeeded r then AccountUseSmt env addr fee else AccountUnlockSmt env addr fee) w2 = (Ret None, w3)"
      "billing_inv env w3" "sparedBy addr w3 = sparedBy addr w"
      "accountOf addr (store w3) = a\<lparr>a_NeedSmt := a_NeedSmt a - fee,
         a_UsedSmt := a_UsedSmt a + (if succeeded r then fee else 0)\<rparr>"
      "succeeded r \<longrightarrow> txs w3 = txs w @ [updateCall d du]"
      "tRecord (store w3) = tRecord (saveRecord r (store w))"
    using pay_for_tx [OF granted(3-6) assms(6), of "doUpdateBalanceProof env d du" "updateCall d du"]
      doUpdateBalanceProof_ok billing_inv_def a_def by blast
  note oth = sparedBy_accounts [OF tx(4)]
  have "ce_blockNumber w1 = ce_blockNumber w" using granted(5) by (simp add: otherThan_def)
  with tx(1) have job: "\<exists>v v'. doUpdateBalanceProof env d du v = (Ret r, v') \<and> ce_blockNumber v = ce_blockNumber w" by blast
  show ?thesis
  proof (cases "succeeded r")
    case True
    have "doDelegateUpdateBalanceProof env d w = (Ret d, w3)"
      using granted(3) tx(1,2) True assms(7,8) by (simp add: doDelegateUpdateBalanceProof_def addr_def fee_def)
    then show ?thesis using tx(5-7) True oth job by (intro exI [of _ r] exI [of _ d] exI [of _ w3]) simp
  next
    case False
    let ?d = "d\<lparr>d_Status := DelegateStatusFailed, d_Error := r_Error r\<rparr>"
    obtain w4 where w4: "UpdateObject env ?d w3 = (Ret (), w4)" "store w4 = saveDelegate ?d (store w3)"
      using UpdateObject_billing [OF tx(3), of ?d] by blast
    have "doDelegateUpdateBalanceProof env d w = (Ret ?d, w4)"
      using granted(3) tx(1,2) False assms(7,8) w4(1) by (simp add: doDelegateUpdateBalanceProof_def addr_def fee_def Let_def)
    moreover have "delegateBy (d_Key d) (store w4) = Some ?d"
      using w4(2) delegate_ok_key [OF assms(5)] by (simp add: saveDelegate_def rowBy_gorm_save)
    ultimately show ?thesis
      using tx(5,7) False oth w4(2) job
      by (intro exI [of _ r] exI [of _ ?d] exI [of _ w4]) (auto simp: saveDelegate_def accountOf_def)
  qed
qed (use assms(9,10) in \<open>simp add: a_def\<close>)

subsection \<open>Properties\<close>

text \<open>
  C13. Submitting a balance proof, when no statement fails: with no proof (nonce 0) nothing happens.  If the fee
  cannot be locked, no transaction is sent, the account is untouched and the delegation is stored as
  failed.  Otherwise one execution record is saved and the fee leaves the account's need; it is charged exactly when
  that record says the transaction succeeded, and a failed one is stored as a failed delegation with the record's error.  In every case the locked amount is
  what it was and no other account changes.
\<close>
theorem update_proof_billing:
  fixes env d w
  defines "addr \<equiv> DelegatorAddress d" and "fee \<equiv> SmtUpdateTransfer (env_params env)"
  defines "a \<equiv> accountOf addr (store w)"
  assumes "billing_inv env w" "delegate_ok d" "0 \<le> fee" "UpdateBalanceProof d = Ret du"
  shows "\<exists>d' w'. doDelegateUpdateBalanceProof env d w = (Ret d', w') \<and>
     (\<forall>b. b \<noteq> addr \<longrightarrow> accountOf b (store w') = accountOf b (store w)) \<and>
     (if du_Nonce du \<le> 0 then d' = d \<and> w' = w
      else if AccountAvailable a < fee \<or> a_NeedSmt a < fee
      then accountOf addr (store w') = a \<and> txs w' = txs w \<and> d_Status d' = DelegateStatusFailed \<and>
        delegateBy (d_Key d) (store w') = Some d'
      else \<exists>r. tRecord (store w') = tRecord (saveRecord r (store w)) \<and>
        accountOf addr (store w') = a\<lparr>a_NeedSmt := a_NeedSmt a - fee,
             a_UsedSmt := a_UsedSmt a + (if succeeded r then fee else 0)\<rparr> \<and>
        (if succeeded r then txs w' = txs w @ [updateCall d du] \<and> d' = d
         else d' = d\<lparr>d_Status := DelegateStatusFailed, d_Error := r_Error r\<rparr> \<and> delegateBy (d_Key d) (store w') = Some d'))"
proof (cases "du_Nonce du \<le> 0")
  case True
  with assms(7) show ?thesis by (simp add: doDelegateUpdateBalanceProof_def)
next
  case False
  then have pos: "0 < du_Nonce du" by simp
  show ?thesis
  proof (cases "AccountAvailable a < fee \<or> a_NeedSmt a < fee")
    case True
    with False update_proof_refused [OF assms(4-6)[unfolded fee_def] assms(7) pos] show ?thesis
      unfolding a_def addr_def fee_def by auto
  next
    case granted: False
    then have "fee \<le> AccountAvailable a" "fee \<le> a_NeedSmt a" by auto
    with update_proof_paid [OF assms(4-6)[unfolded fee_def] assms(7) pos] False granted show ?thesis
      unfolding a_def addr_def fee_def by (simp only: if_False) blast
  qed
qed

text \<open>
  The jobs of the unlock loop.  A given-up lock counts as done without a transaction; for any other one the call
  is attempted.  Each job saves one record of its lock.
\<close>

definition unlockJob :: "env \<Rightarrow> (delegateUnlock \<Rightarrow> bool) \<Rightarrow> (delegateUnlock \<Rightarrow> contractCall) \<Rightarrow>
    delegateUnlock \<Rightarrow> delegateExecuteRecord \<Rightarrow> contractCall list \<Rightarrow> bool" where
  "unlockJob env givenUp call du r ts \<longleftrightarrow> r_Type r = DelegateTypeUnlock \<and> r_GobParams r = ParamsUnlock du \<and>
     (if givenUp du then succeeded r \<and> ts = [] else attempt env (call du) r ts)"

definition sentOf :: "(Address \<Rightarrow> account option) \<times> modeldb \<times> int option \<times> goroutine list \<times> contractCall list \<Rightarrow> contractCall list" where
  "sentOf x = snd (snd (snd (snd x)))"

definition recordsOf :: "(Address \<Rightarrow> account option) \<times> modeldb \<times> int option \<times> goroutine list \<times> contractCall list \<Rightarrow> delegateExecuteRecord list" where
  "recordsOf x = tRecord (fst (snd x))"

lemma otherThan_parts [simp]:
  "sentOf (otherThan addr w) = txs w" "recordsOf (otherThan addr w) = tRecord (store w)"
  by (simp_all add: sentOf_def recordsOf_def otherThan_def)

abbreviation "recordedJob Q x r s t \<equiv>
  spared t = spared s \<and> recordsOf t = gorm_save blankList r_Key r (recordsOf s) \<and> (\<exists>ts. sentOf t = sentOf s @ ts \<and> Q x r ts)"

lemma doUnlock_job:
  fixes das :: "delegateAnnounceDispose list"
  assumes "billing_inv env w"
  defines "givenUp \<equiv> (\<lambda>du. \<exists>da \<in> set das. da_LockSecretHash da = dl_LockSecretHash du)"
  shows "\<exists>r w'. doUnlock env d du amt das w = (Ret r, w') \<and> billing_inv env w' \<and>
     recordedJob (unlockJob env givenUp (unlockCall d amt)) du r (otherThan addr w) (otherThan addr w') \<and>
     accountOf addr (store w') = accountOf addr (store w)"
proof (cases "givenUp du")
  case True
  have env: "no_faults env" using assms(1) by (simp add: billing_inv_def)
  obtain r n where "doUnlock env d du amt das w = (Ret r, w\<lparr>clock := n, store := saveRecord r (store w)\<rparr>)"
      "succeeded r" "r_Type r = DelegateTypeUnlock" "r_GobParams r = ParamsUnlock du"
    using doUnlock_disposed [OF env True[unfolded givenUp_def]] by blast
  with assms(1) True show ?thesis
    by (auto simp: billing_inv_def otherThan_def spared_def unlockJob_def sentOf_def recordsOf_def) (simp_all add: saveRecord_def)
next
  case False
  then obtain r w' where r: "doUnlock env d du amt das w = (Ret r, w')" "oneTx env (unlockCall d amt du) w r w'"
      "r_Type r = DelegateTypeUnlock" "r_GobParams r = ParamsUnlock du"
    using doUnlock_ok [of env w das du d amt] assms unfolding billing_inv_def by blast
  note eff = oneTx_effect [OF r(2) assms(1)]
  obtain ts where "txs w' = txs w @ ts" "attempt env (unlockCall d amt du) r ts" "tRecord (store w') = tRecord (saveRecord r (store w))"
    using r(2) by (auto simp: oneTx_def)
  with r False eff(1) eff(2,3) [of addr] show ?thesis
    by (auto simp: unlockJob_def saveRecord_def)
qed

lemma fold_saveRecord: "tRecord (fold saveRecord rs db) = fold (gorm_save blankList r_Key) rs (tRecord db)"
  by (induction rs arbitrary: db) (simp_all add: saveRecord_def)

lemma fold_saveRecord_cong: "tRecord db' = tRecord db \<Longrightarrow> tRecord (fold saveRecord rs db') = tRecord (fold saveRecord rs db)"
  by (simp add: fold_saveRecord)

lemma recorded_run:
  assumes "runs (recordedJob Q) xs rs (otherThan addr w) (otherThan addr w')"
  shows "tRecord (store w') = tRecord (fold saveRecord rs (store w))" "length rs = length xs" "sparedBy addr w' = sparedBy addr w"
    "\<exists>tss. length tss = length xs \<and> txs w' = txs w @ concat tss \<and> (\<forall>i < length xs. Q (xs ! i) (rs ! i) (tss ! i))"
proof -
  have "recordsOf y = fold (gorm_save blankList r_Key) rs (recordsOf x)" if "runs (recordedJob Q) xs rs x y" for xs rs x y
    using that by (induction "recordedJob Q" xs rs x y rule: runs.induct) auto
  from this [OF assms] show "tRecord (store w') = tRecord (fold saveRecord rs (store w))" by (simp add: fold_saveRecord)
  show "length rs = length xs" using runs_length [OF assms] .
  show "sparedBy addr w' = sparedBy addr w" using runs_keep [OF assms, of spared] by blast
  show "\<exists>tss. length tss = length xs \<and> txs w' = txs w @ concat tss \<and> (\<forall>i < length xs. Q (xs ! i) (rs ! i) (tss ! i))"
    using runs_outputs [OF assms, of sentOf Q] by auto
qed

text \<open>
  C14. Unlocking the locks of a delegation, when no statement fails and the fee for all of them can be locked.  There is one
  execution record for each lock, saved in their order.  A lock given up by an announced disposal of this delegation is done, without
  a transaction; for any other the unlock call is sent, unless the token network or the submission refuses it, and the record is a
  success exactly when the receipt of that very transaction came and says so.  Afterwards no more is locked than before, the account is
  charged the fee of exactly the records that succeeded, no other account changes, and the stored status says whether all, some or
  none of them did.
\<close>
theorem unlocks_billing:
  fixes env d w
  defines "addr \<equiv> DelegatorAddress d" and "fee \<equiv> SmtUnlock (env_params env)"
  defines "a \<equiv> accountOf addr (store w)"
  defines "givenUp \<equiv> (\<lambda>du. \<exists>da \<in> set (tDispose (store w)). da_DelegateKey da = d_Key d \<and> da_LockSecretHash da = dl_LockSecretHash du)"
  assumes "billing_inv env w" "delegate_ok d" "0 \<le> fee" "UpdateBalanceProof d = Ret proof" "Unlocks d = Ret dus" "dus \<noteq> []"
    and "fee * int (length dus) \<le> AccountAvailable a" "fee * int (length dus) \<le> a_NeedSmt a"
  shows "\<exists>rs tss d' w'. doDelegateUnlocks env d w = (Ret d', w') \<and> length rs = length dus \<and> length tss = length dus \<and>
     tRecord (store w') = tRecord (fold saveRecord rs (store w)) \<and> txs w' = txs w @ concat tss \<and>
     (\<forall>i < length dus. r_Type (rs ! i) = DelegateTypeUnlock \<and> r_GobParams (rs ! i) = ParamsUnlock (dus ! i) \<and>
        (if givenUp (dus ! i) then succeeded (rs ! i) \<and> tss ! i = []
         else attempt env (unlockCall d (TransferAmount proof) (dus ! i)) (rs ! i) (tss ! i))) \<and>
     accountOf addr (store w') = a\<lparr>a_NeedSmt := a_NeedSmt a - fee * int (length dus),
        a_UsedSmt := a_UsedSmt a + fee * int (length (filter succeeded rs))\<rparr> \<and>
     (\<forall>b. b \<noteq> addr \<longrightarrow> accountOf b (store w') = accountOf b (store w)) \<and>
     delegateBy (d_Key d) (store w') = Some d' \<and>
     d_Status d' = (if (\<forall>r \<in> set rs. succeeded r) then DelegateStatusSuccessFinished
       else if (\<exists>r \<in> set rs. succeeded r) then DelegateStatusPartialSuccess else DelegateStatusFailed)"
proof -
  have env: "no_faults env" using assms(5) by (simp add: billing_inv_def)
  let ?das = "filter (\<lambda>r. da_DelegateKey r = d_Key d) (tDispose (store w))"
  have key: "d_Key d \<noteq> []" using assms(6) by simp
  have das: "GetDelegateAnnounceDisposeListByDelegateKey env (d_Key d) w = (Ret (Inr ?das), tick w)"
    using env key by (simp add: GetDelegateAnnounceDisposeListByDelegateKey_def gorm_where_def)
  have up: "(\<lambda>du. \<exists>da \<in> set ?das. da_LockSecretHash da = dl_LockSecretHash du) = givenUp" by (auto simp: givenUp_def)
  let ?J = "recordedJob (unlockJob env givenUp (unlockCall d (TransferAmount proof)))"
  have tick: "billing_inv env (tick w)" using assms(5) by (simp add: billing_inv_def)
  have cost: "0 \<le> fee * int (length dus)" using assms(7) by simp
  obtain w1 where w1: "AccountLockSmt env addr (fee * int (length dus)) (tick w) = (Ret None, w1)" "billing_inv env w1"
      "otherThan addr w1 = otherThan addr (tick w)"
      "accountOf addr (store w1) = a\<lparr>a_LockedSmt := a_LockedSmt a + fee * int (length dus),
         a_NeedSmt := a_NeedSmt a - fee * int (length dus)\<rparr>"
    using smt.lock_granted [OF tick cost, of addr] assms(11,12) by (auto simp: a_def)
  have enough: "fee * int (length dus) \<le> a_LockedSmt (accountOf addr (store w1))"
    using w1(4) accountOf_solvent [of "store w" addr] assms(5) by (simp add: a_def billing_inv_def nonneg_def)
  obtain rs w2 where w2: "billing_inv env w2" "runs ?J dus rs (otherThan addr w1) (otherThan addr w2)"
      "unlockAll env d (TransferAmount proof) ?das dus w1 = (Ret (\<exists>r \<in> set rs. \<not> succeeded r, \<exists>r \<in> set rs. succeeded r), w2)"
      "accountOf addr (store w2) = (accountOf addr (store w1))\<lparr>a_LockedSmt := a_LockedSmt (accountOf addr (store w1)) - fee * int (length dus),
        a_UsedSmt := a_UsedSmt (accountOf addr (store w1)) + fee * int (length (filter succeeded rs))\<rparr>"
    using smt.settle_jobs [where J = ?J and good = succeeded and he = False and hs = False
        and job = "\<lambda>x. doUnlock env d x (TransferAmount proof) ?das", OF _ assms(7) w1(2) enough]
      doUnlock_job [where addr = addr and das = ?das, unfolded up]
    unfolding unlockAll_def addr_def fee_def by fastforce
  have same: "otherThan addr w1 = otherThan addr w" using w1(3) by simp
  note run = recorded_run [OF w2(2)[unfolded same]]
  obtain tss where tss: "length tss = length dus" "txs w2 = txs w @ concat tss"
      "\<forall>i < length dus. unlockJob env givenUp (unlockCall d (TransferAmount proof)) (dus ! i) (rs ! i) (tss ! i)"
    using run(4) by blast
  let ?d = "unlockResult (\<exists>r \<in> set rs. \<not> succeeded r) (\<exists>r \<in> set rs. succeeded r) d"
  obtain w3 where w3: "UpdateObject env ?d w2 = (Ret (), w3)" "store w3 = saveDelegate ?d (store w2)" "txs w3 = txs w2"
    using UpdateObject_billing [OF w2(1), of ?d] by blast
  have "doDelegateUnlocks env d w = (Ret ?d, w3)"
    using das w1(1) w2(3) w3(1) assms(8-10)
    by (simp add: doDelegateUnlocks_def addr_def fee_def Let_def)
  moreover have "d_Key ?d = d_Key d" by (simp add: unlockResult_def)
  moreover have "rs \<noteq> []" using run(2) assms(10) by auto
  ultimately show ?thesis
    using w1(4) w2(4) w3(2,3) key sparedBy_accounts [OF run(3)] run(1,2) tss
    by (intro exI [of _ rs] exI [of _ tss] exI [of _ ?d] exI [of _ w3])
      (auto simp: unlockResult_def saveDelegate_def rowBy_gorm_save accountOf_def a_def unlockJob_def)
qed

text \<open>
  What the punish loop does with one piece of evidence: an attempt of its call as long as none has succeeded, else only a record.
\<close>

definition punishJob :: "env \<Rightarrow> delegate \<Rightarrow> bool \<Rightarrow> delegatePunish \<Rightarrow> delegateExecuteRecord \<Rightarrow> contractCall list \<Rightarrow> bool" where
  "punishJob env d over dp r ts \<longleftrightarrow> r_Type r = DelegateTypePunish \<and> r_GobParams r = ParamsPunish dp \<and>
     (if over then succeeded r \<and> r_TxHashStr r = '''' \<and> ts = [] else attempt env (punishCall d dp) r ts)"

lemma punishOne_run:
  assumes "billing_inv env w"
  shows "\<exists>r w'. punishOne env d dp over w = (Ret (succeeded r), w') \<and> billing_inv env w' \<and>
     recordedJob (punishJob env d over) dp r (otherThan addr w) (otherThan addr w') \<and>
     accountOf addr (store w') = accountOf addr (store w)"
proof (cases over)
  case True
  have env: "no_faults env" using assms by (simp add: billing_inv_def)
  obtain k t where r0: "NewDelegateExecuteRecord env d DelegateTypePunish (ParamsPunish dp) w =
     (Ret \<lparr>r_Key = k, r_ChannelIdentifierStr = d_ChannelIdentifierStr d, r_OpenBlockNumber = d_OpenBlockNumber d,
       r_DelegatorStr = d_DelegatorAddressStr d, r_Type = DelegateTypePunish,
       r_Status = ExecuteStatusNotExecute, r_Error = '''', r_ExecuteTimestamp = t, r_TxHashStr = '''',
       r_TxCreateBlockNumber = 0, r_TxCreateTimestamp = 0, r_TxPackBlockNumber = 0,
       r_TxPackTimestamp = 0, r_GobParams = ParamsPunish dp, r_Secret = ''''\<rparr>, w\<lparr>clock := clock w + 2\<rparr>)"
    (is "_ = (Ret ?r0, _)") using NewDelegateExecuteRecord_app by blast
  let ?r = "?r0\<lparr>r_Status := ExecuteStatusSuccessFinished, r_Error := ''no need because already punish success''\<rparr>"
  have "punishOne env d dp True w = (Ret (succeeded ?r), w\<lparr>clock := clock w + 3, store := saveRecord ?r (store w)\<rparr>)"
    using env r0 by (simp add: punishOne_def Let_def succeeded_def)
  moreover have "punishJob env d True dp ?r []" by (simp add: punishJob_def succeeded_def)
  moreover have "recordedJob (punishJob env d True) dp r (otherThan addr w)
      (otherThan addr (w\<lparr>clock := n, store := saveRecord r (store w)\<rparr>))" if "punishJob env d True dp r []" for r n
    using that by (auto simp: otherThan_def spared_def sentOf_def recordsOf_def) (simp_all add: saveRecord_def)
  moreover have "billing_inv env (w\<lparr>clock := n, store := saveRecord r (store w)\<rparr>)" for r n
    using assms by (simp add: billing_inv_def)
  ultimately show ?thesis using True
    by (intro exI [of _ ?r] exI [of _ "w\<lparr>clock := clock w + 3, store := saveRecord ?r (store w)\<rparr>"]) simp
next
  case False
  obtain r w' where tx: "doPunish env d dp w = (Ret r, w')" "oneTx env (punishCall d dp) w r w'"
      "r_Type r = DelegateTypePunish" "r_GobParams r = ParamsPunish dp"
    using doPunish_ok [of env w d dp] assms unfolding billing_inv_def by blast
  note eff = oneTx_effect [OF tx(2) assms]
  obtain ts where "txs w' = txs w @ ts" "attempt env (punishCall d dp) r ts" "tRecord (store w') = tRecord (saveRecord r (store w))"
    using tx(2) by (auto simp: oneTx_def)
  then show ?thesis
    using False eff(1) eff(2,3) [of addr] tx
    by (intro exI [of _ r] exI [of _ w']) (auto simp: punishOne_def punishJob_def saveRecord_def)
qed

text \<open>The punish loop: after the first success no further evidence is sent.\<close>

lemma punish_loop:
  assumes "billing_inv env w"
  shows "\<exists>rs tss w'. foldA (punishOne env d) dps over w = (Ret (over \<or> (\<exists>r \<in> set rs. succeeded r)), w') \<and> billing_inv env w' \<and>
     length rs = length dps \<and> length tss = length dps \<and> txs w' = txs w @ concat tss \<and>
     tRecord (store w') = tRecord (fold saveRecord rs (store w)) \<and>
     sparedBy addr w' = sparedBy addr w \<and> accountOf addr (store w') = accountOf addr (store w) \<and>
     (\<forall>i < length dps. punishJob env d (over \<or> (\<exists>j < i. succeeded (rs ! j))) (dps ! i) (rs ! i) (tss ! i))"
  using assms
proof (induction dps arbitrary: w over)
  case Nil
  then show ?case by (intro exI [of _ "[]"] exI [of _ w]) simp
next
  case (Cons dp dps)
  obtain r w1 ts where 1: "punishOne env d dp over w = (Ret (succeeded r), w1)" "billing_inv env w1"
      "accountOf addr (store w1) = accountOf addr (store w)" "sparedBy addr w1 = sparedBy addr w"
      "tRecord (store w1) = gorm_save blankList r_Key r (tRecord (store w))"
    and ts: "txs w1 = txs w @ ts" "punishJob env d over dp r ts"
    using punishOne_run [OF Cons.prems, of d dp over addr] unfolding otherThan_parts by (elim exE conjE) (rule that)
  have over: "over \<Longrightarrow> succeeded r" using ts(2) by (simp add: punishJob_def)
  obtain rs tss w' where IH: "foldA (punishOne env d) dps (succeeded r) w1 = (Ret (succeeded r \<or> (\<exists>r \<in> set rs. succeeded r)), w')"
      "billing_inv env w'" "length rs = length dps" "length tss = length dps" "txs w' = txs w1 @ concat tss"
      "tRecord (store w') = tRecord (fold saveRecord rs (store w1))"
      "sparedBy addr w' = sparedBy addr w1" "accountOf addr (store w') = accountOf addr (store w1)"
      "\<forall>i < length dps. punishJob env d (succeeded r \<or> (\<exists>j < i. succeeded (rs ! j))) (dps ! i) (rs ! i) (tss ! i)"
    using Cons.IH [OF 1(2), of "succeeded r"] by blast
  have "foldA (punishOne env d) (dp # dps) over w = (Ret (over \<or> (\<exists>r \<in> set (r # rs). succeeded r)), w')"
    using 1(1) IH(1) over by simp blast
  moreover have "tRecord (store w') = tRecord (fold saveRecord (r # rs) (store w))"
    using IH(6) fold_saveRecord_cong [of "store w1" "saveRecord r (store w)" rs] 1(5) by (simp add: saveRecord_def)
  moreover have "txs w' = txs w @ concat (ts # tss)" using ts(1) IH(5) by simp
  moreover have "sparedBy addr w' = sparedBy addr w" using 1(4) IH(7) by simp
  moreover have "accountOf addr (store w') = accountOf addr (store w)" using 1(3) IH(8) by simp
  moreover have "punishJob env d (over \<or> (\<exists>j < i. succeeded ((r # rs) ! j))) ((dp # dps) ! i) ((r # rs) ! i) ((ts # tss) ! i)"
    if "i < length (dp # dps)" for i
  proof (cases i)
    case 0
    with ts(2) show ?thesis by simp
  next
    case (Suc k)
    moreover have "(over \<or> (\<exists>j < Suc k. succeeded ((r # rs) ! j))) = (succeeded r \<or> (\<exists>j < k. succeeded (rs ! j)))"
      using over by (auto simp: Ex_less_Suc2)
    ultimately show ?thesis using that IH(9) by simp
  qed
  moreover have "length (r # rs) = length (dp # dps)" "length (ts # tss) = length (dp # dps)" using IH(3,4) by simp_all
  ultimately show ?case using IH(2) by blast
qed

lemma punish_settled:
  fixes env d w
  defines "addr \<equiv> DelegatorAddress d" and "fee \<equiv> SmtPunish (env_params env)"
  defines "a \<equiv> accountOf addr (store w)"
  assumes "billing_inv env w" "0 \<le> fee" "fee \<le> AccountAvailable a" "fee \<le> a_NeedSmt a"
  shows "\<exists>rs tss w1 w2 w3. let ok = (\<exists>r \<in> set rs. succeeded r) in
     AccountLockSmt env addr fee (tick w) = (Ret None, w1) \<and> foldA (punishOne env d) dps False w1 = (Ret ok, w2) \<and>
     (if ok then AccountUseSmt env addr fee else AccountUnlockSmt env addr fee) w2 = (Ret None, w3) \<and> billing_inv env w3 \<and>
     accountOf addr (store w3) = a\<lparr>a_NeedSmt := a_NeedSmt a - fee, a_UsedSmt := a_UsedSmt a + (if ok then fee else 0)\<rparr> \<and>
     sparedBy addr w3 = sparedBy addr w \<and> txs w3 = txs w @ concat tss \<and> tRecord (store w3) = tRecord (fold saveRecord rs (store w)) \<and>
     length rs = length dps \<and> length tss = length dps \<and>
     (\<forall>i < length dps. punishJob env d (\<exists>j < i. succeeded (rs ! j)) (dps ! i) (rs ! i) (tss ! i))"
proof -
  have tick: "billing_inv env (tick w)" using assms(4) by (simp add: billing_inv_def)
  obtain w1 where w1: "AccountLockSmt env addr fee (tick w) = (Ret None, w1)" "billing_inv env w1" "otherThan addr w1 = otherThan addr (tick w)"
      "accountOf addr (store w1) = a\<lparr>a_LockedSmt := a_LockedSmt a + fee, a_NeedSmt := a_NeedSmt a - fee\<rparr>"
    using smt.lock_granted [OF tick assms(5), of addr] assms(6,7) by (auto simp: a_def)
  obtain rs tss w2 where w2: "foldA (punishOne env d) dps False w1 = (Ret (\<exists>r \<in> set rs. succeeded r), w2)" "billing_inv env w2"
      "length rs = length dps" "length tss = length dps" "txs w2 = txs w1 @ concat tss"
      "tRecord (store w2) = tRecord (fold saveRecord rs (store w1))"
      "sparedBy addr w2 = sparedBy addr w1" "accountOf addr (store w2) = accountOf addr (store w1)"
      "\<forall>i < length dps. punishJob env d (\<exists>j < i. succeeded (rs ! j)) (dps ! i) (rs ! i) (tss ! i)"
    using punish_loop [OF w1(2), of d dps False addr] by auto
  let ?ok = "\<exists>r \<in> set rs. succeeded r"
  have "fee \<le> a_LockedSmt (accountOf addr (store w2))"
    using w1(4) w2(8) accountOf_solvent [of "store w" addr] assms(4) by (simp add: a_def billing_inv_def nonneg_def)
  then obtain w3 where w3: "(if ?ok then AccountUseSmt env addr fee else AccountUnlockSmt env addr fee) w2 = (Ret None, w3)"
      "billing_inv env w3" "otherThan addr w3 = otherThan addr w2"
      "accountOf addr (store w3) = (accountOf addr (store w2))\<lparr>a_LockedSmt := a_LockedSmt (accountOf addr (store w2)) - fee,
         a_UsedSmt := a_UsedSmt (accountOf addr (store w2)) + (if ?ok then fee else 0)\<rparr>"
    using settle_one [OF w2(2) assms(5), of addr ?ok] by blast
  have "accountOf addr (store w3) = a\<lparr>a_NeedSmt := a_NeedSmt a - fee, a_UsedSmt := a_UsedSmt a + (if ?ok then fee else 0)\<rparr>"
    using w3(4) w2(8) w1(4) by simp
  moreover have "sparedBy addr w3 = sparedBy addr w" using w3(3) w2(7) w1(3) by simp
  moreover have "txs w3 = txs w @ concat tss" using txs_otherThan [OF w3(3)] w2(5) txs_otherThan [OF w1(3)] by simp
  moreover have "tRecord (store w3) = tRecord (fold saveRecord rs (store w))"
    using otherThan_tables [OF w3(3)] otherThan_tables [OF w1(3)] w2(6) fold_saveRecord_cong [of "store w1" "store w" rs] by simp
  ultimately show ?thesis
    using w1(1) w2(1,3,4,9) w3(1,2) unfolding Let_def
    by (intro exI [of _ rs] exI [of _ tss] exI [of _ w1] exI [of _ w2] exI [of _ w3] conjI)
qed

text \<open>
  C15. Punishing, when no statement fails and the fee can be locked.  There is one execution record for each piece of evidence, saved
  in their order.  As long as none has succeeded, the call of the evidence is sent, unless the token network or the submission refuses it, and
  its record is a success exactly when the receipt of that very transaction came and says so; after the first success no
  evidence is sent any more and the rest only get a record without a transaction.  The fee is charged once when
  some record succeeded and not at all otherwise, nothing stays locked, no other account changes, and a run without success is stored as a
  failed delegation.
\<close>
theorem punish_billing:
  fixes env d w
  defines "addr \<equiv> DelegatorAddress d" and "fee \<equiv> SmtPunish (env_params env)"
  defines "a \<equiv> accountOf addr (store w)"
  defines "dps \<equiv> filter (\<lambda>r. dp_DelegateKey r = d_Key d) (tPunish (store w))"
  assumes "billing_inv env w" "delegate_ok d" "0 \<le> fee" "dps \<noteq> []" "fee \<le> AccountAvailable a" "fee \<le> a_NeedSmt a"
  shows "\<exists>rs tss d' w'. doDelegatePunishes env d w = (Ret d', w') \<and> length rs = length dps \<and> length tss = length dps \<and>
     tRecord (store w') = tRecord (fold saveRecord rs (store w)) \<and> txs w' = txs w @ concat tss \<and>
     (\<forall>i < length dps. r_Type (rs ! i) = DelegateTypePunish \<and> r_GobParams (rs ! i) = ParamsPunish (dps ! i) \<and>
        (if \<exists>j < i. succeeded (rs ! j) then succeeded (rs ! i) \<and> r_TxHashStr (rs ! i) = '''' \<and> tss ! i = []
         else attempt env (punishCall d (dps ! i)) (rs ! i) (tss ! i))) \<and>
     accountOf addr (store w') = a\<lparr>a_NeedSmt := a_NeedSmt a - fee,
        a_UsedSmt := a_UsedSmt a + (if \<exists>r \<in> set rs. succeeded r then fee else 0)\<rparr> \<and>
     (\<forall>b. b \<noteq> addr \<longrightarrow> accountOf b (store w') = accountOf b (store w)) \<and>
     (if \<exists>r \<in> set rs. succeeded r then d' = d
      else d_Status d' = DelegateStatusFailed \<and> delegateBy (d_Key d) (store w') = Some d')"
proof -
  have env: "no_faults env" and key: "d_Key d \<noteq> []" using assms(5,6) by (simp_all add: billing_inv_def)
  have rows: "GetDelegatePunishListByDelegateKey env (d_Key d) w = (Ret (Inr dps), tick w)"
    using env key by (simp add: GetDelegatePunishListByDelegateKey_def gorm_where_def dps_def)
  obtain rs tss w1 w2 w3 where lock: "AccountLockSmt env addr fee (tick w) = (Ret None, w1)"
    and loop: "foldA (punishOne env d) dps False w1 = (Ret (\<exists>r \<in> set rs. succeeded r), w2)"
    and settle: "(if \<exists>r \<in> set rs. succeeded r then AccountUseSmt env addr fee else AccountUnlockSmt env addr fee) w2 = (Ret None, w3)"
      "billing_inv env w3"
    and acc: "accountOf addr (store w3) = a\<lparr>a_NeedSmt := a_NeedSmt a - fee,
        a_UsedSmt := a_UsedSmt a + (if \<exists>r \<in> set rs. succeeded r then fee else 0)\<rparr>"
    and spare: "sparedBy addr w3 = sparedBy addr w"
    and recs: "txs w3 = txs w @ concat tss" "tRecord (store w3) = tRecord (fold saveRecord rs (store w))"
      "length rs = length dps" "length tss = length dps"
      "\<forall>i < length dps. punishJob env d (\<exists>j < i. succeeded (rs ! j)) (dps ! i) (rs ! i) (tss ! i)"
    using punish_settled [OF assms(5) assms(7)[unfolded fee_def] assms(9,10)[unfolded a_def addr_def fee_def], of dps]
    unfolding a_def addr_def fee_def Let_def by blast
  have oth: "\<forall>b. b \<noteq> addr \<longrightarrow> accountOf b (store w3) = accountOf b (store w)" using sparedBy_accounts [OF spare] by blast
  note jobs = recs(5)[unfolded punishJob_def]
  show ?thesis
  proof (cases "\<exists>r \<in> set rs. succeeded r")
    case True
    then have "doDelegatePunishes env d w = (Ret d, w3)"
      using rows lock loop settle(1) assms(8) by (simp add: doDelegatePunishes_def addr_def fee_def)
    then show ?thesis
      using acc oth True recs(1-4) jobs
      by (intro exI [of _ rs] exI [of _ tss] exI [of _ d] exI [of _ w3] conjI) simp_all
  next
    case False
    let ?d = "d\<lparr>d_Status := DelegateStatusFailed, d_Error := ''punish all failed''\<rparr>"
    obtain w4 where w4: "UpdateObject env ?d w3 = (Ret (), w4)" "store w4 = saveDelegate ?d (store w3)" "txs w4 = txs w3"
      using UpdateObject_billing [OF settle(2), of ?d] by blast
    have "doDelegatePunishes env d w = (Ret ?d, w4)"
      using False rows lock loop settle(1) w4(1) assms(8) by (simp add: doDelegatePunishes_def addr_def fee_def Let_def)
    moreover have "delegateBy (d_Key d) (store w4) = Some ?d"
      using w4(2) key by (simp add: saveDelegate_def rowBy_gorm_save)
    moreover have "tRecord (store w4) = tRecord (store w3)" using w4(2) by (simp add: saveDelegate_def)
    moreover have "accountOf b (store w4) = accountOf b (store w3)" "d_Status ?d = DelegateStatusFailed" for b using w4(2) by simp_all
    ultimately show ?thesis
      unfolding if_not_P [OF False]
      using acc oth recs(1-4) w4(3) jobs False
      by (intro exI [of _ rs] exI [of _ tss] exI [of _ ?d] exI [of _ w4] conjI)
        (simp_all only: if_not_P [OF False] select_convs simp_thms delegate.simps if_False)
  qed
qed

text \<open>A secret that is known to be registered.\<close>

lemma known_secret_not_registered_again:
  assumes "no_faults env" "ds_Secret ds = Hash_String s" "\<exists>r \<in> set (tRecord (store w)). registers s r"
  shows "\<exists>w'. doDelegateSecret env lastBlockNumber d ds w = (Ret (), w') \<and> store w' = store w \<and> txs w' = txs w"
proof -
  have "GetSecret ds = s" using assms(2) by (simp add: GetSecret_def)
  with assms(1,3) show ?thesis by (simp add: doDelegateSecret_def bindA_def)
qed

lemma secret_paid:
  fixes env d w
  defines "addr \<equiv> DelegatorAddress d" and "fee \<equiv> SmtSecret (env_params env)"
  defines "a \<equiv> accountOf addr (store w)"
  assumes "billing_inv env w" "0 \<le> fee" "ds_RegisterBlock ds \<le> lastBlockNumber" "ds_Secret ds = Hash_String s"
    and known: "HasSecretAlreadyRegister env s w = (Ret False, tick w)"
    and granted: "AccountLockSmt env addr fee (tick w) = (Ret None, w1)" "billing_inv env w1" "otherThan addr w1 = otherThan addr (tick w)"
      "accountOf addr (store w1) = a\<lparr>a_LockedSmt := a_LockedSmt a + fee, a_NeedSmt := a_NeedSmt a - fee\<rparr>"
  shows "\<exists>r w'. doDelegateSecret env lastBlockNumber d ds w = (Ret (), w') \<and> sparedBy addr w' = sparedBy addr w \<and>
     tRecord (store w') = tRecord (saveRecord r (store w)) \<and>
     accountOf addr (store w') = a\<lparr>a_NeedSmt := a_NeedSmt a - fee, a_UsedSmt := a_UsedSmt a + (if succeeded r then fee else 0)\<rparr> \<and>
     (succeeded r \<longrightarrow> txs w' = txs w @ [RegisterSecret s] \<and> registers s r)"
proof -
  have s: "GetSecret ds = s" using assms(7) by (simp add: GetSecret_def)
  have job: "\<exists>r v'. doRegisterSecret env d ds v = (Ret r, v') \<and> oneTx env (RegisterSecret s) v r v'"
    if "no_faults env" "ce_blockNumber v \<noteq> None" for v
    using doRegisterSecret_ok [OF that, of d ds] s by auto
  have acc: "accountOf addr (store w1) = (accountOf addr (store (tick w)))\<lparr>a_LockedSmt := a_LockedSmt (accountOf addr (store (tick w))) + fee,
      a_NeedSmt := a_NeedSmt (accountOf addr (store (tick w))) - fee\<rparr>" using granted(4) by (simp add: a_def)
  obtain r w2 w3 where tx: "doRegisterSecret env d ds w1 = (Ret r, w2)"
      "(if succeeded r then AccountUseSmt env addr fee else AccountUnlockSmt env addr fee) w2 = (Ret None, w3)"
      "sparedBy addr w3 = sparedBy addr w" "tRecord (store w3) = tRecord (saveRecord r (store w))"
      "accountOf addr (store w3) = a\<lparr>a_NeedSmt := a_NeedSmt a - fee, a_UsedSmt := a_UsedSmt a + (if succeeded r then fee else 0)\<rparr>"
      "succeeded r \<longrightarrow> txs w3 = txs w @ [RegisterSecret s]"
    using pay_for_tx [OF granted(1-3) acc assms(5) job] by (auto simp: a_def)
  have "doDelegateSecret env lastBlockNumber d ds w = (Ret (), w3)"
    using known granted(1) tx(1,2) assms(6) s
    by (cases "succeeded r") (simp_all add: doDelegateSecret_def bindA_def addr_def fee_def)
  moreover have "r_Type r = DelegateTypeRegisterSecret" "r_Secret r = Hash_String s"
    using doRegisterSecret_ok [of env w1 d ds] tx(1) granted(2) assms(7) by (auto simp: billing_inv_def)
  then have "registers s r" if "succeeded r" using that by (simp add: registers_def succeeded_def)
  ultimately show ?thesis using tx(3-6) by blast
qed

text \<open>
  C16. A secret of a delegation, when no statement fails and its block is reached.  A secret that is known to be registered is
  neither sent nor charged again.  Otherwise, if the fee cannot be locked, nothing is sent and the account is untouched; else one execution
  record is saved, nothing stays locked, and the fee is charged exactly when that record says the registration succeeded,
  and then the secret is known to be registered.
\<close>
theorem secret_billing:
  fixes env d w
  defines "addr \<equiv> DelegatorAddress d" and "fee \<equiv> SmtSecret (env_params env)"
  defines "a \<equiv> accountOf addr (store w)"
  assumes "billing_inv env w" "0 \<le> fee" "ds_RegisterBlock ds \<le> lastBlockNumber" "ds_Secret ds = Hash_String s"
  shows "\<exists>w'. doDelegateSecret env lastBlockNumber d ds w = (Ret (), w') \<and>
     (\<forall>b. b \<noteq> addr \<longrightarrow> accountOf b (store w') = accountOf b (store w)) \<and>
     (if (\<exists>r \<in> set (tRecord (store w)). registers s r) \<or> AccountAvailable a < fee \<or> a_NeedSmt a < fee
      then accountOf addr (store w') = a \<and> txs w' = txs w
      else \<exists>r. tRecord (store w') = tRecord (saveRecord r (store w)) \<and>
        accountOf addr (store w') = a\<lparr>a_NeedSmt := a_NeedSmt a - fee,
             a_UsedSmt := a_UsedSmt a + (if succeeded r then fee else 0)\<rparr> \<and>
        (succeeded r \<longrightarrow> txs w' = txs w @ [RegisterSecret s] \<and> registers s r))"
proof (cases "\<exists>r \<in> set (tRecord (store w)). registers s r")
  case True
  have "no_faults env" using assms(4) by (simp add: billing_inv_def)
  from known_secret_not_registered_again [OF this assms(7) True] True show ?thesis by (fastforce simp: a_def)
next
  case new: False
  have env: "no_faults env" using assms(4) by (simp add: billing_inv_def)
  have s: "GetSecret ds = s" using assms(7) by (simp add: GetSecret_def)
  have known: "HasSecretAlreadyRegister env (GetSecret ds) w = (Ret False, tick w)"
    using env new by (simp add: s)
  have tick: "billing_inv env (tick w)" using assms(4) by (simp add: billing_inv_def)
  from tick assms(5) show ?thesis
  proof (cases rule: lock_cases [where addr = addr])
    case (refused e w1)
    have "doDelegateSecret env lastBlockNumber d ds w = (Ret (), w1)"
      using known refused(2) assms(6) by (simp add: doDelegateSecret_def bindA_def addr_def fee_def)
    moreover have "accountOf b (store w1) = accountOf b (store w)" if "b \<noteq> addr" for b
      using sparedBy_accounts [of addr w1 w b] refused(4) that by simp
    ultimately show ?thesis
      using refused(1,5) txs_otherThan [OF refused(4)] by (intro exI [of _ w1]) (auto simp: a_def)
  next
    case (granted w1)
    from granted(6) have "accountOf addr (store w1) = a\<lparr>a_LockedSmt := a_LockedSmt a + fee, a_NeedSmt := a_NeedSmt a - fee\<rparr>"
      by (simp add: a_def)
    from secret_paid [OF assms(4) assms(5)[unfolded fee_def] assms(6,7) known[unfolded s] granted(3-5)[unfolded addr_def fee_def]
        this[unfolded a_def addr_def fee_def]]
    obtain r w3 where paid: "doDelegateSecret env lastBlockNumber d ds w = (Ret (), w3)" "sparedBy addr w3 = sparedBy addr w"
        "tRecord (store w3) = tRecord (saveRecord r (store w))"
        "accountOf addr (store w3) = a\<lparr>a_NeedSmt := a_NeedSmt a - fee, a_UsedSmt := a_UsedSmt a + (if succeeded r then fee else 0)\<rparr>"
        "succeeded r \<longrightarrow> txs w3 = txs w @ [RegisterSecret s] \<and> registers s r"
      unfolding a_def addr_def fee_def by blast
    with sparedBy_accounts [OF paid(2)] new granted(1,2) show ?thesis
      by (intro exI [of _ w3]) (auto simp: a_def intro!: exI [of _ r])
  qed
qed

text \<open>
  A lock that was given up by an announced disposal is reported as done: no transaction is sent for
  it, and the loop then charges the unlock fee for it.
\<close>
lemma disposed_lock_is_charged:
  fixes env d w
  defines "addr \<equiv> DelegatorAddress d" and "fee \<equiv> SmtUnlock (env_params env)"
  assumes "billing_inv env w" "0 \<le> fee" "fee \<le> a_LockedSmt (accountOf addr (store w))"
    and "\<exists>da \<in> set das. da_LockSecretHash da = dl_LockSecretHash du"
  shows "\<exists>w'. unlockAll env d transferAmount das [du] w = (Ret (False, True), w') \<and> txs w' = txs w \<and>
     a_UsedSmt (accountOf addr (store w')) = a_UsedSmt (accountOf addr (store w)) + fee"
proof -
  have env: "no_faults env" using assms(3) by (simp add: billing_inv_def)
  obtain r n where u: "doUnlock env d du transferAmount das w = (Ret r, w\<lparr>clock := n, store := saveRecord r (store w)\<rparr>)" "succeeded r"
    using doUnlock_disposed [OF env assms(6)] by blast
  let ?w = "w\<lparr>clock := n, store := saveRecord r (store w)\<rparr>"
  have "billing_inv env ?w" "fee \<le> a_LockedSmt (accountOf addr (store ?w))"
    using assms(3,5) by (simp_all add: billing_inv_def)
  from settle_one [OF this(1) assms(4) this(2), of True] obtain w' where
    "AccountUseSmt env addr fee ?w = (Ret None, w')" "otherThan addr w' = otherThan addr ?w"
    "accountOf addr (store w') = (accountOf addr (store ?w))\<lparr>a_LockedSmt := a_LockedSmt (accountOf addr (store ?w)) - fee,
       a_UsedSmt := a_UsedSmt (accountOf addr (store ?w)) + fee\<rparr>"
    by auto
  with u txs_otherThan [OF this(2)] show ?thesis
    by (simp add: unlockAll_def addr_def fee_def)
qed

subsection \<open>Concrete applications\<close>

definition runningWorld :: world where
  "runningWorld = accountWorld\<lparr>ce_blockNumber := Some 50,
     store := (store accountWorld)\<lparr>tPunish := [samplePunish (BuildDelegateKey 5 7)]\<rparr>\<rparr>"

lemma runningWorld_ok [simp]:
  "billing_inv quietEnv runningWorld" "accountOf 7 (store runningWorld) = sampleAccount"
  "tRecord (store runningWorld) = []" "tPunish (store runningWorld) = [samplePunish (BuildDelegateKey 5 7)]"
  "txs runningWorld = []"
  using accountWorld_ok accountWorld_account
  by (simp_all add: billing_inv_def runningWorld_def accounts_ok_def accountOf_def
      del: accountWorld_ok accountWorld_account)
    (simp_all add: accountWorld_def emptyDb_def freshWorld_def)

lemma sampleDelegate_delegator [simp]: "DelegatorAddress (sampleDelegate c a) = a"
  by (simp add: sampleDelegate_def DelegatorAddress_def)

lemma quiet_fees [simp]:
  "SmtUpdateTransfer (env_params quietEnv) = 3" "SmtUnlock (env_params quietEnv) = 1"
  "SmtPunish (env_params quietEnv) = 2" "SmtSecret (env_params quietEnv) = 1"
  by (simp_all add: quietEnv_def initParams_def)

lemma sampleAccount_sel [simp]:
  "a_NeedSmt sampleAccount = 20" "AccountAvailable sampleAccount = 20" "a_UsedSmt sampleAccount = 0"
  "a_LockedSmt sampleAccount = 0"
  by (simp_all add: sampleAccount_def AccountAvailable_def)

theorem update_proof_billing_witness:
  "\<exists>d' w'. doDelegateUpdateBalanceProof quietEnv (sampleDelegate 5 7) runningWorld = (Ret d', w') \<and>
     a_NeedSmt (accountOf 7 (store w')) = 17"
proof -
  have "0 < du_Nonce sampleProof" by (simp add: sampleProof_def)
  then show ?thesis
    using update_proof_billing [OF runningWorld_ok(1) sampleDelegate_ok [of 5 7] _ sampleDelegate_getters(1)]
    by auto
qed

theorem unlocks_billing_witness:
  "\<exists>d' w'. doDelegateUnlocks quietEnv (sampleDelegate 5 7) runningWorld = (Ret d', w') \<and>
     a_NeedSmt (accountOf 7 (store w')) = 19"
  using unlocks_billing [OF runningWorld_ok(1) sampleDelegate_ok [of 5 7] _ sampleDelegate_getters(1,2)]
  by auto

theorem punish_billing_witness:
  "\<exists>d' w'. doDelegatePunishes quietEnv (sampleDelegate 5 7) runningWorld = (Ret d', w') \<and>
     a_NeedSmt (accountOf 7 (store w')) = 18"
proof -
  have "filter (\<lambda>r. dp_DelegateKey r = d_Key (sampleDelegate 5 7)) (tPunish (store runningWorld)) \<noteq> []"
    by (simp add: sampleDelegate_getters samplePunish_def)
  then show ?thesis
    using punish_billing [OF runningWorld_ok(1) sampleDelegate_ok [of 5 7]] by auto
qed

theorem secret_billing_witness:
  "\<exists>w'. doDelegateSecret quietEnv 200 (sampleDelegate 5 7) \<lparr>ds_Secret = Hash_String 13, ds_RegisterBlock = 100\<rparr> runningWorld = (Ret (), w') \<and>
     a_NeedSmt (accountOf 7 (store w')) = 19"
  using secret_billing [OF runningWorld_ok(1), of "\<lparr>ds_Secret = Hash_String 13, ds_RegisterBlock = 100\<rparr>" 200 13 "sampleDelegate 5 7"]
  by auto

definition registration :: delegateExecuteRecord where
  "registration = \<lparr>r_Key = ''k'', r_ChannelIdentifierStr = '''', r_OpenBlockNumber = 3, r_DelegatorStr = '''',
     r_Type = DelegateTypeRegisterSecret, r_Status = ExecuteStatusSuccessFinished, r_Error = '''', r_ExecuteTimestamp = 0,
     r_TxHashStr = '''', r_TxCreateBlockNumber = 0, r_TxCreateTimestamp = 0, r_TxPackBlockNumber = 0,
     r_TxPackTimestamp = 0, r_GobParams = ParamsUpdateBalanceProof sampleProof, r_Secret = Hash_String 13\<rparr>"

lemma known_secret_not_registered_again_witness:
  "\<exists>w'. doDelegateSecret quietEnv 200 (sampleDelegate 5 7) \<lparr>ds_Secret = Hash_String 13, ds_RegisterBlock = 100\<rparr>
     (freshWorld\<lparr>store := emptyDb\<lparr>tRecord := [registration]\<rparr>\<rparr>) = (Ret (), w') \<and> txs w' = []"
  using known_secret_not_registered_again [OF no_faults_quietEnv, of "\<lparr>ds_Secret = Hash_String 13, ds_RegisterBlock = 100\<rparr>" 13
      "freshWorld\<lparr>store := emptyDb\<lparr>tRecord := [registration]\<rparr>\<rparr>" 200 "sampleDelegate 5 7"]
  by (auto simp: registers_def registration_def freshWorld_def)

lemma disposed_lock_is_charged_witness:
  "\<exists>w'. unlockAll quietEnv (sampleDelegate 5 7) 200 [\<lparr>da_ID = 1, da_LockSecretHashStr = Hash_String 11, da_DelegateKey = []\<rparr>]
       [sampleUnlock] (runningWorld\<lparr>store := saveAccount (toSerialization (sampleAccount\<lparr>a_LockedSmt := 1\<rparr>)) (store runningWorld)\<rparr>)
     = (Ret (False, True), w') \<and> txs w' = [] \<and> a_UsedSmt (accountOf 7 (store w')) = 1"
proof -
  let ?a = "sampleAccount\<lparr>a_LockedSmt := 1\<rparr>"
  let ?w = "runningWorld\<lparr>store := saveAccount (toSerialization ?a) (store runningWorld)\<rparr>"
  have a: "nonneg ?a" "solvent ?a" "a_Address ?a = word_bytes (7 :: Address)"
    by (simp_all add: nonneg_def solvent_def sampleAccount_def)
  have ok: "accounts_ok (store runningWorld)" "no_faults quietEnv" "ce_blockNumber runningWorld \<noteq> None"
    using runningWorld_ok(1) by (simp_all add: billing_inv_def del: runningWorld_ok)
  have inv: "billing_inv quietEnv ?w" and acc: "accountOf 7 (store ?w) = ?a"
    using accounts_ok_save [OF ok(1) a(1,2)] a(3) ok(3) accountOf_save [OF a(1,3)] by (simp_all add: billing_inv_def)
  have "\<exists>da \<in> set [\<lparr>da_ID = 1, da_LockSecretHashStr = Hash_String 11, da_DelegateKey = []\<rparr>].
      da_LockSecretHash da = dl_LockSecretHash sampleUnlock"
    by (simp add: da_LockSecretHash_def dl_LockSecretHash_def sampleUnlock_def)
  from disposed_lock_is_charged [OF inv _ _ this, of "sampleDelegate 5 7" 200] acc show ?thesis by simp
qed

end
