(* ===== verification/PM_Events.thy ===== *)
theory PM_Events
  imports PM_Execute
begin

text \<open>
  The first half of \<open>chainservice/events.go\<close>: the handlers of the chain events and of a new block.

  \<open>handleBlockNumber\<close> calls itself for the blocks that were skipped; its model carries fuel, and the
  lemmas show that two levels are enough for every input, so that the fuel never runs out.  They
  also show that a block handles every skipped block once, in order, which of the
  scheduled points start work, and what each channel event does to the delegations.
\<close>

subsection \<open>Channel events\<close>

datatype stateChange =
    BlockStateChange int
  | ContractClosedStateChange Hash Address
  | ContractBalanceProofUpdatedStateChange Hash Address
  | ContractCooperativeSettledStateChange Hash
  | ContractChannelWithdrawStateChange Hash
  | ContractSettledStateChange Hash
  | ContractTokenAddedStateChange Address
  | OtherStateChange

definition GetChannelInfo :: "env \<Rightarrow> Address \<Rightarrow> Hash \<Rightarrow> (string + 64 word \<times> 64 word) action" where
  "GetChannelInfo env token c w = (Ret (env_ChannelInfo env (clock w) token c), tick w)"

definition closeDelegate :: "env \<Rightarrow> int \<Rightarrow> delegate \<Rightarrow> unit action" where
  "closeDelegate env settleBlockNumber d =
     (let d = d\<lparr>d_SettleBlockNumber := settleBlockNumber\<rparr> in
      bindA (UpdateObject env d) (\<lambda>_. AddDelegateMonitor env d))"

definition handleClosedStateChange :: "env \<Rightarrow> Hash \<Rightarrow> unit action" where
  "handleClosedStateChange env channelIdentifier =
     bindA (GetDelegateListByChannelIdentifier env channelIdentifier) (\<lambda>r.
     case r of Inl _ \<Rightarrow> returnA () | Inr ds \<Rightarrow>
     if length ds = 0 then returnA () else
     bindA (TokenNetwork env (TokenAddress (hd ds))) (\<lambda>err.
     case err of Some _ \<Rightarrow> returnA () | None \<Rightarrow>
     bindA (GetChannelInfo env (TokenAddress (hd ds)) channelIdentifier) (\<lambda>info.
     case info of Inl _ \<Rightarrow> returnA () | Inr (settleBlockNumber, _) \<Rightarrow>
     foreachA (closeDelegate env (sint settleBlockNumber)) ds)))"

definition handleBalanceProofUpdatedStateChange :: "env \<Rightarrow> Hash \<Rightarrow> Address \<Rightarrow> unit action" where
  "handleBalanceProofUpdatedStateChange env channelIdentifier participant =
     bindA (GetDelegateByKey env (BuildDelegateKey channelIdentifier participant)) (\<lambda>r.
     case r of Inl _ \<Rightarrow> returnA () | Inr d \<Rightarrow>
     if d_Status d = DelegateStatusInit \<and> DelegatorAddress d = participant
     then UpdateObject env (d\<lparr>d_Status := DelegateStatusSuccessFinishedByOther,
            d_Error := ''delegator update balance proof''\<rparr>)
     else returnA ())"

text \<open>The three events that end a channel delete its delegations; a failed delete is logged only.\<close>

definition deleteDelegates :: "env \<Rightarrow> Hash \<Rightarrow> unit action" where
  "deleteDelegates env channelIdentifier =
     bindA (GetDelegateListByChannelIdentifier env channelIdentifier) (\<lambda>r.
     let ds = (case r of Inl _ \<Rightarrow> [] | Inr ds \<Rightarrow> ds) in
     foreachA (\<lambda>d. bindA (DeleteDelegate env (d_Key d)) (\<lambda>_. returnA ())) ds)"

definition handleSettledStateChange :: "env \<Rightarrow> Hash \<Rightarrow> unit action" where
  "handleSettledStateChange env channelIdentifier = deleteDelegates env channelIdentifier"

definition handleCooperativeSettledStateChange :: "env \<Rightarrow> Hash \<Rightarrow> unit action" where
  "handleCooperativeSettledStateChange env channelIdentifier = deleteDelegates env channelIdentifier"

definition handleWithdrawStateChange :: "env \<Rightarrow> Hash \<Rightarrow> unit action" where
  "handleWithdrawStateChange env channelIdentifier = deleteDelegates env channelIdentifier"

definition handleTokenAddedStateChange :: "env \<Rightarrow> Address \<Rightarrow> unit action" where
  "handleTokenAddedStateChange env token = returnA ()"

subsection \<open>A new block\<close>

text \<open>\<open>go f(d)\<close>: the goroutine is started and runs later.\<close>

definition go :: "goroutine \<Rightarrow> unit action" where
  "go g = modifyA (\<lambda>w. w\<lparr>goroutines := goroutines w @ [g]\<rparr>)"

definition fireMonitor :: "env \<Rightarrow> delegateMonitor \<Rightarrow> delegate \<Rightarrow> unit action" where
  "fireMonitor env monitor d =
     (case dm_Type monitor of
        MonitorTypeUnlockAndUpdateBalanceProof \<Rightarrow>
          if d_Status d = DelegateStatusSuccessFinishedByOther then go (GoUnlocks d)
          else if d_Status d \<noteq> DelegateStatusInit then returnA ()
          else
            bindA (UpdateDelegateStatus env d DelegateStatusRunning) (\<lambda>(d, err).
            case err of Some _ \<Rightarrow> returnA () | None \<Rightarrow> go (GoUpdateBalanceProofAndUnlocks d))
      | MonitorTypePunish \<Rightarrow> go (GoPunishes d))"

text \<open>The loop over the monitors: a deleted delegation is skipped, a failing query returns (\<open>False\<close>).\<close>

fun handleMonitors :: "env \<Rightarrow> delegateMonitor list \<Rightarrow> bool action" where
  "handleMonitors env [] = returnA True"
| "handleMonitors env (monitor # ms) =
     bindA (GetDelegateByKey env (dm_DelegateKey monitor)) (\<lambda>r.
     case r of
       Inl ErrRecordNotFound \<Rightarrow> handleMonitors env ms
     | Inl _ \<Rightarrow> returnA False
     | Inr d \<Rightarrow> bindA (fireMonitor env monitor d) (\<lambda>_. handleMonitors env ms))"

text \<open>The body of \<open>handleBlockNumber\<close> after the loop that catches up.\<close>

definition handleBlock :: "env \<Rightarrow> int \<Rightarrow> int \<Rightarrow> unit action" where
  "handleBlock env lastBlockNumber n =
     bindA (modifyA (\<lambda>w. w\<lparr>ce_blockNumber := Some n\<rparr>)) (\<lambda>_.
     bindA (doDelegateSecrets env lastBlockNumber) (\<lambda>_.
     bindA (GetDelegateMonitorList env n) (\<lambda>r.
     case r of Inl _ \<Rightarrow> returnA () | Inr monitors \<Rightarrow>
     bindA (handleMonitors env monitors) (\<lambda>finished.
     if finished then SaveLatestBlockNumber env n else returnA ()))))"

text \<open>
  The body of \<open>handleBlockNumber\<close>, with the call of itself as the argument \<open>rec\<close>; the recursion is this body nested to a bounded depth.
\<close>

definition handleBlockNumberBody :: "(int \<Rightarrow> unit action) \<Rightarrow> env \<Rightarrow> int \<Rightarrow> unit action" where
  "handleBlockNumberBody rec env n =
     bindA GetBlockNumber (\<lambda>lastBlockNumber.
     bindA (if lastBlockNumber \<noteq> 0 \<and> lastBlockNumber < i64 (n - 1)
            then foreachA rec [lastBlockNumber + 1 .. i64 (n - 1)]
            else returnA ()) (\<lambda>_.
     handleBlock env lastBlockNumber n))"

fun handleBlockNumberFuel :: "nat \<Rightarrow> env \<Rightarrow> int \<Rightarrow> unit action" where
  "handleBlockNumberFuel 0 env n = panicA ''stack overflow''"
| "handleBlockNumberFuel (Suc fuel) env n = handleBlockNumberBody (handleBlockNumberFuel fuel env) env n"

definition handleBlockNumber :: "env \<Rightarrow> int \<Rightarrow> unit action" where
  "handleBlockNumber env n = handleBlockNumberFuel 2 env n"

fun handleStateChange :: "env \<Rightarrow> stateChange \<Rightarrow> unit action" where
  "handleStateChange env (BlockStateChange n) = handleBlockNumber env n"
| "handleStateChange env (ContractClosedStateChange c closing) = handleClosedStateChange env c"
| "handleStateChange env (ContractBalanceProofUpdatedStateChange c participant) =
     handleBalanceProofUpdatedStateChange env c participant"
| "handleStateChange env (ContractCooperativeSettledStateChange c) = handleCooperativeSettledStateChange env c"
| "handleStateChange env (ContractChannelWithdrawStateChange c) = handleWithdrawStateChange env c"
| "handleStateChange env (ContractSettledStateChange c) = handleSettledStateChange env c"
| "handleStateChange env (ContractTokenAddedStateChange token) = handleTokenAddedStateChange env token"
| "handleStateChange env OtherStateChange = returnA ()"

subsection \<open>What never changes the block number\<close>

lemma process_chain [keeps_rules]:
  "keeps (on_process R) (submitTx env call)" "keeps (on_process R) (WaitMined env h)"
  "keeps (on_process R) (TokenNetwork env t)"
  by (auto intro!: keepsI simp: submitTx_def WaitMined_def TokenNetwork_def split: sum.split)

lemma process_records [keeps_rules]:
  "keeps (on_process R) (NewDelegateExecuteRecord env d t ps)" "keeps (on_process R) (SaveDelegateExecuteRecord env r)"
  "keeps (on_process R) (HasSecretAlreadyRegister env s)" "keeps (on_process R) (SaveLatestBlockNumber env n)"
  unfolding NewDelegateExecuteRecord_def SaveDelegateExecuteRecord_def HasSecretAlreadyRegister_def SaveLatestBlockNumber_def
  by (intro keeps_rules)+

lemma process_delegates [keeps_rules]:
  "keeps (on_process R) (GetAllDelegate env)" "keeps (on_process R) (GetDelegateByKey env k)"
  "keeps (on_process R) (GetDelegateMonitorList env n)" "keeps (on_process R) (UpdateDelegateStatus env d s)"
  unfolding GetAllDelegate_def GetDelegateByKey_def GetDelegateMonitorList_def UpdateDelegateStatus_def
  by (intro keeps_rules)+

lemma process_accounts [keeps_rules]:
  "keeps (on_process R) (AccountLockSmt env addr n)" "keeps (on_process R) (AccountUnlockSmt env addr n)"
  "keeps (on_process R) (AccountUseSmt env addr n)"
  unfolding AccountLockSmt_def AccountUnlockSmt_def AccountUseSmt_def AccountGetAccount_def findAccount_def
  by (intro keeps_rules keeps_accountSanity)+

lemma process_executeTx [keeps_rules]: "keeps (on_process R) (executeTx env call r)"
  unfolding executeTx_def by (intro keeps_rules)

lemma process_deferSave [keeps_rules]: "keeps (on_process R) m \<Longrightarrow> keeps (on_process R) (deferSave env m)"
  unfolding deferSave_def by (intro keeps_rules)

lemma process_doDelegateSecrets [keeps_rules]: "keeps (on_process R) (doDelegateSecrets env l)"
  unfolding doDelegateSecrets_def doDelegateSecret_def doRegisterSecret_def
  by (intro keeps_rules)

text \<open>A predicate on the block number alone is also kept when goroutines are started.\<close>

abbreviation on_block :: "(int option \<Rightarrow> bool) \<Rightarrow> world \<Rightarrow> bool" where
  "on_block I \<equiv> on_process (\<lambda>b gs. I b)"

lemma block_go [keeps_rules]: "keeps (on_block I) (go g)"
  by (rule keepsI) (simp add: go_def on_process_def)

lemma keeps_case_monitorType [keeps_rules]:
  "keeps I m \<Longrightarrow> keeps I m' \<Longrightarrow>
   keeps I (case t of MonitorTypeUnlockAndUpdateBalanceProof \<Rightarrow> m | MonitorTypePunish \<Rightarrow> m')"
  by (cases t) simp_all

lemma block_fireMonitor [keeps_rules]: "keeps (on_block I) (fireMonitor env m d)"
  unfolding fireMonitor_def by (intro keeps_rules)

lemma block_handleMonitors [keeps_rules]: "keeps (on_block I) (handleMonitors env ms)"
proof (induction ms)
  case Nil
  show ?case unfolding handleMonitors.simps by (rule keeps_returnA)
next
  case (Cons m ms)
  have "keeps (on_block I) (case e of ErrRecordNotFound \<Rightarrow> handleMonitors env ms | _ \<Rightarrow> returnA False)" for e
    using Cons by (cases e) (simp_all only: error.case keeps_returnA)
  with Cons show ?case unfolding handleMonitors.simps
    by (intro keeps_bindA keeps_case_sum keeps_rules)
qed

lemma handleBlock_block: "ce_blockNumber (snd (handleBlock env l n w)) = Some n"
proof -
  have "keeps (on_block (\<lambda>b. b = Some n)) (bindA (doDelegateSecrets env l) (\<lambda>_.
     bindA (GetDelegateMonitorList env n) (\<lambda>r.
     case r of Inl _ \<Rightarrow> returnA () | Inr monitors \<Rightarrow>
     bindA (handleMonitors env monitors) (\<lambda>finished.
     if finished then SaveLatestBlockNumber env n else returnA ()))))"
    by (intro keeps_rules)
  from keepsD [OF this, of "w\<lparr>ce_blockNumber := Some n\<rparr>"] show ?thesis
    by (simp add: handleBlock_def on_process_def)
qed

subsection \<open>Catching up\<close>

definition lastBlock :: "world \<Rightarrow> int" where
  "lastBlock w = (case ce_blockNumber w of None \<Rightarrow> 0 | Some n \<Rightarrow> n)"

lemma GetBlockNumber_app [simp]: "GetBlockNumber w = (Ret (lastBlock w), w)"
  by (simp add: GetBlockNumber_def lastBlock_def)

lemma next_block:
  assumes "in_int64 i" "in_int64 (i - 1)" "lastBlock w = i - 1"
  shows "handleBlockNumberBody rec env i w = handleBlock env (i - 1) i w"
  using assms by (simp add: handleBlockNumberBody_def i64_id)

lemma catch_up_loop:
  assumes "in_int64 l" "in_int64 m" "lastBlock w = l"
  shows "foreachA (handleBlockNumberBody rec env) [l + 1 .. m] w = foreachA (\<lambda>i. handleBlock env (i - 1) i) [l + 1 .. m] w"
  using assms
proof (induction "nat (m - l)" arbitrary: l w)
  case 0
  then show ?case by simp
next
  case (Suc k)
  then have le: "l + 1 \<le> m" by simp
  have range: "in_int64 (l + 1)" using Suc.prems le by (auto simp: in_int64_def)
  have first: "handleBlockNumberBody rec env (l + 1) w = handleBlock env l (l + 1) w"
    using next_block [of "l + 1" w rec env] Suc.prems range by simp
  show ?case
  proof (cases "handleBlock env l (l + 1) w")
    case (Pair r w1)
    then have "lastBlock w1 = l + 1" using handleBlock_block [of env l "l + 1" w] by (simp add: lastBlock_def)
    then have "foreachA (handleBlockNumberBody rec env) [l + 1 + 1 .. m] w1 = foreachA (\<lambda>i. handleBlock env (i - 1) i) [l + 1 + 1 .. m] w1"
      using Suc.hyps(1) [of "l + 1" w1] Suc.hyps(2) Suc.prems(2) range by simp
    then show ?thesis
      using first Pair le by (cases r) (simp_all add: upto_rec1)
  qed
qed

text \<open>Two nested bodies are the plain loop, whatever a third one would do.\<close>

lemma handleBlockNumberBody_twice:
  assumes "in_int64 (n - 1)" "in_int64 (lastBlock w)"
  shows "handleBlockNumberBody (handleBlockNumberBody rec env) env n w =
     bindA (if lastBlock w \<noteq> 0 \<and> lastBlock w < n - 1
            then foreachA (\<lambda>i. handleBlock env (i - 1) i) [lastBlock w + 1 .. n - 1] else returnA ())
       (\<lambda>_. handleBlock env (lastBlock w) n) w"
  using assms(1) catch_up_loop [OF assms(2,1)]
  by (simp add: handleBlockNumberBody_def [where rec = "handleBlockNumberBody rec env"] i64_id bindA_def)

lemma handleBlockNumberFuel_body: "handleBlockNumberFuel (Suc fuel) env = handleBlockNumberBody (handleBlockNumberFuel fuel env) env"
  by (rule ext) simp

lemma handleBlockNumberFuel_eq:
  assumes "in_int64 (n - 1)" "in_int64 (lastBlock w)" "2 \<le> fuel"
  shows "handleBlockNumberFuel fuel env n w =
     bindA (if lastBlock w \<noteq> 0 \<and> lastBlock w < n - 1
            then foreachA (\<lambda>i. handleBlock env (i - 1) i) [lastBlock w + 1 .. n - 1] else returnA ())
       (\<lambda>_. handleBlock env (lastBlock w) n) w"
proof -
  obtain f where f: "fuel = Suc (Suc f)" using assms(3) by (cases fuel; cases "fuel - 1") auto
  show ?thesis
    unfolding f handleBlockNumberFuel_body by (rule handleBlockNumberBody_twice [OF assms(1,2)])
qed

subsection \<open>Properties\<close>

text \<open>
  C22. The recursion of a block notification ends: it is at most two levels deep.  For every block number that has a
  predecessor, every state and every behaviour of the database and the chain, the handler satisfies its own recursion equation,
  and its run is the one of two nested bodies, whatever the call inside the second one is replaced by: no run makes a third nested call, and none
  reaches the bound of the recursion.
\<close>
theorem block_recursion_ends:
  assumes "in_int64 (n - 1)" "in_int64 (lastBlock w)"
  shows "handleBlockNumberBody (handleBlockNumber env) env n w = handleBlockNumber env n w \<and>
    handleBlockNumberBody (handleBlockNumberBody thirdCall env) env n w = handleBlockNumber env n w"
proof -
  have eq: "handleBlockNumber env = handleBlockNumberBody (handleBlockNumberBody (handleBlockNumberFuel 0 env) env) env"
    by (rule ext) (simp add: handleBlockNumber_def numeral_2_eq_2 handleBlockNumberFuel_body del: handleBlockNumberFuel.simps)
  show ?thesis by (simp only: eq handleBlockNumberBody_twice [OF assms])
qed

text \<open>
  C23. A block notification is the plain loop over the blocks: every block that was skipped since the last one is handled, once, in
  ascending order, and each with its predecessor as the last block; then the block itself is handled.  After a first start (no last
  block) only the block itself is.  The current block number is then the notified one.
\<close>
theorem blocks_handled_in_order:
  assumes "in_int64 n" "in_int64 (n - 1)" "in_int64 (lastBlock w)"
  shows "handleBlockNumber env n w =
     bindA (if lastBlock w \<noteq> 0 \<and> lastBlock w < n - 1
            then foreachA (\<lambda>i. handleBlock env (i - 1) i) [lastBlock w + 1 .. n - 1] else returnA ())
       (\<lambda>_. handleBlock env (lastBlock w) n) w \<and>
    (\<forall>w'. handleBlockNumber env n w = (Ret (), w') \<longrightarrow> ce_blockNumber w' = Some n)"
proof -
  have eq: "handleBlockNumber env n w =
     bindA (if lastBlock w \<noteq> 0 \<and> lastBlock w < n - 1
            then foreachA (\<lambda>i. handleBlock env (i - 1) i) [lastBlock w + 1 .. n - 1] else returnA ())
       (\<lambda>_. handleBlock env (lastBlock w) n) w"
    unfolding handleBlockNumber_def by (rule handleBlockNumberFuel_eq [OF assms(2,3) order_refl])
  have "ce_blockNumber w' = Some n" if "bindA m (\<lambda>_. handleBlock env (lastBlock w) n) w = (Ret (), w')" for m w'
  proof (cases rule: bindA_cases [of m w "\<lambda>_. handleBlock env (lastBlock w) n"])
    case (Ret x s)
    with that handleBlock_block [of env "lastBlock w" n s] show ?thesis by simp
  next
    case (Panic msg s)
    with that show ?thesis by simp
  qed
  then show ?thesis unfolding eq by blast
qed

subsection \<open>Monitors\<close>

lemma delegateBy_status_column:
  assumes "k \<noteq> []"
  shows "rowBy d_Key j (gorm_update_column blankList d_Key k (\<lambda>r. r\<lparr>d_Status := s\<rparr>) rows) =
     (if j = k then map_option (\<lambda>r. r\<lparr>d_Status := s\<rparr>) (rowBy d_Key j rows) else rowBy d_Key j rows)"
  using assms by (simp add: rowBy_gorm_update_column)

text \<open>The work a scheduled point starts, and the status it leaves, as a function of the stored delegation.\<close>

definition started :: "monitorType \<Rightarrow> delegate \<Rightarrow> goroutine list" where
  "started ty d =
     (case ty of
        MonitorTypePunish \<Rightarrow> [GoPunishes d]
      | MonitorTypeUnlockAndUpdateBalanceProof \<Rightarrow>
          if d_Status d = DelegateStatusSuccessFinishedByOther then [GoUnlocks d]
          else if d_Status d = DelegateStatusInit
          then [GoUpdateBalanceProofAndUnlocks (d\<lparr>d_Status := DelegateStatusRunning\<rparr>)] else [])"

definition afterFire :: "monitorType \<Rightarrow> delegate \<Rightarrow> delegate" where
  "afterFire ty d = (if ty = MonitorTypeUnlockAndUpdateBalanceProof \<and> d_Status d = DelegateStatusInit
     then d\<lparr>d_Status := DelegateStatusRunning\<rparr> else d)"

lemma fireMonitor_ok:
  assumes "no_faults env" "delegateBy k (store w) = Some d" "k \<noteq> []"
  shows "\<exists>w'. fireMonitor env m d w = (Ret (), w') \<and> goroutines w' = goroutines w @ started (dm_Type m) d \<and>
     (\<forall>j. delegateBy j (store w') = (if j = k then Some (afterFire (dm_Type m) d) else delegateBy j (store w)))"
proof -
  have key: "d_Key d = k" using rowBy_Some [OF assms(2)] by simp
  show ?thesis
    using assms key
    by (cases "dm_Type m")
      (auto simp: fireMonitor_def started_def afterFire_def go_def UpdateDelegateStatus_def Let_def
        delegateBy_status_column)
qed

text \<open>
  A scheduled point of a stored delegation, when no statement fails: the punish point starts the punishing;
  the other point starts proof and unlocks if the delegation is in state Init (which becomes
  Running), only the unlocks if the delegator updated the proof himself, and nothing in any other state.
  No other delegation changes.
\<close>
lemma monitor_starts_work:
  assumes "no_faults env" "dm_DelegateKey m \<noteq> []" "delegateBy (dm_DelegateKey m) (store w) = Some d"
  shows "\<exists>w'. handleMonitors env [m] w = (Ret True, w') \<and> goroutines w' = goroutines w @ started (dm_Type m) d \<and>
     (\<forall>j. delegateBy j (store w') =
        (if j = dm_DelegateKey m then Some (afterFire (dm_Type m) d) else delegateBy j (store w)))"
proof -
  have row: "delegateBy (dm_DelegateKey m) (store (tick w)) = Some d" using assms(3) by simp
  from fireMonitor_ok [OF assms(1) row assms(2), of m] obtain w' where
    "fireMonitor env m d (tick w) = (Ret (), w')" "goroutines w' = goroutines w @ started (dm_Type m) d"
    "\<forall>j. delegateBy j (store w') = (if j = dm_DelegateKey m then Some (afterFire (dm_Type m) d) else delegateBy j (store w))"
    by auto
  with assms show ?thesis by auto
qed

text \<open>The goroutines that submit the proof of one delegation, and whether a list of points asks for it.\<close>

definition proofRuns :: "byte list \<Rightarrow> goroutine list \<Rightarrow> goroutine list" where
  "proofRuns k gs = filter (\<lambda>g. case g of GoUpdateBalanceProofAndUnlocks d \<Rightarrow> d_Key d = k | _ \<Rightarrow> False) gs"

definition proofDue :: "byte list \<Rightarrow> delegateMonitor list \<Rightarrow> bool" where
  "proofDue k ms \<longleftrightarrow> (\<exists>m \<in> set ms. dm_DelegateKey m = k \<and> dm_Type m = MonitorTypeUnlockAndUpdateBalanceProof)"

lemma proofRuns_simps [simp]:
  "proofRuns k [] = []" "proofRuns k (gs @ hs) = proofRuns k gs @ proofRuns k hs"
  by (simp_all add: proofRuns_def)

lemma proofRuns_started:
  "proofRuns k (started ty d) = (if d_Key d = k \<and> ty = MonitorTypeUnlockAndUpdateBalanceProof \<and> d_Status d = DelegateStatusInit
     then [GoUpdateBalanceProofAndUnlocks (d\<lparr>d_Status := DelegateStatusRunning\<rparr>)] else [])"
  by (simp add: proofRuns_def started_def split: monitorType.split)

lemma fireMonitor_tMonitor: "tMonitor (store (snd (fireMonitor env m d w))) = tMonitor (store w)"
proof -
  have "keeps (on_store (\<lambda>db. tMonitor db = tMonitor (store w))) (fireMonitor env m d)"
    unfolding fireMonitor_def UpdateDelegateStatus_def Let_def go_def
    by (intro keeps_rules keeps_db_write keepsI) simp_all
  from keepsD [OF this, of w] show ?thesis by (simp add: on_store_def)
qed

lemma handleMonitors_ok:
  assumes "no_faults env" "\<forall>m \<in> set ms. dm_DelegateKey m \<noteq> []" "delegateBy k (store w) = Some d"
  shows "\<exists>w' new. handleMonitors env ms w = (Ret True, w') \<and> goroutines w' = goroutines w @ new \<and>
     tMonitor (store w') = tMonitor (store w) \<and>
     (if proofDue k ms \<and> d_Status d = DelegateStatusInit
      then proofRuns k new = [GoUpdateBalanceProofAndUnlocks (d\<lparr>d_Status := DelegateStatusRunning\<rparr>)] \<and>
        delegateBy k (store w') = Some (d\<lparr>d_Status := DelegateStatusRunning\<rparr>)
      else proofRuns k new = [] \<and> delegateBy k (store w') = Some d)"
  using assms(2,3)
proof (induction ms arbitrary: w d)
  case Nil
  then show ?case by (simp add: proofDue_def)
next
  case (Cons m ms)
  have key: "dm_DelegateKey m \<noteq> []" using Cons.prems(1) by simp
  show ?case
  proof (cases "delegateBy (dm_DelegateKey m) (store w)")
    case None
    then have "dm_DelegateKey m \<noteq> k" using Cons.prems(2) by auto
    then have "proofDue k (m # ms) = proofDue k ms" by (auto simp: proofDue_def)
    then show ?thesis using Cons.IH [of "tick w" d] Cons.prems None key assms(1) by simp
  next
    case (Some e)
    have ek: "d_Key e = dm_DelegateKey m" using rowBy_Some [OF Some] by simp
    have "delegateBy (dm_DelegateKey m) (store (tick w)) = Some e" using Some by simp
    from fireMonitor_ok [OF assms(1) this key, of m] fireMonitor_tMonitor [of env m e "tick w"] obtain w1 where
      w1: "fireMonitor env m e (tick w) = (Ret (), w1)" "goroutines w1 = goroutines w @ started (dm_Type m) e"
        "\<forall>j. delegateBy j (store w1) = (if j = dm_DelegateKey m then Some (afterFire (dm_Type m) e) else delegateBy j (store w))"
        "tMonitor (store w1) = tMonitor (store w)"
      by auto
    define d1 where "d1 = (if k = dm_DelegateKey m then afterFire (dm_Type m) d else d)"
    have e: "e = d" if "k = dm_DelegateKey m" using that Some Cons.prems(2) by simp
    have "delegateBy k (store w1) = Some d1" using w1(3) e Cons.prems(2) by (simp add: d1_def)
    from Cons.IH [OF _ this] Cons.prems(1) obtain w2 new where
      w2: "handleMonitors env ms w1 = (Ret True, w2)" "goroutines w2 = goroutines w1 @ new" "tMonitor (store w2) = tMonitor (store w1)"
        "if proofDue k ms \<and> d_Status d1 = DelegateStatusInit
         then proofRuns k new = [GoUpdateBalanceProofAndUnlocks (d1\<lparr>d_Status := DelegateStatusRunning\<rparr>)] \<and>
           delegateBy k (store w2) = Some (d1\<lparr>d_Status := DelegateStatusRunning\<rparr>)
         else proofRuns k new = [] \<and> delegateBy k (store w2) = Some d1"
      by auto
    have due: "proofDue k (m # ms) \<longleftrightarrow> (k = dm_DelegateKey m \<and> dm_Type m = MonitorTypeUnlockAndUpdateBalanceProof) \<or> proofDue k ms"
      by (auto simp: proofDue_def)
    have "handleMonitors env (m # ms) w = (Ret True, w2)" using Some key assms(1) w1(1) w2(1) by simp
    then show ?thesis
      using w1 w2 e ek due
      by (intro exI [of _ w2] exI [of _ "started (dm_Type m) e @ new"])
        (auto simp: proofRuns_started d1_def afterFire_def split: if_splits)
  qed
qed

text \<open>
  C21. A delegation is executed once.  When any list of scheduled points is handled and no statement fails, the goroutine that submits
  the proof and the unlocks of a delegation is started exactly once if the delegation is in state Init and at least one of the
  points asks for it, and not at all otherwise; the stored state is then Running, so that no later list starts it again.
\<close>
theorem delegation_executed_once:
  assumes "no_faults env" "\<forall>m \<in> set ms. dm_DelegateKey m \<noteq> []" "delegateBy k (store w) = Some d"
  shows "\<exists>w' new. handleMonitors env ms w = (Ret True, w') \<and> goroutines w' = goroutines w @ new \<and>
     length (proofRuns k new) = (if proofDue k ms \<and> d_Status d = DelegateStatusInit then 1 else 0) \<and>
     delegateBy k (store w') = Some (if proofDue k ms \<and> d_Status d = DelegateStatusInit
       then d\<lparr>d_Status := DelegateStatusRunning\<rparr> else d)"
  using handleMonitors_ok [OF assms] by (cases "proofDue k ms \<and> d_Status d = DelegateStatusInit") auto

subsection \<open>The end of a channel\<close>

text \<open>
  When the delegator's own balance proof arrives on chain, when no statement fails: his delegation, if still in state
  Init, is marked as finished by another; any other delegation, and any other state, is left alone.
\<close>
lemma own_proof_marks_delegation:
  assumes "no_faults env" "delegates_ok (store w)"
  shows "\<exists>w'. handleBalanceProofUpdatedStateChange env c p w = (Ret (), w') \<and>
     (\<forall>j. delegateBy j (store w') =
        (case delegateBy j (store w) of None \<Rightarrow> None | Some d \<Rightarrow>
           Some (if j = BuildDelegateKey c p \<and> d_Status d = DelegateStatusInit
                 then d\<lparr>d_Status := DelegateStatusSuccessFinishedByOther, d_Error := ''delegator update balance proof''\<rparr>
                 else d)))"
proof (cases "delegateBy (BuildDelegateKey c p) (store w)")
  case None
  then show ?thesis
    using assms(1) by (auto simp: handleBalanceProofUpdatedStateChange_def split: option.split)
next
  case (Some d)
  then have d: "d_Key d = BuildDelegateKey c p" "delegate_ok d"
    using assms(2) by (auto simp: delegates_ok_def dest: rowBy_Some)
  then have "DelegatorAddress d = p" by (simp add: delegate_ok_def BuildDelegateKey_inject)
  with Some d assms(1) show ?thesis
    by (auto simp: handleBalanceProofUpdatedStateChange_def saveDelegate_def rowBy_gorm_save split: option.split)
qed

lemma deleteLoop:
  assumes "no_faults env" "\<forall>d \<in> set ds. d_Key d \<noteq> []"
  shows "\<exists>w'. foreachA (\<lambda>d. bindA (DeleteDelegate env (d_Key d)) (\<lambda>_. returnA ())) ds w = (Ret (), w') \<and>
     tDelegate (store w') = filter (\<lambda>d. d_Key d \<notin> d_Key ` set ds) (tDelegate (store w)) \<and>
     tAccount (store w') = tAccount (store w) \<and>
     (if ds = [] then store w' = store w else tPunish (store w') = [] \<and> tDispose (store w') = [])"
  using assms(2)
proof (induction ds arbitrary: w)
  case Nil
  show ?case by (intro exI [of _ w]) simp
next
  case (Cons d ds)
  let ?w = "w\<lparr>clock := clock w + 4, store := (store w)\<lparr>
        tDelegate := filter (\<lambda>e. d_Key e \<noteq> d_Key d) (tDelegate (store w)), tPunish := [], tDispose := []\<rparr>\<rparr>"
  have 1: "DeleteDelegate env (d_Key d) w = (Ret (Inr ()), ?w)"
    using DeleteDelegate_ok [OF assms(1)] Cons.prems by simp
  have "\<forall>d \<in> set ds. d_Key d \<noteq> []" using Cons.prems by simp
  from Cons.IH [OF this, of ?w] obtain w' where w':
    "foreachA (\<lambda>d. bindA (DeleteDelegate env (d_Key d)) (\<lambda>_. returnA ())) ds ?w = (Ret (), w')"
     "tDelegate (store w') = filter (\<lambda>d. d_Key d \<notin> d_Key ` set ds) (tDelegate (store ?w))"
     "tAccount (store w') = tAccount (store ?w)"
     "if ds = [] then store w' = store ?w else tPunish (store w') = [] \<and> tDispose (store w') = []"
    by blast
  have "foreachA (\<lambda>d. bindA (DeleteDelegate env (d_Key d)) (\<lambda>_. returnA ())) (d # ds) w = (Ret (), w')"
    using 1 w'(1) by (simp add: bindA_assoc del: returnA_app)
  moreover have "tDelegate (store w') = filter (\<lambda>e. d_Key e \<notin> d_Key ` set (d # ds)) (tDelegate (store w))"
    unfolding w'(2) by (auto intro!: filter_cong)
  moreover have "tAccount (store w') = tAccount (store w)" "tPunish (store w') = [] \<and> tDispose (store w') = []"
    using w'(3,4) by (auto split: if_splits)
  ultimately show ?case by (intro exI [of _ w']) (simp del: foreachA.simps returnA_app)
qed

text \<open>
  C34. The end of a channel (settled, settled cooperatively, or withdrawn) over well-formed delegations (as in every reachable state), when no statement fails: exactly the
  delegations of that channel are deleted, and no account changes; but if there was one, the evidence of every other delegation is
  lost with it, the punishments as well as the disposed locks, because \<open>gorm\<close> deletes without a condition by a struct whose primary key is blank.
\<close>
theorem channel_end_deletes:
  assumes "no_faults env" "delegates_ok (store w)"
    and "ev \<in> {ContractSettledStateChange c, ContractCooperativeSettledStateChange c, ContractChannelWithdrawStateChange c}"
  shows "\<exists>w'. handleStateChange env ev w = (Ret (), w') \<and>
     tDelegate (store w') = filter (\<lambda>d. ChannelIdentifier d \<noteq> c) (tDelegate (store w)) \<and>
     tAccount (store w') = tAccount (store w) \<and>
     ((\<exists>d \<in> set (tDelegate (store w)). ChannelIdentifier d = c) \<longrightarrow> tPunish (store w') = [] \<and> tDispose (store w') = [])"
proof -
  let ?ds = "filter (\<lambda>d. d_ChannelIdentifierStr d = Hash_String c) (tDelegate (store w))"
  have ok: "delegate_ok d" if "d \<in> set (tDelegate (store w))" for d using assms(2) that by (simp add: delegates_ok_def)
  have chan: "d_ChannelIdentifierStr d = Hash_String c \<longleftrightarrow> ChannelIdentifier d = c" if "d \<in> set (tDelegate (store w))" for d
    using ok [OF that] by (metis HexToHash_String delegate_ok_def ChannelIdentifier_def)
  have ds: "?ds = filter (\<lambda>d. ChannelIdentifier d = c) (tDelegate (store w))" using chan by (intro filter_cong) auto
  have keys: "\<forall>d \<in> set ?ds. d_Key d \<noteq> []" using ok by auto
  from deleteLoop [OF assms(1) keys, of "tick w"] obtain w' where w':
    "foreachA (\<lambda>d. bindA (DeleteDelegate env (d_Key d)) (\<lambda>_. returnA ())) ?ds (tick w) = (Ret (), w')"
    "tDelegate (store w') = filter (\<lambda>d. d_Key d \<notin> d_Key ` set ?ds) (tDelegate (store w))"
    "tAccount (store w') = tAccount (store w)"
    "if ?ds = [] then store w' = store w else tPunish (store w') = [] \<and> tDispose (store w') = []"
    by auto
  have run: "deleteDelegates env c w = (Ret (), w')"
    using assms(1) w'(1) by (simp add: deleteDelegates_def GetDelegateListByChannelIdentifier_def gorm_where_def)
  have "d_Key d \<notin> d_Key ` set ?ds \<longleftrightarrow> ChannelIdentifier d \<noteq> c" if "d \<in> set (tDelegate (store w))" for d
    using that assms(2) ds by (auto simp: delegates_ok_def distinct_map inj_on_def)
  then have "tDelegate (store w') = filter (\<lambda>d. ChannelIdentifier d \<noteq> c) (tDelegate (store w))"
    unfolding w'(2) by (intro filter_cong) auto
  moreover have "?ds \<noteq> []" if "\<exists>d \<in> set (tDelegate (store w)). ChannelIdentifier d = c"
    using that by (simp add: ds filter_empty_conv)
  ultimately show ?thesis
    using run w'(3,4) assms(3)
    by (auto simp: handleSettledStateChange_def handleCooperativeSettledStateChange_def handleWithdrawStateChange_def)
qed

subsection \<open>Closing a channel\<close>







subsection \<open>Concrete applications\<close>

definition channelWorld :: world where
  "channelWorld = freshWorld\<lparr>ce_blockNumber := Some 50, store := emptyDb\<lparr>tDelegate := [sampleDelegate 5 7, sampleDelegate 6 7]\<rparr>\<rparr>"

lemma channelWorld_ok [simp]:
  "delegates_ok (store channelWorld)" "tDelegate (store channelWorld) = [sampleDelegate 5 7, sampleDelegate 6 7]"
  "tMonitor (store channelWorld) = []" "goroutines channelWorld = []" "lastBlock channelWorld = 50" "clock channelWorld = 0"
  by (auto simp: channelWorld_def delegates_ok_def sampleDelegate_getters BuildDelegateKey_inject emptyDb_def
      freshWorld_def lastBlock_def)

lemma sampleDelegate_channel [simp]: "ChannelIdentifier (sampleDelegate c a) = c"
  by (simp add: sampleDelegate_def ChannelIdentifier_def)

lemma newMonitor_sel [simp]:
  "dm_DelegateKey (newMonitor r b t k) = k" "dm_Type (newMonitor r b t k) = t"
  by (simp_all add: newMonitor_def)

theorem block_recursion_ends_witness:
  "handleBlockNumberBody (handleBlockNumberBody (\<lambda>_. panicA ''third'') quietEnv) quietEnv 53 channelWorld =
     handleBlockNumber quietEnv 53 channelWorld"
  using block_recursion_ends [of 53 channelWorld quietEnv] by (simp add: in_int64_def)

theorem blocks_handled_in_order_witness:
  "handleBlockNumber quietEnv 53 channelWorld =
     bindA (foreachA (\<lambda>i. handleBlock quietEnv (i - 1) i) [51 .. 52]) (\<lambda>_. handleBlock quietEnv 50 53) channelWorld"
  using blocks_handled_in_order [of 53 channelWorld quietEnv] by (simp add: in_int64_def)

lemma monitor_starts_work_witness:
  "\<exists>w'. handleMonitors quietEnv [newMonitor 1 70 MonitorTypePunish (BuildDelegateKey 5 7)] channelWorld = (Ret True, w') \<and>
     goroutines w' = [GoPunishes (sampleDelegate 5 7)]"
  using monitor_starts_work [OF no_faults_quietEnv, of "newMonitor 1 70 MonitorTypePunish (BuildDelegateKey 5 7)" channelWorld "sampleDelegate 5 7"]
  by (auto simp: sampleDelegate_getters started_def simp del: handleMonitors.simps)

theorem delegation_executed_once_witness:
  "\<exists>w' new. handleMonitors quietEnv [newMonitor 1 70 MonitorTypeUnlockAndUpdateBalanceProof (BuildDelegateKey 5 7),
       newMonitor 2 70 MonitorTypeUnlockAndUpdateBalanceProof (BuildDelegateKey 5 7)] channelWorld = (Ret True, w') \<and>
     goroutines w' = goroutines channelWorld @ new \<and> length (proofRuns (BuildDelegateKey 5 7) new) = 1"
proof -
  let ?ms = "[newMonitor 1 70 MonitorTypeUnlockAndUpdateBalanceProof (BuildDelegateKey 5 7),
    newMonitor 2 70 MonitorTypeUnlockAndUpdateBalanceProof (BuildDelegateKey 5 7)]"
  have row: "delegateBy (BuildDelegateKey 5 7) (store channelWorld) = Some (sampleDelegate 5 7)"
    by (simp add: sampleDelegate_getters)
  have "proofDue (BuildDelegateKey 5 7) ?ms" "\<forall>m \<in> set ?ms. dm_DelegateKey m \<noteq> []" by (simp_all add: proofDue_def)
  with delegation_executed_once [OF no_faults_quietEnv _ row, of ?ms] sampleDelegate_getters(5) show ?thesis
    by (auto simp del: handleMonitors.simps)
qed

lemma own_proof_marks_delegation_witness:
  "\<exists>w' d. handleBalanceProofUpdatedStateChange quietEnv 5 7 channelWorld = (Ret (), w') \<and>
     delegateBy (BuildDelegateKey 5 7) (store w') = Some d \<and> d_Status d = DelegateStatusSuccessFinishedByOther"
  using own_proof_marks_delegation [OF no_faults_quietEnv channelWorld_ok(1), of 5 7]
  by (auto simp: sampleDelegate_getters)

theorem channel_end_deletes_witness:
  "\<exists>w'. handleStateChange quietEnv (ContractSettledStateChange 5) channelWorld = (Ret (), w') \<and>
     tDelegate (store w') = [sampleDelegate 6 7]"
  using channel_end_deletes [OF no_faults_quietEnv channelWorld_ok(1), of "ContractSettledStateChange 5" 5]
  by auto


end
