(* ===== verification/PM_Service.thy ===== *)
theory PM_Service
  imports PM_Account PM_Monitor PM_Record
begin

text \<open>
  \<open>models/service.go\<close>: accepting a delegation.  \<open>ReceiveDelegate\<close> appends the punish evidence and the
  disposed locks, stores or updates the delegation, and books the fee on the delegator's account,
  all in one database transaction.

  The lemmas follow the four steps; the properties state what is stored on a first delegation and
  on an update, when an update is refused, that a refusal leaves no trace, and that a delegation
  never loses a newer balance proof.
\<close>

subsection \<open>Punish evidence and disposed locks\<close>

definition newPunish :: "byte list \<Rightarrow> punishReq \<Rightarrow> delegatePunish" where
  "newPunish delegateKey punish =
     \<lparr>dp_ID = 0, dp_LockHashStr = Hash_String (pu_LockHash punish), dp_DelegateKey = delegateKey,
      dp_AdditionalHashStr = Hash_String (pu_AdditionalHash punish), dp_Signature = pu_Signature punish\<rparr>"

text \<open>The loop: evidence whose lock hash is among the rows read before the loop is skipped.\<close>

fun savePunishes :: "env \<Rightarrow> byte list \<Rightarrow> string list \<Rightarrow> punishReq option list \<Rightarrow> error option action" where
  "savePunishes env delegateKey allMap [] = returnA None"
| "savePunishes env delegateKey allMap (p # ps) =
     (case p of None \<Rightarrow> panicA nilDeref | Some punish \<Rightarrow>
      if Hash_String (pu_LockHash punish) \<in> set allMap then savePunishes env delegateKey allMap ps
      else bindA (db_write env (insertPunish (newPunish delegateKey punish))) (\<lambda>err.
           case err of
             Some e \<Rightarrow> returnA (Some (Wrapped ''db err when add DelegatePunish : '' e))
           | None \<Rightarrow> savePunishes env delegateKey allMap ps))"

definition appendDelegatePunish :: "env \<Rightarrow> byte list \<Rightarrow> punishReq option list \<Rightarrow> (error + int) action" where
  "appendDelegatePunish env delegateKey newPunishes =
     bindA (db_query env (\<lambda>db. Inr (gorm_where blankList dp_DelegateKey delegateKey (tPunish db)))) (\<lambda>r.
     case r of Inl e \<Rightarrow> returnA (Inl (Wrapped ''db err when find DelegatePunish : '' e)) | Inr all_rows \<Rightarrow>
     bindA (savePunishes env delegateKey (map dp_LockHashStr all_rows) newPunishes) (\<lambda>err.
     case err of Some e \<Rightarrow> returnA (Inl e) | None \<Rightarrow>
     returnA (Inr (if length all_rows > 0 \<or> length newPunishes > 0 then 0 + SmtPunish (env_params env) else 0))))"

definition newDispose :: "byte list \<Rightarrow> annouceDisposed \<Rightarrow> delegateAnnounceDispose" where
  "newDispose delegateKey ad =
     \<lparr>da_ID = 0, da_LockSecretHashStr = Hash_String (ad_LockSecretHash ad), da_DelegateKey = delegateKey\<rparr>"

fun saveDisposes :: "env \<Rightarrow> byte list \<Rightarrow> string list \<Rightarrow> annouceDisposed option list \<Rightarrow> error option action" where
  "saveDisposes env delegateKey allMap [] = returnA None"
| "saveDisposes env delegateKey allMap (p # ps) =
     (case p of None \<Rightarrow> panicA nilDeref | Some ad \<Rightarrow>
      if Hash_String (ad_LockSecretHash ad) \<in> set allMap then saveDisposes env delegateKey allMap ps
      else bindA (db_write env (insertDispose (newDispose delegateKey ad))) (\<lambda>err.
           case err of
             Some e \<Rightarrow> returnA (Some (Wrapped ''db err when add DelegateAnnounceDispose : '' e))
           | None \<Rightarrow> saveDisposes env delegateKey allMap ps))"

definition appendDelegateAnnounceDispose ::
    "env \<Rightarrow> byte list \<Rightarrow> annouceDisposed option list \<Rightarrow> error option action" where
  "appendDelegateAnnounceDispose env delegateKey newAnnounceDisposes =
     (if length newAnnounceDisposes \<le> 0 then returnA None else
      bindA (db_query env (\<lambda>db. Inr (gorm_where blankList da_DelegateKey delegateKey (tDispose db)))) (\<lambda>r.
      case r of Inl e \<Rightarrow> returnA (Some (Wrapped ''db err when find DelegateAnnounceDispose : '' e))
      | Inr all_rows \<Rightarrow>
          saveDisposes env delegateKey (map da_LockSecretHashStr all_rows) newAnnounceDisposes))"

subsection \<open>The delegation\<close>

text \<open>The branch \<open>isFirst\<close>: the whole row is filled in, and scheduled if the channel is closed.\<close>

definition firstDelegate :: "env \<Rightarrow> channelFor3rd \<Rightarrow> Address \<Rightarrow> int \<Rightarrow> delegate action" where
  "firstDelegate env c delegator lastBlockNumber =
     bindA (now env) (\<lambda>t.
     let d = \<lparr>d_Key = BuildDelegateKey (c_ChannelIdentifier c) delegator,
              d_ChannelIdentifierStr = Hash_String (c_ChannelIdentifier c),
              d_OpenBlockNumber = c_OpenBlockNumber c,
              d_TokenAddressStr = Address_Hex (env_keccak env) (c_TokenAddress c),
              d_DelegatorAddressStr = Address_Hex (env_keccak env) delegator,
              d_PartnerAddressStr = Address_Hex (env_keccak env) (c_PartnerAddress c),
              d_SettleBlockNumber = c_settleBlockNumber c,
              d_DelegateTimestamp = t, d_DelegateBlockNumber = lastBlockNumber,
              d_Status = DelegateStatusInit, d_Error = '''', d_NeedSMTStr = '''',
              d_UpdateBalanceProofGob = None, d_UnlocksGob = None, d_SecretsGob = None\<rparr>;
         d = SetUpdateBalanceProof (GetDelegateUpdateBalanceProof c) d in
     bindA (outcomeA (GetDelegateUnlocks c)) (\<lambda>us.
     let d = SetUnlocks us d in
     bindA (if c_settleBlockNumber c > 0 then AddDelegateMonitorInTx env d else returnA ()) (\<lambda>_.
     returnA d)))"

text \<open>
  The other branch: the opening block must agree; while the delegation is in state Init a balance
  proof that is not older replaces the stored one.  The two checks are off in debug mode.
\<close>

definition existingDelegate :: "env \<Rightarrow> channelFor3rd \<Rightarrow> int \<Rightarrow> delegate \<Rightarrow> (error + delegate) action" where
  "existingDelegate env c lastBlockNumber d =
     (if \<not> DebugMode (env_params env) \<and> c_OpenBlockNumber c \<noteq> d_OpenBlockNumber d
      then returnA (Inl (OpenBlockNumberNotEqual (d_OpenBlockNumber d) (c_OpenBlockNumber c)))
      else
        bindA
          (if d_Status d = DelegateStatusInit then
             bindA (if DebugMode (env_params env) then returnA None
                    else bindA (outcomeA (UpdateBalanceProof d)) (\<lambda>u.
                         returnA (if du_Nonce u > ut_Nonce (c_UpdateTransfer c)
                                  then Some (OlderNonce (du_Nonce u) (ut_Nonce (c_UpdateTransfer c))) else None))) (\<lambda>older.
             case older of Some e \<Rightarrow> returnA (Inl e) | None \<Rightarrow>
             let d = SetUpdateBalanceProof (GetDelegateUpdateBalanceProof c) d in
             bindA (outcomeA (GetDelegateUnlocks c)) (\<lambda>us. returnA (Inr (SetUnlocks us d))))
           else returnA (Inr d)) (\<lambda>r.
        case r of Inl e \<Rightarrow> returnA (Inl e) | Inr d \<Rightarrow>
        bindA (now env) (\<lambda>t.
        returnA (Inr (d\<lparr>d_DelegateTimestamp := t, d_DelegateBlockNumber := lastBlockNumber\<rparr>)))))"

text \<open>Steps 2.5 to 4: secrets, fee, \<open>Save\<close>.\<close>

definition finishDelegate ::
    "env \<Rightarrow> channelFor3rd \<Rightarrow> int \<Rightarrow> delegate \<Rightarrow> int \<Rightarrow> (error + delegate \<times> int) action" where
  "finishDelegate env c newSMT4Punish d oldNeedSMT =
     bindA (outcomeA (GetDeleteSecrets c)) (\<lambda>ss.
     bindA (outcomeA (CalcNeedSMT (env_params env) newSMT4Punish (SetSecrets ss d))) (\<lambda>d.
     bindA (db_write env (saveDelegate d)) (\<lambda>err.
     returnA (case err of
         None \<Rightarrow> Inr (d, oldNeedSMT)
       | Some e \<Rightarrow> Inl (Wrapped ''db err when update Delegate : '' e)))))"

definition updateDelegate ::
    "env \<Rightarrow> channelFor3rd \<Rightarrow> Address \<Rightarrow> int \<Rightarrow> int \<Rightarrow> (error + delegate \<times> int) action" where
  "updateDelegate env c delegator lastBlockNumber newSMT4Punish =
     bindA (db_query env (\<lambda>db. gorm_find (gorm_where blankList d_Key
       (BuildDelegateKey (c_ChannelIdentifier c) delegator) (tDelegate db)))) (\<lambda>r.
     case r of
       Inl ErrRecordNotFound \<Rightarrow>
         bindA (firstDelegate env c delegator lastBlockNumber) (\<lambda>d.
         finishDelegate env c newSMT4Punish d 0)
     | Inl e \<Rightarrow> returnA (Inl (Wrapped ''err when find Delegate from db : '' e))
     | Inr d \<Rightarrow>
         let oldNeedSMT = NeedSMT d in
         bindA (existingDelegate env c lastBlockNumber d) (\<lambda>r.
         case r of Inl e \<Rightarrow> returnA (Inl e) | Inr d \<Rightarrow>
         finishDelegate env c newSMT4Punish d oldNeedSMT))"

text \<open>Neither \<open>accountSanity\<close> nor a sign check is applied to the new \<open>NeedSmt\<close>.\<close>

definition updateAccountSMT :: "env \<Rightarrow> Address \<Rightarrow> int \<Rightarrow> int \<Rightarrow> unit action" where
  "updateAccountSMT env delegator oldSmt newSmt =
     (if oldSmt = newSmt then returnA () else
      bindA (GetAccountInTx env delegator) (\<lambda>a.
      let a = a\<lparr>a_NeedSmt := a_NeedSmt a + newSmt\<rparr>;
          a = a\<lparr>a_NeedSmt := a_NeedSmt a - oldSmt\<rparr> in
      bindA (db_write env (saveAccount (toSerialization a))) (\<lambda>err.
      case err of None \<Rightarrow> returnA () | Some e \<Rightarrow> panicA (''db err '' @ errText e))))"

definition ReceiveDelegate :: "env \<Rightarrow> channelFor3rd \<Rightarrow> Address \<Rightarrow> (error + unit) action" where
  "ReceiveDelegate env c delegator =
     bindA (GetLatestBlockNumber env) (\<lambda>lastBlockNumber.
     transaction env
       (let delegateKey = BuildDelegateKey (c_ChannelIdentifier c) delegator in
        bindA (appendDelegatePunish env delegateKey (c_Punishes c)) (\<lambda>r.
        case r of Inl e \<Rightarrow> returnA (Inl e) | Inr newSMT4Punish \<Rightarrow>
        bindA (appendDelegateAnnounceDispose env delegateKey (c_AnnouceDisposed c)) (\<lambda>err.
        case err of Some e \<Rightarrow> returnA (Inl e) | None \<Rightarrow>
        bindA (updateDelegate env c delegator lastBlockNumber newSMT4Punish) (\<lambda>r.
        case r of Inl e \<Rightarrow> returnA (Inl e) | Inr (d, oldNeedSMT) \<Rightarrow>
        bindA (updateAccountSMT env delegator oldNeedSMT (NeedSMT d)) (\<lambda>_.
        returnA (Inr ())))))))"

subsection \<open>The steps, when no statement fails\<close>

text \<open>
  A request without nil entries, as a client that fills in every list element sends it; the fees
  are not negative.
\<close>

definition request_ok :: "channelFor3rd \<Rightarrow> bool" where
  "request_ok c \<longleftrightarrow> None \<notin> set (c_Punishes c) \<and> None \<notin> set (c_AnnouceDisposed c) \<and>
     (\<exists>us. GetDelegateUnlocks c = Ret us) \<and> (\<exists>ss. GetDeleteSecrets c = Ret ss)"

definition fees_ok :: "params \<Rightarrow> bool" where
  "fees_ok p \<longleftrightarrow> 0 \<le> SmtUnlock p \<and> 0 \<le> SmtUpdateTransfer p \<and> 0 \<le> SmtPunish p \<and> 0 \<le> SmtSecret p"

text \<open>The evidence that is new with respect to the rows of the delegation.\<close>

definition freshPunishes :: "byte list \<Rightarrow> punishReq option list \<Rightarrow> delegatePunish list \<Rightarrow> delegatePunish list" where
  "freshPunishes k ps rows =
     map (\<lambda>p. newPunish k (the p)) (filter (\<lambda>p. Hash_String (pu_LockHash (the p)) \<notin>
       dp_LockHashStr ` set (filter (\<lambda>r. dp_DelegateKey r = k) rows)) ps)"

definition freshDisposes ::
    "byte list \<Rightarrow> annouceDisposed option list \<Rightarrow> delegateAnnounceDispose list \<Rightarrow> delegateAnnounceDispose list" where
  "freshDisposes k ps rows =
     map (\<lambda>p. newDispose k (the p)) (filter (\<lambda>p. Hash_String (ad_LockSecretHash (the p)) \<notin>
       da_LockSecretHashStr ` set (filter (\<lambda>r. da_DelegateKey r = k) rows)) ps)"

lemma savePunishes_ok:
  assumes "no_faults env" "None \<notin> set ps"
  shows "\<exists>rows n. savePunishes env k known ps w =
     (Ret None, w\<lparr>clock := n, store := (store w)\<lparr>tPunish := tPunish (store w) @ rows,
        seqPunish := seqPunish (store w) + length rows\<rparr>\<rparr>) \<and>
     map (\<lambda>r. r\<lparr>dp_ID := 0\<rparr>) rows =
       map (\<lambda>p. newPunish k (the p)) (filter (\<lambda>p. Hash_String (pu_LockHash (the p)) \<notin> set known) ps)"
  using assms(2)
proof (induction ps arbitrary: w)
  case Nil
  show ?case by (intro exI [of _ "[]"] exI [of _ "clock w"]) simp
next
  case (Cons p ps)
  then obtain x where p: "p = Some x" by (cases p) auto
  show ?case
  proof (cases "Hash_String (pu_LockHash x) \<in> set known")
    case True
    with Cons p show ?thesis by auto
  next
    case False
    let ?r = "(newPunish k x)\<lparr>dp_ID := Suc (seqPunish (store w))\<rparr>"
    let ?w = "(tick w)\<lparr>store := insertPunish (newPunish k x) (store w)\<rparr>"
    obtain rows n where "savePunishes env k known ps ?w =
       (Ret None, ?w\<lparr>clock := n, store := (store ?w)\<lparr>tPunish := tPunish (store ?w) @ rows,
          seqPunish := seqPunish (store ?w) + length rows\<rparr>\<rparr>)"
       "map (\<lambda>r. r\<lparr>dp_ID := 0\<rparr>) rows =
       map (\<lambda>p. newPunish k (the p)) (filter (\<lambda>p. Hash_String (pu_LockHash (the p)) \<notin> set known) ps)"
      using Cons.IH [of ?w] Cons.prems by auto
    with False p assms(1) show ?thesis
      by (intro exI [of _ "?r # rows"] exI [of _ n]) (auto simp: insertPunish_def newPunish_def)
  qed
qed

lemma saveDisposes_ok:
  assumes "no_faults env" "None \<notin> set ps"
  shows "\<exists>rows n. saveDisposes env k known ps w =
     (Ret None, w\<lparr>clock := n, store := (store w)\<lparr>tDispose := tDispose (store w) @ rows,
        seqDispose := seqDispose (store w) + length rows\<rparr>\<rparr>) \<and>
     map (\<lambda>r. r\<lparr>da_ID := 0\<rparr>) rows =
       map (\<lambda>p. newDispose k (the p)) (filter (\<lambda>p. Hash_String (ad_LockSecretHash (the p)) \<notin> set known) ps)"
  using assms(2)
proof (induction ps arbitrary: w)
  case Nil
  show ?case by (intro exI [of _ "[]"] exI [of _ "clock w"]) simp
next
  case (Cons p ps)
  then obtain x where p: "p = Some x" by (cases p) auto
  show ?case
  proof (cases "Hash_String (ad_LockSecretHash x) \<in> set known")
    case True
    with Cons p show ?thesis by auto
  next
    case False
    let ?r = "(newDispose k x)\<lparr>da_ID := Suc (seqDispose (store w))\<rparr>"
    let ?w = "(tick w)\<lparr>store := insertDispose (newDispose k x) (store w)\<rparr>"
    obtain rows n where "saveDisposes env k known ps ?w =
       (Ret None, ?w\<lparr>clock := n, store := (store ?w)\<lparr>tDispose := tDispose (store ?w) @ rows,
          seqDispose := seqDispose (store ?w) + length rows\<rparr>\<rparr>)"
       "map (\<lambda>r. r\<lparr>da_ID := 0\<rparr>) rows =
       map (\<lambda>p. newDispose k (the p)) (filter (\<lambda>p. Hash_String (ad_LockSecretHash (the p)) \<notin> set known) ps)"
      using Cons.IH [of ?w] Cons.prems by auto
    with False p assms(1) show ?thesis
      by (intro exI [of _ "?r # rows"] exI [of _ n]) (auto simp: insertDispose_def newDispose_def)
  qed
qed

text \<open>What the first two steps leave behind: only the two evidence tables grow.\<close>

definition evidenceAdded :: "byte list \<Rightarrow> channelFor3rd \<Rightarrow> modeldb \<Rightarrow> modeldb \<Rightarrow> bool" where
  "evidenceAdded k c db db' \<longleftrightarrow>
     (\<exists>ps ds. tPunish db' = tPunish db @ ps \<and> tDispose db' = tDispose db @ ds \<and>
        map (\<lambda>r. r\<lparr>dp_ID := 0\<rparr>) ps = freshPunishes k (c_Punishes c) (tPunish db) \<and>
        map (\<lambda>r. r\<lparr>da_ID := 0\<rparr>) ds = freshDisposes k (c_AnnouceDisposed c) (tDispose db))"

definition punishFee :: "params \<Rightarrow> byte list \<Rightarrow> channelFor3rd \<Rightarrow> modeldb \<Rightarrow> int" where
  "punishFee p k c db =
     (if c_Punishes c \<noteq> [] \<or> (\<exists>r \<in> set (tPunish db). dp_DelegateKey r = k) then SmtPunish p else 0)"

lemma appendDelegatePunish_ok:
  assumes "no_faults env" "None \<notin> set ps" "k \<noteq> []"
  shows "\<exists>rows n. appendDelegatePunish env k ps w =
     (Ret (Inr (if ps \<noteq> [] \<or> (\<exists>r \<in> set (tPunish (store w)). dp_DelegateKey r = k) then SmtPunish (env_params env) else 0)),
      w\<lparr>clock := n, store := (store w)\<lparr>tPunish := tPunish (store w) @ rows,
        seqPunish := seqPunish (store w) + length rows\<rparr>\<rparr>) \<and>
     map (\<lambda>r. r\<lparr>dp_ID := 0\<rparr>) rows = freshPunishes k ps (tPunish (store w))"
proof -
  let ?old = "filter (\<lambda>r. dp_DelegateKey r = k) (tPunish (store w))"
  obtain rows n where "savePunishes env k (map dp_LockHashStr ?old) ps (tick w) =
     (Ret None, (tick w)\<lparr>clock := n, store := (store w)\<lparr>tPunish := tPunish (store w) @ rows,
        seqPunish := seqPunish (store w) + length rows\<rparr>\<rparr>)"
     "map (\<lambda>r. r\<lparr>dp_ID := 0\<rparr>) rows = freshPunishes k ps (tPunish (store w))"
    using savePunishes_ok [OF assms(1,2), of k "map dp_LockHashStr ?old" "tick w"]
    by (auto simp: freshPunishes_def)
  moreover have "(\<exists>r \<in> set (tPunish (store w)). dp_DelegateKey r = k) \<longleftrightarrow> ?old \<noteq> []"
    by (auto simp: filter_empty_conv)
  ultimately show ?thesis
    using assms by (intro exI [of _ rows] exI [of _ n]) (auto simp: appendDelegatePunish_def gorm_where_def)
qed

lemma appendDelegateAnnounceDispose_ok:
  assumes "no_faults env" "None \<notin> set ps" "k \<noteq> []"
  shows "\<exists>rows n. appendDelegateAnnounceDispose env k ps w =
     (Ret None, w\<lparr>clock := n, store := (store w)\<lparr>tDispose := tDispose (store w) @ rows,
        seqDispose := seqDispose (store w) + length rows\<rparr>\<rparr>) \<and>
     map (\<lambda>r. r\<lparr>da_ID := 0\<rparr>) rows = freshDisposes k ps (tDispose (store w))"
proof (cases "ps = []")
  case True
  then show ?thesis
    by (intro exI [of _ "[]"] exI [of _ "clock w"])
      (simp add: appendDelegateAnnounceDispose_def freshDisposes_def)
next
  case False
  let ?old = "filter (\<lambda>r. da_DelegateKey r = k) (tDispose (store w))"
  show ?thesis
    using saveDisposes_ok [OF assms(1,2), of k "map da_LockSecretHashStr ?old" "tick w"] False assms
    by (auto simp: appendDelegateAnnounceDispose_def gorm_where_def freshDisposes_def)
qed

lemma AddDelegateMonitorInTx_run:
  assumes "no_faults env"
  shows "\<exists>mons n. AddDelegateMonitorInTx env d w = (Ret (), w\<lparr>clock := n, store := (store w)\<lparr>tMonitor := mons\<rparr>\<rparr>) \<and>
     (fresh_keys env w \<longrightarrow> mons = tMonitor (store w) @ schedule env d (clock w))"
proof (cases "fresh_keys env w")
  case True
  with AddDelegateMonitorInTx_ok [OF assms True] show ?thesis by auto
next
  case False
  then show ?thesis
    using assms by (auto simp: AddDelegateMonitorInTx_def saveMonitor_def Let_def)
qed

definition delegationFee ::
    "params \<Rightarrow> delegateUpdateBalanceProof \<Rightarrow> delegateUnlock list \<Rightarrow> delegateSecret list \<Rightarrow> int \<Rightarrow> int" where
  "delegationFee p u us ss smt4Punish =
     (if du_Nonce u > 0 then SmtUpdateTransfer p else 0) +
       int (length us) * SmtUnlock p + int (length ss) * SmtSecret p + smt4Punish"

lemma delegationFee_nonneg: "fees_ok p \<Longrightarrow> 0 \<le> smt4Punish \<Longrightarrow> 0 \<le> delegationFee p u us ss smt4Punish"
  by (simp add: delegationFee_def fees_ok_def)

lemma CalcNeedSMT_eq:
  "UpdateBalanceProof d = Ret u \<Longrightarrow> Unlocks d = Ret us \<Longrightarrow> Secrets d = Ret ss \<Longrightarrow>
   CalcNeedSMT p x d = Ret (d\<lparr>d_NeedSMTStr := BigIntToString (Some (delegationFee p u us ss x))\<rparr>)"
  by (simp add: CalcNeedSMT_def delegationFee_def Let_def)

lemma finishDelegate_ok:
  fixes x old :: int
  assumes "no_faults env" "GetDeleteSecrets c = Ret ss" "UpdateBalanceProof d = Ret u" "Unlocks d = Ret us"
  defines "d' \<equiv> d\<lparr>d_SecretsGob := Some ss,
     d_NeedSMTStr := BigIntToString (Some (delegationFee (env_params env) u us ss x))\<rparr>"
  shows "finishDelegate env c x d old w = (Ret (Inr (d', old)), (tick w)\<lparr>store := saveDelegate d' (store w)\<rparr>)"
proof -
  have "UpdateBalanceProof (SetSecrets ss d) = Ret u" "Unlocks (SetSecrets ss d) = Ret us"
    "Secrets (SetSecrets ss d) = Ret ss"
    using assms(3,4) by (simp_all add: UpdateBalanceProof_def Unlocks_def Secrets_def SetSecrets_def gobDecode_def)
  from CalcNeedSMT_eq [OF this] show ?thesis
    using assms(1,2) by (simp add: finishDelegate_def d'_def SetSecrets_def)
qed

text \<open>The row of a first delegation.\<close>

definition firstRow :: "env \<Rightarrow> channelFor3rd \<Rightarrow> Address \<Rightarrow> delegateUnlock list \<Rightarrow> delegateSecret list \<Rightarrow> int \<Rightarrow>
    int \<Rightarrow> delegate" where
  "firstRow env c delegator us ss x t =
     \<lparr>d_Key = BuildDelegateKey (c_ChannelIdentifier c) delegator,
      d_ChannelIdentifierStr = Hash_String (c_ChannelIdentifier c),
      d_OpenBlockNumber = c_OpenBlockNumber c,
      d_TokenAddressStr = Address_Hex (env_keccak env) (c_TokenAddress c),
      d_DelegatorAddressStr = Address_Hex (env_keccak env) delegator,
      d_PartnerAddressStr = Address_Hex (env_keccak env) (c_PartnerAddress c),
      d_SettleBlockNumber = c_settleBlockNumber c,
      d_DelegateTimestamp = t, d_DelegateBlockNumber = 0,
      d_Status = DelegateStatusInit, d_Error = '''',
      d_NeedSMTStr = BigIntToString (Some (delegationFee (env_params env) (GetDelegateUpdateBalanceProof c) us ss x)),
      d_UpdateBalanceProofGob = Some (GetDelegateUpdateBalanceProof c), d_UnlocksGob = Some us,
      d_SecretsGob = Some ss\<rparr>"

text \<open>The row of an update: the proof and the locks change in state Init only.\<close>

definition updatedRow :: "env \<Rightarrow> channelFor3rd \<Rightarrow> delegateUnlock list \<Rightarrow> delegateSecret list \<Rightarrow> int \<Rightarrow> int \<Rightarrow>
    delegate \<Rightarrow> delegate" where
  "updatedRow env c us ss x t d =
     (let d1 = (if d_Status d = DelegateStatusInit
                then d\<lparr>d_UpdateBalanceProofGob := Some (GetDelegateUpdateBalanceProof c), d_UnlocksGob := Some us\<rparr>
                else d)
      in d1\<lparr>d_DelegateTimestamp := t, d_DelegateBlockNumber := 0, d_SecretsGob := Some ss,
            d_NeedSMTStr := BigIntToString (Some (delegationFee (env_params env)
              (the (d_UpdateBalanceProofGob d1)) (the (d_UnlocksGob d1)) ss x))\<rparr>)"

lemma updateDelegate_first:
  assumes "no_faults env" "delegates_ok (store w)" "GetDelegateUnlocks c = Ret us" "GetDeleteSecrets c = Ret ss"
    and "delegateBy (BuildDelegateKey (c_ChannelIdentifier c) delegator) (store w) = None"
  shows "\<exists>mons n t. updateDelegate env c delegator 0 x w =
     (Ret (Inr (firstRow env c delegator us ss x t, 0)), w\<lparr>clock := n,
        store := saveDelegate (firstRow env c delegator us ss x t) ((store w)\<lparr>tMonitor := mons\<rparr>)\<rparr>) \<and>
     (c_settleBlockNumber c \<le> 0 \<longrightarrow> mons = tMonitor (store w)) \<and>
     (c_settleBlockNumber c > 0 \<longrightarrow> (\<forall>k. fresh_keys env (w\<lparr>clock := k\<rparr>)) \<longrightarrow>
        (\<exists>m. mons = tMonitor (store w) @ schedule env (firstRow env c delegator us ss x t) m))"
proof -
  define k where "k = BuildDelegateKey (c_ChannelIdentifier c) delegator"
  define t where "t = env_now env (Suc (clock w))"
  define d where "d = (firstRow env c delegator us ss x t)\<lparr>d_NeedSMTStr := '''', d_SecretsGob := None\<rparr>"
  let ?w = "w\<lparr>clock := Suc (Suc (clock w))\<rparr>"
  have "\<exists>mons n. (if c_settleBlockNumber c > 0 then AddDelegateMonitorInTx env d else returnA ()) ?w =
      (Ret (), w\<lparr>clock := n, store := (store w)\<lparr>tMonitor := mons\<rparr>\<rparr>) \<and>
      (c_settleBlockNumber c \<le> 0 \<longrightarrow> mons = tMonitor (store w)) \<and>
      (c_settleBlockNumber c > 0 \<longrightarrow> fresh_keys env ?w \<longrightarrow> mons = tMonitor (store w) @ schedule env d (clock ?w))"
    using AddDelegateMonitorInTx_run [OF assms(1), of d ?w]
    by (cases "c_settleBlockNumber c > 0") (auto intro!: exI [of _ "Suc (Suc (clock w))"])
  then obtain mons n where mons: "(if c_settleBlockNumber c > 0 then AddDelegateMonitorInTx env d else returnA ()) ?w =
      (Ret (), w\<lparr>clock := n, store := (store w)\<lparr>tMonitor := mons\<rparr>\<rparr>)"
      "c_settleBlockNumber c \<le> 0 \<longrightarrow> mons = tMonitor (store w)"
      "c_settleBlockNumber c > 0 \<longrightarrow> fresh_keys env ?w \<longrightarrow> mons = tMonitor (store w) @ schedule env d (clock ?w)"
    by blast
  let ?w' = "w\<lparr>clock := n, store := (store w)\<lparr>tMonitor := mons\<rparr>\<rparr>"
  have "firstDelegate env c delegator 0 (tick w) =
      bindA (if c_settleBlockNumber c > 0 then AddDelegateMonitorInTx env d else returnA ()) (\<lambda>_. returnA d) ?w"
    using assms(3)
    by (simp add: firstDelegate_def Let_def SetUpdateBalanceProof_def SetUnlocks_def d_def firstRow_def t_def)
  then have "firstDelegate env c delegator 0 (tick w) = (Ret d, ?w')"
    using mons(1) by (simp add: bindA_def split: if_splits)
  moreover have "UpdateBalanceProof d = Ret (GetDelegateUpdateBalanceProof c)" "Unlocks d = Ret us"
    by (simp_all add: d_def firstRow_def UpdateBalanceProof_def Unlocks_def gobDecode_def)
  ultimately have "updateDelegate env c delegator 0 x w =
     (Ret (Inr (firstRow env c delegator us ss x t, 0)), (tick ?w')\<lparr>store :=
        saveDelegate (firstRow env c delegator us ss x t) (store ?w')\<rparr>)"
    using assms finishDelegate_ok [OF assms(1,4), of d "GetDelegateUpdateBalanceProof c" us x 0 ?w']
    by (simp add: updateDelegate_def gorm_find_where_key delegates_ok_def) (simp add: d_def firstRow_def)
  moreover have "schedule env d m = schedule env (firstRow env c delegator us ss x t) m" for m
    by (simp add: schedule_def d_def firstRow_def)
  ultimately show ?thesis
    using mons(2,3) by (intro exI [of _ mons] exI [of _ "Suc n"] exI [of _ t]) auto
qed

lemma updateDelegate_existing:
  assumes "no_faults env" "delegates_ok (store w)" "GetDelegateUnlocks c = Ret us" "GetDeleteSecrets c = Ret ss"
    and "delegateBy (BuildDelegateKey (c_ChannelIdentifier c) delegator) (store w) = Some d"
    and "DebugMode (env_params env) \<or> c_OpenBlockNumber c = d_OpenBlockNumber d"
    and "DebugMode (env_params env) \<or> d_Status d \<noteq> DelegateStatusInit \<or>
       du_Nonce (the (d_UpdateBalanceProofGob d)) \<le> ut_Nonce (c_UpdateTransfer c)"
  shows "\<exists>n t. updateDelegate env c delegator 0 x w =
     (Ret (Inr (updatedRow env c us ss x t d, NeedSMT d)), w\<lparr>clock := n,
        store := saveDelegate (updatedRow env c us ss x t d) (store w)\<rparr>)"
proof -
  from assms(2,5) have "delegate_ok d" by (auto simp: delegates_ok_def dest: rowBy_Some)
  then obtain u us0 ss0 where g: "d_UpdateBalanceProofGob d = Some u" "d_UnlocksGob d = Some us0"
    by (auto simp: delegate_ok_def)
  define t where "t = env_now env (Suc (clock w))"
  define d1 where "d1 = (if d_Status d = DelegateStatusInit
      then d\<lparr>d_UpdateBalanceProofGob := Some (GetDelegateUpdateBalanceProof c), d_UnlocksGob := Some us\<rparr> else d)"
  define d2 where "d2 = d1\<lparr>d_DelegateTimestamp := t, d_DelegateBlockNumber := 0\<rparr>"
  have "existingDelegate env c 0 d (tick w) = (Ret (Inr d2), tick (tick w))"
    using assms(3,6,7) g
    by (auto simp: existingDelegate_def d2_def d1_def t_def UpdateBalanceProof_def gobDecode_def Let_def
        SetUpdateBalanceProof_def SetUnlocks_def)
  moreover have "UpdateBalanceProof d2 = Ret (the (d_UpdateBalanceProofGob d1))" "Unlocks d2 = Ret (the (d_UnlocksGob d1))"
    using g by (simp_all add: d2_def d1_def UpdateBalanceProof_def Unlocks_def gobDecode_def)
  ultimately show ?thesis
    using assms(1,2,5) finishDelegate_ok [OF assms(1,4), of d2 _ _ x "NeedSMT d" "tick (tick w)"]
    by (intro exI [of _ "clock w + 3"] exI [of _ t])
      (simp add: updateDelegate_def gorm_find_where_key delegates_ok_def Let_def updatedRow_def d2_def d1_def)
qed

lemma updateDelegate_refused:
  assumes "no_faults env" "delegates_ok (store w)"
    and "delegateBy (BuildDelegateKey (c_ChannelIdentifier c) delegator) (store w) = Some d"
    and "\<not> DebugMode (env_params env)"
    and "c_OpenBlockNumber c \<noteq> d_OpenBlockNumber d \<or> (d_Status d = DelegateStatusInit \<and>
       ut_Nonce (c_UpdateTransfer c) < du_Nonce (the (d_UpdateBalanceProofGob d)))"
  shows "updateDelegate env c delegator 0 x w =
     (Ret (Inl (if c_OpenBlockNumber c \<noteq> d_OpenBlockNumber d
       then OpenBlockNumberNotEqual (d_OpenBlockNumber d) (c_OpenBlockNumber c)
       else OlderNonce (du_Nonce (the (d_UpdateBalanceProofGob d))) (ut_Nonce (c_UpdateTransfer c)))), tick w)"
proof -
  from assms(2,3) have "delegate_ok d" by (auto simp: delegates_ok_def dest: rowBy_Some)
  then obtain u where "d_UpdateBalanceProofGob d = Some u" by (auto simp: delegate_ok_def)
  with assms show ?thesis
    by (auto simp: updateDelegate_def gorm_find_where_key delegates_ok_def Let_def existingDelegate_def
        UpdateBalanceProof_def gobDecode_def)
qed

lemma toSerialization_need: "toSerialization (a\<lparr>a_NeedSmt := x\<rparr>) = toSerialization (a\<lparr>a_NeedSmt := \<bar>x\<bar>\<rparr>)"
  by (simp add: toSerialization_def BigInt_Bytes_def)

lemma updateAccountSMT_ok:
  assumes "no_faults env" "accounts_ok (store w)"
  shows "\<exists>w'. updateAccountSMT env addr old new w = (Ret (), w') \<and> accounts_ok (store w') \<and>
     otherThan addr w' = otherThan addr w \<and> accountOf addr (store w') =
       (accountOf addr (store w))\<lparr>a_NeedSmt := \<bar>a_NeedSmt (accountOf addr (store w)) + new - old\<bar>\<rparr>"
proof (cases "old = new")
  case True
  with assms show ?thesis by (simp add: updateAccountSMT_def)
next
  case False
  let ?a = "accountOf addr (store w)"
  let ?a' = "?a\<lparr>a_NeedSmt := \<bar>a_NeedSmt ?a + new - old\<bar>\<rparr>"
  have "nonneg ?a'" "solvent ?a'" "a_Address ?a' = word_bytes addr"
    using accountOf_solvent [OF assms(2), of addr] by (simp_all add: nonneg_def solvent_def)
  from saved_account [OF this assms(2), of "Suc (Suc (clock w))"] show ?thesis
    using False assms(1,2) toSerialization_need [where a = ?a and x = "a_NeedSmt ?a + new - old"]
    by (simp add: updateAccountSMT_def GetAccountInTx_eq Let_def)
qed

lemma ReceiveDelegate_steps:
  fixes c delegator
  assumes "no_faults env" "request_ok c"
  defines "k \<equiv> BuildDelegateKey (c_ChannelIdentifier c) delegator"
  shows "\<exists>n ps ds db. db = (store w)\<lparr>tPunish := tPunish (store w) @ ps, seqPunish := seqPunish (store w) + length ps,
       tDispose := tDispose (store w) @ ds, seqDispose := seqDispose (store w) + length ds\<rparr> \<and>
     evidenceAdded k c (store w) db \<and>
     (\<forall>r w2. updateDelegate env c delegator 0 (punishFee (env_params env) k c (store w)) (w\<lparr>clock := n, store := db\<rparr>) = (Ret r, w2) \<longrightarrow>
        (\<forall>e. r = Inl e \<longrightarrow> (\<exists>w'. ReceiveDelegate env c delegator w = (Ret (Inl e), w') \<and> store w' = store w)) \<and>
        (\<forall>d old w3. r = Inr (d, old) \<and> updateAccountSMT env delegator old (NeedSMT d) w2 = (Ret (), w3) \<longrightarrow>
           ReceiveDelegate env c delegator w = (Ret (Inr ()), tick w3)))"
proof -
  have k: "k \<noteq> []" by (simp add: k_def)
  from assms(2) have nil: "None \<notin> set (c_Punishes c)" "None \<notin> set (c_AnnouceDisposed c)"
    by (simp_all add: request_ok_def)
  obtain ps n1 where ps: "appendDelegatePunish env k (c_Punishes c) (tick w) =
      (Ret (Inr (punishFee (env_params env) k c (store w))), w\<lparr>clock := n1, store := (store w)\<lparr>
         tPunish := tPunish (store w) @ ps, seqPunish := seqPunish (store w) + length ps\<rparr>\<rparr>)"
      "map (\<lambda>r. r\<lparr>dp_ID := 0\<rparr>) ps = freshPunishes k (c_Punishes c) (tPunish (store w))"
    using appendDelegatePunish_ok [OF assms(1) nil(1) k, of "tick w"] by (auto simp: punishFee_def)
  let ?w1 = "w\<lparr>clock := n1, store := (store w)\<lparr>
         tPunish := tPunish (store w) @ ps, seqPunish := seqPunish (store w) + length ps\<rparr>\<rparr>"
  obtain ds n where ds: "appendDelegateAnnounceDispose env k (c_AnnouceDisposed c) ?w1 =
      (Ret None, ?w1\<lparr>clock := n, store := (store ?w1)\<lparr>tDispose := tDispose (store ?w1) @ ds,
         seqDispose := seqDispose (store ?w1) + length ds\<rparr>\<rparr>)"
      "map (\<lambda>r. r\<lparr>da_ID := 0\<rparr>) ds = freshDisposes k (c_AnnouceDisposed c) (tDispose (store w))"
    using appendDelegateAnnounceDispose_ok [OF assms(1) nil(2) k, of ?w1] by auto
  define db where "db = (store w)\<lparr>tPunish := tPunish (store w) @ ps, seqPunish := seqPunish (store w) + length ps,
       tDispose := tDispose (store w) @ ds, seqDispose := seqDispose (store w) + length ds\<rparr>"
  have ds1: "appendDelegateAnnounceDispose env k (c_AnnouceDisposed c) ?w1 = (Ret None, w\<lparr>clock := n, store := db\<rparr>)"
    using ds(1) by (simp add: db_def)
  have "evidenceAdded k c (store w) db"
    unfolding evidenceAdded_def
    by (intro exI [of _ ps] exI [of _ ds]) (simp add: db_def ps(2) ds(2))
  moreover have "(\<exists>w'. ReceiveDelegate env c delegator w = (Ret (Inl e), w') \<and> store w' = store w)"
    if "updateDelegate env c delegator 0 (punishFee (env_params env) k c (store w)) (w\<lparr>clock := n, store := db\<rparr>) = (Ret (Inl e), w2)"
    for e w2
    using that ps(1) ds1 by (simp add: ReceiveDelegate_def transaction_def Let_def k_def [symmetric])
  moreover have "ReceiveDelegate env c delegator w = (Ret (Inr ()), tick w3)"
    if "updateDelegate env c delegator 0 (punishFee (env_params env) k c (store w)) (w\<lparr>clock := n, store := db\<rparr>) = (Ret (Inr (d, old)), w2)"
      "updateAccountSMT env delegator old (NeedSMT d) w2 = (Ret (), w3)"
    for d old w2 w3
    using that ps(1) ds1 assms(1)
    by (simp add: ReceiveDelegate_def transaction_def Let_def k_def [symmetric] db_commit_def)
  ultimately show ?thesis
    using db_def by (intro exI [of _ n] exI [of _ ps] exI [of _ ds] exI [of _ db]) blast
qed

lemma firstRow_ok: "delegate_ok (firstRow env c delegator us ss x t)"
  by (simp add: delegate_ok_def firstRow_def ChannelIdentifier_def DelegatorAddress_def)

lemma NeedSMT_firstRow [simp]: "NeedSMT (firstRow env c delegator us ss x t) =
    delegationFee (env_params env) (GetDelegateUpdateBalanceProof c) us ss x"
  by (simp add: NeedSMT_def firstRow_def BigIntToString_def)

lemma updatedRow_ok: "delegate_ok d \<Longrightarrow> delegate_ok (updatedRow env c us ss x t d)"
  by (simp add: delegate_ok_def updatedRow_def ChannelIdentifier_def DelegatorAddress_def Let_def)

lemma updatedRow_sel [simp]:
  "d_Key (updatedRow env c us ss x t d) = d_Key d" "d_Status (updatedRow env c us ss x t d) = d_Status d"
  by (simp_all add: updatedRow_def Let_def)

text \<open>
  Booking the fee after the row \<open>d\<close> is saved: the account's need moves by the difference and every
  table but the accounts is the one with the saved row.
\<close>

lemma save_then_book:
  fixes delegator :: Address and old :: int
  assumes env: "no_faults env" and ok: "accounts_ok db" "delegates_ok db" "delegate_ok d"
  shows "\<exists>w3. updateAccountSMT env delegator old (NeedSMT d) (w\<lparr>clock := n, store := saveDelegate d db\<rparr>) = (Ret (), w3) \<and>
     accounts_ok (store w3) \<and> delegates_ok (store w3) \<and>
     (\<forall>j. delegateBy j (store w3) = (if j = d_Key d then Some d else delegateBy j db)) \<and>
     tPunish (store w3) = tPunish db \<and> tDispose (store w3) = tDispose db \<and> tMonitor (store w3) = tMonitor db \<and>
     (\<forall>b. accountOf b (store w3) = (if b = delegator
        then (accountOf b db)\<lparr>a_NeedSmt := \<bar>a_NeedSmt (accountOf b db) + NeedSMT d - old\<bar>\<rparr> else accountOf b db))"
proof -
  let ?w = "w\<lparr>clock := n, store := saveDelegate d db\<rparr>"
  have acc: "accountOf b (saveDelegate d db) = accountOf b db" for b
    by (simp add: accountOf_def saveDelegate_def)
  have "accounts_ok (store ?w)" using ok(1) by (simp add: accounts_ok_def saveDelegate_def)
  from updateAccountSMT_ok [OF env this, of delegator old "NeedSMT d"] obtain w3 where
    w3: "updateAccountSMT env delegator old (NeedSMT d) ?w = (Ret (), w3)" "accounts_ok (store w3)"
      "otherThan delegator w3 = otherThan delegator ?w"
      "accountOf delegator (store w3) = (accountOf delegator (store ?w))\<lparr>a_NeedSmt :=
         \<bar>a_NeedSmt (accountOf delegator (store ?w)) + NeedSMT d - old\<bar>\<rparr>"
    by blast
  have tabs: "(store w3)\<lparr>tAccount := []\<rparr> = (saveDelegate d db)\<lparr>tAccount := []\<rparr>"
    using w3(3) by (simp add: otherThan_def)
  have "accountOf b (store w3) = accountOf b db" if "b \<noteq> delegator" for b
    using w3(3) that by (auto simp: otherThan_def fun_eq_iff acc split: if_splits)
  moreover have "tDelegate (store w3) = tDelegate (saveDelegate d db)" "tPunish (store w3) = tPunish db"
    "tDispose (store w3) = tDispose db" "tMonitor (store w3) = tMonitor db"
    using arg_cong [OF tabs, of tDelegate] arg_cong [OF tabs, of tPunish] arg_cong [OF tabs, of tDispose]
      arg_cong [OF tabs, of tMonitor]
    by (simp_all add: saveDelegate_def)
  moreover have "delegates_ok (store w3)"
    using delegates_ok_save [OF ok(2,3)] calculation(2) by (simp add: delegates_ok_def)
  moreover have "delegateBy j (store w3) = (if j = d_Key d then Some d else delegateBy j db)" for j
    using calculation(2) ok(3) by (simp add: saveDelegate_def rowBy_gorm_save)
  ultimately show ?thesis
    using w3(1,2,4) by (intro exI [of _ w3]) (auto simp: acc)
qed

text \<open>
  A first delegation, when no statement fails and the request has no nil entry: it is accepted; the
  row holds the whole request in state Init with its fee; every other delegation is kept; exactly
  the punish evidence and disposed locks that are new for this delegation are appended; the
  delegator's \<open>NeedSmt\<close> grows by the fee and no other account changes; and the two execution points
  are scheduled if the channel is already closed (and only then).
\<close>
lemma ReceiveDelegate_first:
  fixes c :: channelFor3rd and delegator :: Address
  assumes "no_faults env" "fees_ok (env_params env)" "accounts_ok (store w)" "delegates_ok (store w)"
    and "request_ok c" "GetDelegateUnlocks c = Ret us" "GetDeleteSecrets c = Ret ss"
  defines "k \<equiv> BuildDelegateKey (c_ChannelIdentifier c) delegator"
  defines "x \<equiv> punishFee (env_params env) k c (store w)"
  assumes "delegateBy k (store w) = None" "\<forall>n. fresh_keys env (w\<lparr>clock := n\<rparr>)"
  shows "\<exists>w' t m. ReceiveDelegate env c delegator w = (Ret (Inr ()), w') \<and>
     accounts_ok (store w') \<and> delegates_ok (store w') \<and>
     (\<forall>j. delegateBy j (store w') = (if j = k then Some (firstRow env c delegator us ss x t) else delegateBy j (store w))) \<and>
     evidenceAdded k c (store w) (store w') \<and>
     (\<forall>b. accountOf b (store w') = (if b = delegator
        then (accountOf b (store w))\<lparr>a_NeedSmt := a_NeedSmt (accountOf b (store w)) +
          delegationFee (env_params env) (GetDelegateUpdateBalanceProof c) us ss x\<rparr> else accountOf b (store w))) \<and>
     tMonitor (store w') = tMonitor (store w) @
       (if c_settleBlockNumber c > 0 then schedule env (firstRow env c delegator us ss x t) m else [])"
proof -
  obtain n ps ds db where db: "db = (store w)\<lparr>tPunish := tPunish (store w) @ ps, seqPunish := seqPunish (store w) + length ps,
       tDispose := tDispose (store w) @ ds, seqDispose := seqDispose (store w) + length ds\<rparr>"
     "evidenceAdded k c (store w) db"
     "\<And>d old w2 w3. updateDelegate env c delegator 0 x (w\<lparr>clock := n, store := db\<rparr>) = (Ret (Inr (d, old)), w2) \<Longrightarrow>
        updateAccountSMT env delegator old (NeedSMT d) w2 = (Ret (), w3) \<Longrightarrow>
           ReceiveDelegate env c delegator w = (Ret (Inr ()), tick w3)"
    using ReceiveDelegate_steps [OF assms(1,5), where delegator = delegator and w = w] unfolding k_def x_def by metis
  have dok: "delegates_ok db" and aok: "accounts_ok db" and none: "delegateBy k db = None"
    and acc: "\<And>b. accountOf b db = accountOf b (store w)"
    using assms(3,4,10) by (simp_all add: db(1) delegates_ok_def accounts_ok_def accountOf_def)
  let ?w1 = "w\<lparr>clock := n, store := db\<rparr>"
  have fresh: "\<forall>i. fresh_keys env (?w1\<lparr>clock := i\<rparr>)"
    using assms(11) by (simp add: fresh_keys_def db(1))
  have pre: "delegates_ok (store ?w1)"
    "delegateBy (BuildDelegateKey (c_ChannelIdentifier c) delegator) (store ?w1) = None"
    using dok none by (simp_all add: k_def)
  obtain mons n2 t where up: "updateDelegate env c delegator 0 x ?w1 =
     (Ret (Inr (firstRow env c delegator us ss x t, 0)), ?w1\<lparr>clock := n2,
        store := saveDelegate (firstRow env c delegator us ss x t) ((store ?w1)\<lparr>tMonitor := mons\<rparr>)\<rparr>)"
     "c_settleBlockNumber c \<le> 0 \<longrightarrow> mons = tMonitor (store ?w1)"
     "c_settleBlockNumber c > 0 \<longrightarrow> (\<forall>k. fresh_keys env (?w1\<lparr>clock := k\<rparr>)) \<longrightarrow>
        (\<exists>m. mons = tMonitor (store ?w1) @ schedule env (firstRow env c delegator us ss x t) m)"
    using updateDelegate_first [OF assms(1) pre(1) assms(6,7) pre(2), of x] by blast
  let ?d = "firstRow env c delegator us ss x t" and ?db = "db\<lparr>tMonitor := mons\<rparr>"
  have accs: "accountOf b ?db = accountOf b (store w)" for b using acc by (simp add: accountOf_def)
  have x: "0 \<le> x" using assms(2) by (simp add: x_def punishFee_def fees_ok_def)
  have need: "0 \<le> a_NeedSmt (accountOf delegator ?db) + NeedSMT ?d - 0"
    using delegationFee_nonneg [OF assms(2) x] accs by simp
  have oks: "accounts_ok ?db" "delegates_ok ?db" using aok dok by (simp_all add: accounts_ok_def delegates_ok_def)
  obtain w3 where w3: "updateAccountSMT env delegator 0 (NeedSMT ?d) (w\<lparr>clock := n2, store := saveDelegate ?d ?db\<rparr>) = (Ret (), w3)"
      "accounts_ok (store w3)" "delegates_ok (store w3)"
      "\<forall>j. delegateBy j (store w3) = (if j = d_Key ?d then Some ?d else delegateBy j ?db)"
      "tPunish (store w3) = tPunish ?db" "tDispose (store w3) = tDispose ?db" "tMonitor (store w3) = tMonitor ?db"
      "\<forall>b. accountOf b (store w3) = (if b = delegator
        then (accountOf b ?db)\<lparr>a_NeedSmt := \<bar>a_NeedSmt (accountOf b ?db) + NeedSMT ?d - 0\<bar>\<rparr> else accountOf b ?db)"
    using save_then_book [OF assms(1) oks firstRow_ok, where w = w and n = n2] by blast
  have "ReceiveDelegate env c delegator w = (Ret (Inr ()), tick w3)"
    using db(3) [OF up(1), of w3] w3(1) by simp
  moreover have "\<exists>m. tMonitor (store w3) = tMonitor (store w) @
      (if c_settleBlockNumber c > 0 then schedule env ?d m else [])"
    using up(2,3) fresh w3(7) by (cases "c_settleBlockNumber c > 0") (auto simp: db(1))
  moreover have "evidenceAdded k c (store w) (store w3)"
    using db(2) w3(5,6) by (simp add: evidenceAdded_def)
  moreover have "d_Key ?d = k" by (simp add: firstRow_def k_def)
  ultimately show ?thesis
    using w3 accs need by (intro exI [of _ "tick w3"] exI [of _ t]) (auto simp: db(1))
qed

lemma ReceiveDelegate_update:
  fixes c :: channelFor3rd and delegator :: Address
  assumes "no_faults env" "accounts_ok (store w)" "delegates_ok (store w)"
    and "request_ok c" "GetDelegateUnlocks c = Ret us" "GetDeleteSecrets c = Ret ss"
  defines "k \<equiv> BuildDelegateKey (c_ChannelIdentifier c) delegator"
  defines "x \<equiv> punishFee (env_params env) k c (store w)"
  assumes "delegateBy k (store w) = Some d"
    and "DebugMode (env_params env) \<or> c_OpenBlockNumber c = d_OpenBlockNumber d"
    and "DebugMode (env_params env) \<or> d_Status d \<noteq> DelegateStatusInit \<or>
       du_Nonce (the (d_UpdateBalanceProofGob d)) \<le> ut_Nonce (c_UpdateTransfer c)"
  shows "\<exists>w' t d'. ReceiveDelegate env c delegator w = (Ret (Inr ()), w') \<and>
     d' = updatedRow env c us ss x t d \<and> accounts_ok (store w') \<and> delegates_ok (store w') \<and>
     (\<forall>j. delegateBy j (store w') = (if j = k then Some d' else delegateBy j (store w))) \<and>
     evidenceAdded k c (store w) (store w') \<and> tMonitor (store w') = tMonitor (store w) \<and>
     (\<forall>b. accountOf b (store w') = (if b = delegator
        then (accountOf b (store w))\<lparr>a_NeedSmt := \<bar>a_NeedSmt (accountOf b (store w)) + NeedSMT d' - NeedSMT d\<bar>\<rparr>
        else accountOf b (store w)))"
proof -
  obtain n ps ds db where db: "db = (store w)\<lparr>tPunish := tPunish (store w) @ ps, seqPunish := seqPunish (store w) + length ps,
       tDispose := tDispose (store w) @ ds, seqDispose := seqDispose (store w) + length ds\<rparr>"
     "evidenceAdded k c (store w) db"
     "\<And>d old w2 w3. updateDelegate env c delegator 0 x (w\<lparr>clock := n, store := db\<rparr>) = (Ret (Inr (d, old)), w2) \<Longrightarrow>
        updateAccountSMT env delegator old (NeedSMT d) w2 = (Ret (), w3) \<Longrightarrow>
           ReceiveDelegate env c delegator w = (Ret (Inr ()), tick w3)"
    using ReceiveDelegate_steps [OF assms(1,4), where delegator = delegator and w = w]
    unfolding k_def x_def by metis
  let ?w1 = "w\<lparr>clock := n, store := db\<rparr>"
  have ok: "accounts_ok db" "delegates_ok (store ?w1)"
    and acc: "\<And>b. accountOf b db = accountOf b (store w)"
    and row: "delegateBy (BuildDelegateKey (c_ChannelIdentifier c) delegator) (store ?w1) = Some d"
    using assms(2,3,9) by (simp_all add: db(1) delegates_ok_def accounts_ok_def accountOf_def k_def)
  have dok: "delegate_ok d" "d_Key d = k"
    using assms(3,9) by (auto simp: delegates_ok_def dest: rowBy_Some)
  obtain n2 t where up: "updateDelegate env c delegator 0 x ?w1 =
     (Ret (Inr (updatedRow env c us ss x t d, NeedSMT d)), ?w1\<lparr>clock := n2,
        store := saveDelegate (updatedRow env c us ss x t d) (store ?w1)\<rparr>)"
    using updateDelegate_existing [OF assms(1) ok(2) assms(5,6) row assms(10,11), of x] by blast
  let ?d = "updatedRow env c us ss x t d"
  obtain w3 where w3: "updateAccountSMT env delegator (NeedSMT d) (NeedSMT ?d) (w\<lparr>clock := n2, store := saveDelegate ?d db\<rparr>) = (Ret (), w3)"
      "accounts_ok (store w3)" "delegates_ok (store w3)"
      "\<forall>j. delegateBy j (store w3) = (if j = d_Key ?d then Some ?d else delegateBy j db)"
      "tPunish (store w3) = tPunish db" "tDispose (store w3) = tDispose db" "tMonitor (store w3) = tMonitor db"
      "\<forall>b. accountOf b (store w3) = (if b = delegator
        then (accountOf b db)\<lparr>a_NeedSmt := \<bar>a_NeedSmt (accountOf b db) + NeedSMT ?d - NeedSMT d\<bar>\<rparr> else accountOf b db)"
    using save_then_book [OF assms(1) ok(1) _ updatedRow_ok [OF dok(1)], where w = w and n = n2 and delegator = delegator and old = "NeedSMT d"] ok(2)
    by simp blast
  have "ReceiveDelegate env c delegator w = (Ret (Inr ()), tick w3)"
    using db(3) [OF up, of w3] w3(1) by simp
  moreover have "evidenceAdded k c (store w) (store w3)"
    using db(2) w3(5,6) by (simp add: evidenceAdded_def)
  ultimately show ?thesis
    using w3 acc dok(2) by (intro exI [of _ "tick w3"] exI [of _ t]) (auto simp: db(1))
qed

subsection \<open>Properties\<close>

text \<open>
  C30. Updating a delegation in a sound database (as in every reachable state), when no statement fails, no part of the request is nil and the request is not refused (the opening block is the stored one and,
  in state Init, the nonce is no older; debug mode checks neither): the balance proof
  and the locks are replaced only in state Init, the secrets always; the fee is computed
  anew from what is then stored, and the delegator's \<open>NeedSmt\<close> moves by the difference of the two fees.  It is written without its
  sign: when the new fee is lower by more than the need on record, the shortfall reads back as a need.
  No other delegation or account changes and nothing is scheduled.  (Two comments expect locks to be replaced in later states too.)
\<close>
theorem delegation_updated:
  fixes c :: channelFor3rd and delegator :: Address
  assumes "no_faults env" "accounts_ok (store w)" "delegates_ok (store w)"
    and "request_ok c" "GetDelegateUnlocks c = Ret us" "GetDeleteSecrets c = Ret ss"
  defines "k \<equiv> BuildDelegateKey (c_ChannelIdentifier c) delegator"
  defines "x \<equiv> punishFee (env_params env) k c (store w)"
  assumes "delegateBy k (store w) = Some d"
    and "DebugMode (env_params env) \<or> c_OpenBlockNumber c = d_OpenBlockNumber d"
    and "DebugMode (env_params env) \<or> d_Status d \<noteq> DelegateStatusInit \<or>
       du_Nonce (the (d_UpdateBalanceProofGob d)) \<le> ut_Nonce (c_UpdateTransfer c)"
  shows "\<exists>w' t d'. ReceiveDelegate env c delegator w = (Ret (Inr ()), w') \<and>
     d' = updatedRow env c us ss x t d \<and> accounts_ok (store w') \<and> delegates_ok (store w') \<and>
     (\<forall>j. delegateBy j (store w') = (if j = k then Some d' else delegateBy j (store w))) \<and>
     evidenceAdded k c (store w) (store w') \<and> tMonitor (store w') = tMonitor (store w) \<and>
     (\<forall>b. accountOf b (store w') = (if b = delegator
        then (accountOf b (store w))\<lparr>a_NeedSmt := \<bar>a_NeedSmt (accountOf b (store w)) + NeedSMT d' - NeedSMT d\<bar>\<rparr>
        else accountOf b (store w)))"
  using ReceiveDelegate_update [OF assms(1-6) assms(9) [unfolded k_def] assms(10,11)] unfolding k_def x_def by blast

lemma update_refused:
  fixes c :: channelFor3rd and delegator :: Address
  assumes "no_faults env" "delegates_ok (store w)" "request_ok c" "\<not> DebugMode (env_params env)"
    and "delegateBy (BuildDelegateKey (c_ChannelIdentifier c) delegator) (store w) = Some d"
    and "c_OpenBlockNumber c \<noteq> d_OpenBlockNumber d \<or> (d_Status d = DelegateStatusInit \<and>
       ut_Nonce (c_UpdateTransfer c) < du_Nonce (the (d_UpdateBalanceProofGob d)))"
  shows "\<exists>w'. ReceiveDelegate env c delegator w =
     (Ret (Inl (if c_OpenBlockNumber c \<noteq> d_OpenBlockNumber d
       then OpenBlockNumberNotEqual (d_OpenBlockNumber d) (c_OpenBlockNumber c)
       else OlderNonce (du_Nonce (the (d_UpdateBalanceProofGob d))) (ut_Nonce (c_UpdateTransfer c)))), w') \<and>
     store w' = store w"
proof -
  let ?k = "BuildDelegateKey (c_ChannelIdentifier c) delegator"
  obtain n ps ds db where db: "db = (store w)\<lparr>tPunish := tPunish (store w) @ ps, seqPunish := seqPunish (store w) + length ps,
       tDispose := tDispose (store w) @ ds, seqDispose := seqDispose (store w) + length ds\<rparr>"
     "\<And>e w2. updateDelegate env c delegator 0 (punishFee (env_params env) ?k c (store w)) (w\<lparr>clock := n, store := db\<rparr>) = (Ret (Inl e), w2) \<Longrightarrow>
        \<exists>w'. ReceiveDelegate env c delegator w = (Ret (Inl e), w') \<and> store w' = store w"
    using ReceiveDelegate_steps [OF assms(1,3), where delegator = delegator and w = w] by metis
  have "delegates_ok (store (w\<lparr>clock := n, store := db\<rparr>))" "delegateBy ?k (store (w\<lparr>clock := n, store := db\<rparr>)) = Some d"
    using assms(2,5) by (simp_all add: db(1) delegates_ok_def)
  from db(2) [OF updateDelegate_refused [OF assms(1) this assms(4,6)]] show ?thesis .
qed

text \<open>
  C31. Outside debug mode, in a sound database, when no statement fails and no part of the request is nil, an update is refused, with the reason, when
  the opening block differs or, in state Init, when the balance proof is older than the stored one; the database is then as it
  was, the evidence appended before the check included.  (In debug mode neither is checked.)
\<close>
theorem delegation_update_refused:
  fixes c :: channelFor3rd and delegator :: Address
  assumes "no_faults env" "delegates_ok (store w)" "request_ok c" "\<not> DebugMode (env_params env)"
    and "delegateBy (BuildDelegateKey (c_ChannelIdentifier c) delegator) (store w) = Some d"
    and "c_OpenBlockNumber c \<noteq> d_OpenBlockNumber d \<or> (d_Status d = DelegateStatusInit \<and>
       ut_Nonce (c_UpdateTransfer c) < du_Nonce (the (d_UpdateBalanceProofGob d)))"
  shows "\<exists>w'. ReceiveDelegate env c delegator w =
     (Ret (Inl (if c_OpenBlockNumber c \<noteq> d_OpenBlockNumber d
       then OpenBlockNumberNotEqual (d_OpenBlockNumber d) (c_OpenBlockNumber c)
       else OlderNonce (du_Nonce (the (d_UpdateBalanceProofGob d))) (ut_Nonce (c_UpdateTransfer c)))), w') \<and>
     store w' = store w"
  using assms by (rule update_refused)

text \<open>
  Whatever the database does, a request that is answered with an error leaves the database as it was.
\<close>
lemma refused_request_leaves_no_trace:
  assumes "ReceiveDelegate env c delegator w = (Ret (Inl e), w')"
  shows "store w' = store w"
  using assms transaction_error by (fastforce simp: ReceiveDelegate_def)

subsection \<open>Whatever the database does\<close>

text \<open>
  \<open>supersedes d' d\<close>: the row \<open>d'\<close> is a later version of the delegation \<open>d\<close>, with a balance proof that
  is not older and, once the delegation has left state Init, the same proof and locks.
\<close>

definition supersedes :: "delegate \<Rightarrow> delegate \<Rightarrow> bool" where
  "supersedes d' d \<longleftrightarrow> d_Key d' = d_Key d \<and> d_Status d' = d_Status d \<and>
     d_OpenBlockNumber d' = d_OpenBlockNumber d \<and> d_SettleBlockNumber d' = d_SettleBlockNumber d \<and>
     d_ChannelIdentifierStr d' = d_ChannelIdentifierStr d \<and> d_TokenAddressStr d' = d_TokenAddressStr d \<and>
     d_DelegatorAddressStr d' = d_DelegatorAddressStr d \<and> d_PartnerAddressStr d' = d_PartnerAddressStr d \<and>
     du_Nonce (the (d_UpdateBalanceProofGob d)) \<le> du_Nonce (the (d_UpdateBalanceProofGob d')) \<and>
     (d_Status d \<noteq> DelegateStatusInit \<longrightarrow>
        d_UpdateBalanceProofGob d' = d_UpdateBalanceProofGob d \<and> d_UnlocksGob d' = d_UnlocksGob d)"

lemma supersedes_refl [simp]: "supersedes d d"
  by (simp add: supersedes_def)

lemma supersedes_trans: "supersedes d'' d' \<Longrightarrow> supersedes d' d \<Longrightarrow> supersedes d'' d"
  by (auto simp: supersedes_def)

text \<open>The database invariant of one delegation's history.\<close>

definition retains :: "delegate \<Rightarrow> modeldb \<Rightarrow> bool" where
  "retains d db \<longleftrightarrow> delegates_ok db \<and> (\<exists>d'. delegateBy (d_Key d) db = Some d' \<and> supersedes d' d)"

text \<open>Writes to other tables.\<close>

lemma retains_other_tables [simp]:
  "retains d (insertPunish p db) = retains d db" "retains d (insertDispose a db) = retains d db"
  "retains d (saveMonitor m db) = retains d db" "retains d (saveAccount al db) = retains d db"
  "delegates_ok (insertPunish p db) = delegates_ok db" "delegates_ok (insertDispose a db) = delegates_ok db"
  "delegates_ok (saveMonitor m db) = delegates_ok db" "delegates_ok (saveAccount al db) = delegates_ok db"
  by (simp_all add: retains_def delegates_ok_def insertPunish_def insertDispose_def saveMonitor_def saveAccount_def)

lemma keeps_savePunishes:
  assumes "\<And>p db. I db \<Longrightarrow> I (insertPunish p db)"
  shows "keeps (on_store I) (savePunishes env k known ps)"
proof (induction ps)
  case Nil
  show ?case unfolding savePunishes.simps by (rule keeps_returnA)
next
  case (Cons p ps)
  show ?case unfolding savePunishes.simps by (intro keeps_rules keeps_db_write assms Cons; assumption)
qed

lemma keeps_saveDisposes:
  assumes "\<And>a db. I db \<Longrightarrow> I (insertDispose a db)"
  shows "keeps (on_store I) (saveDisposes env k known ps)"
proof (induction ps)
  case Nil
  show ?case unfolding saveDisposes.simps by (rule keeps_returnA)
next
  case (Cons p ps)
  show ?case unfolding saveDisposes.simps by (intro keeps_rules keeps_db_write assms Cons; assumption)
qed

lemma keeps_appendDelegatePunish:
  assumes "\<And>p db. I db \<Longrightarrow> I (insertPunish p db)"
  shows "keeps (on_store I) (appendDelegatePunish env k ps)"
  unfolding appendDelegatePunish_def
  by (intro keeps_rules keeps_savePunishes assms; assumption)

lemma keeps_appendDelegateAnnounceDispose:
  assumes "\<And>a db. I db \<Longrightarrow> I (insertDispose a db)"
  shows "keeps (on_store I) (appendDelegateAnnounceDispose env k ps)"
  unfolding appendDelegateAnnounceDispose_def
  by (intro keeps_rules keeps_saveDisposes assms; assumption)

lemma keeps_updateAccountSMT:
  assumes "\<And>al db. I db \<Longrightarrow> I (saveAccount al db)"
  shows "keeps (on_store I) (updateAccountSMT env addr old new)"
  unfolding updateAccountSMT_def GetAccountInTx_eq
  by (intro keeps_rules keeps_db_write assms; assumption)

lemma keeps_firstDelegate:
  assumes "\<And>m db. I db \<Longrightarrow> I (saveMonitor m db)"
  shows "keeps (on_store I) (firstDelegate env c a l)"
  unfolding firstDelegate_def by (intro keeps_rules keeps_AddDelegateMonitorInTx assms; assumption)

lemma keeps_existingDelegate: "keeps (on_store I) (existingDelegate env c l d)"
  unfolding existingDelegate_def by (intro keeps_rules)

lemma firstDelegate_row:
  assumes "firstDelegate env c a l w = (Ret d, w')"
  shows "d_Key d = BuildDelegateKey (c_ChannelIdentifier c) a \<and>
    d_ChannelIdentifierStr d = Hash_String (c_ChannelIdentifier c) \<and>
    d_DelegatorAddressStr d = Address_Hex (env_keccak env) a \<and>
    d_UpdateBalanceProofGob d = Some (GetDelegateUpdateBalanceProof c) \<and> d_UnlocksGob d \<noteq> None"
  using assms
  by (cases "GetDelegateUnlocks c")
    (auto simp: firstDelegate_def bindA_def Let_def SetUpdateBalanceProof_def SetUnlocks_def
      split: prod.splits outcome.splits if_splits)

lemma existingDelegate_row:
  assumes "existingDelegate env c l d w = (Ret (Inr d'), w')" "delegate_ok d"
  shows "d_Key d' = d_Key d" "d_UpdateBalanceProofGob d' \<noteq> None" "d_UnlocksGob d' \<noteq> None"
    "delegate_ok (d'\<lparr>d_SecretsGob := Some ss, d_NeedSMTStr := need\<rparr>)"
    "\<not> DebugMode (env_params env) \<Longrightarrow> supersedes d' d"
  using assms
  by (cases "GetDelegateUnlocks c";
      force simp: existingDelegate_def bindA_def Let_def SetUpdateBalanceProof_def SetUnlocks_def supersedes_def
        UpdateBalanceProof_def gobDecode_def delegate_ok_def GetDelegateUpdateBalanceProof_def
        ChannelIdentifier_def DelegatorAddress_def
        split: prod.splits outcome.splits if_splits option.splits)+

lemma finishDelegate_store:
  assumes "d_UpdateBalanceProofGob d \<noteq> None" "d_UnlocksGob d \<noteq> None"
  shows "store (snd (finishDelegate env c x d old w)) = store w \<or>
    (\<exists>ss need. store (snd (finishDelegate env c x d old w)) =
       saveDelegate (d\<lparr>d_SecretsGob := Some ss, d_NeedSMTStr := need\<rparr>) (store w))"
proof (cases "GetDeleteSecrets c")
  case (Ret ss)
  obtain u us where "d_UpdateBalanceProofGob d = Some u" "d_UnlocksGob d = Some us" using assms by auto
  then have "\<exists>need. CalcNeedSMT (env_params env) x (SetSecrets ss d) =
      outcome.Ret (d\<lparr>d_SecretsGob := Some ss, d_NeedSMTStr := need\<rparr>)"
    by (auto simp: CalcNeedSMT_def SetSecrets_def UpdateBalanceProof_def Unlocks_def Secrets_def gobDecode_def Let_def)
  with Ret show ?thesis
    by (auto simp: finishDelegate_def db_write_def bindA_def split: option.splits) blast
qed (simp add: finishDelegate_def bindA_def)


lemma delegates_ok_row: "delegates_ok db \<Longrightarrow> delegateBy k db = Some d \<Longrightarrow> delegate_ok d \<and> d_Key d = k"
  by (auto simp: delegates_ok_def dest: rowBy_Some)

lemma delegateBy_save:
  "delegate_ok d \<Longrightarrow> delegateBy k (saveDelegate d db) = (if k = d_Key d then Some d else delegateBy k db)"
  by (simp add: saveDelegate_def rowBy_gorm_save)

lemma retains_save:
  assumes "retains d0 db" "delegate_ok d" "\<And>e. delegateBy (d_Key d) db = Some e \<Longrightarrow> supersedes d e"
  shows "retains d0 (saveDelegate d db)"
  using assms delegates_ok_save [of db d]
  by (auto simp: retains_def delegateBy_save intro: supersedes_trans)

lemma supersedes_gobs: "supersedes d e \<Longrightarrow> supersedes (d\<lparr>d_SecretsGob := ss, d_NeedSMTStr := need\<rparr>) e"
  by (simp add: supersedes_def)

text \<open>
  \<open>updateDelegate\<close> keeps a predicate on the database that survives new execution points and the save of
  a well-formed row that is related to the row it replaces, if the rows it makes are so related.
\<close>

lemma keeps_finish:
  assumes "K (store w)" "d_UpdateBalanceProofGob d \<noteq> None" "d_UnlocksGob d \<noteq> None"
    and "\<And>ss need. K (saveDelegate (d\<lparr>d_SecretsGob := Some ss, d_NeedSMTStr := need\<rparr>) (store w))"
  shows "K (store (snd (finishDelegate env c x d old w)))"
  using finishDelegate_store [OF assms(2,3), of env c x old w] assms(1,4) by auto

lemma keeps_updateDelegate:
  assumes ok: "\<And>db. K db \<Longrightarrow> delegates_ok db" and mon: "\<And>m db. K db \<Longrightarrow> K (saveMonitor m db)"
    and save: "\<And>d db. K db \<Longrightarrow> delegate_ok d \<Longrightarrow> (\<And>e. delegateBy (d_Key d) db = Some e \<Longrightarrow> rel d e) \<Longrightarrow> K (saveDelegate d db)"
    and gobs: "\<And>d e ss need. rel d e \<Longrightarrow> rel (d\<lparr>d_SecretsGob := ss, d_NeedSMTStr := need\<rparr>) e"
    and row: "\<And>d w d' w'. existingDelegate env c l d w = (Ret (Inr d'), w') \<Longrightarrow> delegate_ok d \<Longrightarrow> rel d' d"
  shows "keeps (on_store K) (updateDelegate env c a l x)"
proof (rule keepsI)
  fix w assume "on_store K w"
  then have w: "K (store w)" by (simp add: on_store_def)
  note dok = ok [OF w]
  let ?k = "BuildDelegateKey (c_ChannelIdentifier c) a"
  have "K (store (snd (updateDelegate env c a l x w)))"
  proof (cases "env_fault env (clock w)")
    case (Some e)
    with w show ?thesis by (simp add: updateDelegate_def db_query_def bindA_def)
  next
    case None
    show ?thesis
    proof (cases "delegateBy ?k (store w)")
      case new: None
      have run: "updateDelegate env c a l x w =
          bindA (firstDelegate env c a l) (\<lambda>d. finishDelegate env c x d 0) (tick w)"
        using None new dok by (simp add: updateDelegate_def db_query_def bindA_def gorm_find_where_key delegates_ok_def)
      have "keeps (on_store (\<lambda>db. K db \<and> tDelegate db = tDelegate (store w))) (firstDelegate env c a l)"
        by (rule keeps_firstDelegate) (auto simp: mon, simp add: saveMonitor_def)
      from keepsD [OF this, of "tick w"] w have kept: "K (store (snd (firstDelegate env c a l (tick w))))"
          "tDelegate (store (snd (firstDelegate env c a l (tick w)))) = tDelegate (store w)"
        by (simp_all add: on_store_def)
      show ?thesis
      proof (cases rule: bindA_cases [of "firstDelegate env c a l" "tick w" "\<lambda>d. finishDelegate env c x d 0"])
        case (Ret d w1)
        note r = firstDelegate_row [OF Ret(1)]
        have "K (store (snd (finishDelegate env c x d 0 w1)))"
        proof (rule keeps_finish [where K = K]; (rule save)?)
          show "delegate_ok (d\<lparr>d_SecretsGob := Some ss, d_NeedSMTStr := need\<rparr>)" for ss need
            using r by (simp add: delegate_ok_def ChannelIdentifier_def DelegatorAddress_def)
          show "rel (d\<lparr>d_SecretsGob := Some ss, d_NeedSMTStr := need\<rparr>) e"
            if "delegateBy (d_Key (d\<lparr>d_SecretsGob := Some ss, d_NeedSMTStr := need\<rparr>)) (store w1) = Some e" for ss need e
            using that r kept(2) Ret(1) new by simp
        qed (use r kept(1) Ret(1) in simp_all)
        then show ?thesis using run Ret(2) by simp
      next
        case (Panic msg w1)
        then show ?thesis using run kept by simp
      qed
    next
      case (Some d)
      note d = delegates_ok_row [OF dok Some]
      let ?rest = "\<lambda>r. case r of Inl e \<Rightarrow> returnA (Inl e) | Inr d' \<Rightarrow> finishDelegate env c x d' (NeedSMT d)"
      have run: "updateDelegate env c a l x w = bindA (existingDelegate env c l d) ?rest (tick w)"
        using None Some dok
        by (simp add: updateDelegate_def db_query_def bindA_def gorm_find_where_key delegates_ok_def Let_def)
      have "keeps (on_store (\<lambda>db. db = store w)) (existingDelegate env c l d)" by (rule keeps_existingDelegate)
      from keepsD [OF this, of "tick w"] have same: "store (snd (existingDelegate env c l d (tick w))) = store w"
        by (simp add: on_store_def)
      show ?thesis
      proof (cases rule: bindA_cases [of "existingDelegate env c l d" "tick w" ?rest])
        case (Ret r w1)
        then have w1: "store w1 = store w" using same by simp
        show ?thesis
        proof (cases r)
          case (Inl e)
          then show ?thesis using run Ret(2) w w1 by simp
        next
          case (Inr d')
          note ex = existingDelegate_row [OF Ret(1) [unfolded Inr]] and rel = row [OF Ret(1) [unfolded Inr]]
          have "K (store (snd (finishDelegate env c x d' (NeedSMT d) w1)))"
          proof (rule keeps_finish [where K = K]; (rule save)?)
            show "rel (d'\<lparr>d_SecretsGob := Some ss, d_NeedSMTStr := need\<rparr>) e"
              if "delegateBy (d_Key (d'\<lparr>d_SecretsGob := Some ss, d_NeedSMTStr := need\<rparr>)) (store w1) = Some e" for ss need e
              using that w1 Some d ex(1) rel gobs by simp
          qed (use w w1 d ex in simp_all)
          then show ?thesis using run Ret(2) Inr by simp
        qed
      next
        case (Panic msg w1)
        then show ?thesis using run same w by simp
      qed
    qed
  qed
  then show "on_store K (snd (updateDelegate env c a l x w))" by (simp add: on_store_def)
qed

lemma keeps_retains_updateDelegate:
  "\<not> DebugMode (env_params env) \<Longrightarrow> keeps (on_store (retains d0)) (updateDelegate env c a l x)"
  by (rule keeps_updateDelegate [where rel = supersedes])
    (auto intro: retains_save supersedes_gobs existingDelegate_row(5), auto simp: retains_def)

lemma keeps_retains_ReceiveDelegate:
  assumes "\<not> DebugMode (env_params env)"
  shows "keeps (on_store (retains d0)) (ReceiveDelegate env c a)"
  unfolding ReceiveDelegate_def
  by (intro keeps_rules keeps_appendDelegatePunish keeps_appendDelegateAnnounceDispose
      keeps_retains_updateDelegate keeps_updateAccountSMT assms) simp_all

subsection \<open>Further properties\<close>

text \<open>
  C11. Outside debug mode, in a sound database, whatever request arrives and whatever the database does (statements that fail, a panic half way, a
  commit that fails), a stored delegation stays stored, with the same parties, opening block and
  state; its balance proof never gets an older nonce, and once it has left state Init its proof
  and locks do not change any more (two comments expect the locks to be updated in later states too).
\<close>
theorem delegation_never_regresses:
  assumes "\<not> DebugMode (env_params env)" "delegates_ok (store w)" "delegateBy k (store w) = Some d"
  shows "\<exists>d'. delegateBy k (store (snd (ReceiveDelegate env c delegator w))) = Some d' \<and> supersedes d' d"
proof -
  have "d_Key d = k" using delegates_ok_row [OF assms(2,3)] by simp
  then have "on_store (retains d) w" using assms by (auto simp: on_store_def retains_def)
  from keepsD [OF keeps_retains_ReceiveDelegate [OF assms(1)] this] \<open>d_Key d = k\<close> show ?thesis
    by (auto simp: on_store_def retains_def)
qed

text \<open>
  When a delegation becomes cheaper by more than the account's \<open>NeedSmt\<close> still records, the account
  is written without a check: the stored bytes have no sign, and the shortfall reads back as a
  need of the same size.
\<close>
lemma need_shortfall_loses_sign:
  assumes "no_faults env" "accounts_ok (store w)" "a_NeedSmt (accountOf addr (store w)) + new < old"
  shows "\<exists>w'. updateAccountSMT env addr old new w = (Ret (), w') \<and>
     a_NeedSmt (accountOf addr (store w')) = old - new - a_NeedSmt (accountOf addr (store w)) \<and>
     0 < a_NeedSmt (accountOf addr (store w'))"
proof -
  let ?a = "accountOf addr (store w)"
  have "old \<noteq> new" using assms(3) accountOf_sel(4) [of addr "store w"] by linarith
  then have "updateAccountSMT env addr old new w = (Ret (), w\<lparr>clock := Suc (Suc (clock w)), store :=
      saveAccount (toSerialization (?a\<lparr>a_NeedSmt := a_NeedSmt ?a + new - old\<rparr>)) (store w)\<rparr>)"
    using assms(1,2) by (simp add: updateAccountSMT_def GetAccountInTx_eq Let_def)
  moreover have "accountOf addr (saveAccount (toSerialization (?a\<lparr>a_NeedSmt := a_NeedSmt ?a + new - old\<rparr>)) (store w)) =
      ?a\<lparr>a_NeedSmt := \<bar>a_NeedSmt ?a + new - old\<bar>\<rparr>"
    by (subst accountOf_def) (simp add: saveAccount_def rowBy_gorm_save toAccount_toSerialization)
  ultimately show ?thesis using assms(3) by simp
qed

text \<open>
  A request with a nil lock makes the first delegation panic after the evidence is written; the
  deferred function sees no error and commits: the punish evidence is kept, with no delegation it belongs to.
\<close>
lemma panic_commits_evidence:
  fixes c :: channelFor3rd and delegator :: Address
  defines "k \<equiv> BuildDelegateKey (c_ChannelIdentifier c) delegator"
  assumes "no_faults env" "delegates_ok (store w)" "delegateBy k (store w) = None"
    and "None \<notin> set (c_Punishes c)" "c_AnnouceDisposed c = []" "GetDelegateUnlocks c = Panic msg"
  shows "\<exists>w' ps. ReceiveDelegate env c delegator w = (Panic msg, w') \<and>
     tPunish (store w') = tPunish (store w) @ ps \<and>
     map (\<lambda>r. r\<lparr>dp_ID := 0\<rparr>) ps = freshPunishes k (c_Punishes c) (tPunish (store w)) \<and>
     delegateBy k (store w') = None"
proof -
  obtain ps n where "appendDelegatePunish env k (c_Punishes c) (tick w) =
      (Ret (Inr (punishFee (env_params env) k c (store w))), w\<lparr>clock := n, store := (store w)\<lparr>
         tPunish := tPunish (store w) @ ps, seqPunish := seqPunish (store w) + length ps\<rparr>\<rparr>)"
      "map (\<lambda>r. r\<lparr>dp_ID := 0\<rparr>) ps = freshPunishes k (c_Punishes c) (tPunish (store w))"
    using appendDelegatePunish_ok [OF assms(2,5), of k "tick w"] by (auto simp: punishFee_def k_def)
  moreover have "updateDelegate env c delegator 0 x (w\<lparr>clock := n, store := db\<rparr>) =
      (Panic msg, w\<lparr>clock := n + 2, store := db\<rparr>)"
    if "tDelegate db = tDelegate (store w)" for x db n
    using that assms(2-4,7)
    by (simp add: updateDelegate_def gorm_find_where_key delegates_ok_def firstDelegate_def Let_def k_def)
  ultimately show ?thesis
    using assms(2,4,6)
    by (simp add: ReceiveDelegate_def transaction_def Let_def k_def [symmetric] db_commit_def
        appendDelegateAnnounceDispose_def)
qed

subsection \<open>Concrete applications\<close>

definition sampleRequest :: channelFor3rd where
  "sampleRequest =
     \<lparr>c_ChannelIdentifier = 5, c_OpenBlockNumber = 3, c_TokenAddress = 4, c_PartnerAddress = 8,
      c_UpdateTransfer = \<lparr>ut_Nonce = 2, ut_TransferAmount = Some 200, ut_Locksroot = 0, ut_ExtraHash = 0,
        ut_ClosingSignature = [], ut_NonClosingSignature = [], ut_TxStatus = 0, ut_TxError = '''', ut_TxHash = 0\<rparr>,
      c_Unlocks = [],
      c_Punishes = [Some \<lparr>pu_LockHash = 17, pu_AdditionalHash = 19, pu_Signature = [], pu_TxStatus = 0,
        pu_TxError = '''', pu_TxHash = 0\<rparr>],
      c_AnnouceDisposed = [],
      c_Secrets = [Some \<lparr>se_Secret = 13, se_RegisterBlock = 100, se_TxStatus = 0, se_TxError = '''', se_TxHash = 0\<rparr>],
      c_settleBlockNumber = 100\<rparr>"

definition sampleSecrets :: "delegateSecret list" where
  "sampleSecrets = [\<lparr>ds_Secret = Hash_String 13, ds_RegisterBlock = 100\<rparr>]"

lemma sampleRequest_conversions:
  "GetDelegateUnlocks sampleRequest = Ret []" "GetDeleteSecrets sampleRequest = Ret sampleSecrets"
  by (simp_all add: sampleRequest_def GetDelegateUnlocks_def GetDeleteSecrets_def toDelegateSecret_def sampleSecrets_def)

lemma sampleRequest_ok: "request_ok sampleRequest"
  using sampleRequest_conversions by (simp add: request_ok_def) (simp add: sampleRequest_def)

lemma sampleRequest_sel [simp]:
  "c_ChannelIdentifier sampleRequest = 5" "c_OpenBlockNumber sampleRequest = 3"
  "c_settleBlockNumber sampleRequest = 100" "ut_Nonce (c_UpdateTransfer sampleRequest) = 2"
  "c_Punishes sampleRequest \<noteq> []" "du_Nonce (GetDelegateUpdateBalanceProof sampleRequest) = 2"
  by (simp_all add: sampleRequest_def GetDelegateUpdateBalanceProof_def)

lemma fees_ok_quietEnv [simp]: "fees_ok (env_params quietEnv)" "\<not> DebugMode (env_params quietEnv)"
  by (simp_all add: fees_ok_def quietEnv_def initParams_def)

lemma fresh_accountWorld: "fresh_keys quietEnv (accountWorld\<lparr>clock := n\<rparr>)"
  by (simp add: fresh_keys_def accountWorld_def emptyDb_def quietEnv_def)

lemma accountWorld_delegates [simp]:
  "delegates_ok (store accountWorld)" "tDelegate (store accountWorld) = []"
  "tPunish (store accountWorld) = []" "tMonitor (store accountWorld) = []"
  by (simp_all add: accountWorld_def emptyDb_def delegates_ok_def)

definition delegatedWorld :: world where
  "delegatedWorld = accountWorld\<lparr>store := (store accountWorld)\<lparr>tDelegate := [sampleDelegate 5 7]\<rparr>\<rparr>"

lemma delegatedWorld_ok [simp]:
  "accounts_ok (store delegatedWorld)" "delegates_ok (store delegatedWorld)"
  "delegateBy (BuildDelegateKey 5 7) (store delegatedWorld) = Some (sampleDelegate 5 7)"
  "accountOf 7 (store delegatedWorld) = sampleAccount"
  using accountWorld_ok accountWorld_account
  by (simp_all add: delegatedWorld_def accounts_ok_def delegates_ok_def sampleDelegate_getters accountOf_def
      del: accountWorld_ok accountWorld_account)

lemma sampleDelegate_proof [simp]: "d_UpdateBalanceProofGob (sampleDelegate c a) = Some sampleProof"
  "d_OpenBlockNumber (sampleDelegate c a) = 3" "NeedSMT (sampleDelegate c a) = 5"
  by (simp_all add: sampleDelegate_def NeedSMT_def StringToBigInt_def BigInt_SetString_def scan_nat_def digit_val_def)

lemma sampleProof_nonce [simp]: "du_Nonce sampleProof = 2"
  by (simp add: sampleProof_def)

theorem delegation_updated_witness:
  "\<exists>w' d. ReceiveDelegate quietEnv sampleRequest 7 delegatedWorld = (Ret (Inr ()), w') \<and>
     delegateBy (BuildDelegateKey 5 7) (store w') = Some d \<and> Unlocks d = Ret [] \<and>
     a_NeedSmt (accountOf 7 (store w')) = 15 + NeedSMT d"
proof -
  let ?k = "BuildDelegateKey (c_ChannelIdentifier sampleRequest) 7"
  let ?d = "sampleDelegate 5 7"
  have row: "delegateBy ?k (store delegatedWorld) = Some ?d" by simp
  have chk: "DebugMode (env_params quietEnv) \<or> c_OpenBlockNumber sampleRequest = d_OpenBlockNumber ?d"
    "DebugMode (env_params quietEnv) \<or> d_Status ?d \<noteq> DelegateStatusInit \<or>
       du_Nonce (the (d_UpdateBalanceProofGob ?d)) \<le> ut_Nonce (c_UpdateTransfer sampleRequest)"
    by simp_all
  obtain w' t d' where r: "ReceiveDelegate quietEnv sampleRequest 7 delegatedWorld = (Ret (Inr ()), w')"
     "d' = updatedRow quietEnv sampleRequest [] sampleSecrets
        (punishFee (env_params quietEnv) ?k sampleRequest (store delegatedWorld)) t ?d"
     "\<forall>j. delegateBy j (store w') = (if j = ?k then Some d' else delegateBy j (store delegatedWorld))"
     "\<forall>b. accountOf b (store w') = (if b = 7
        then (accountOf b (store delegatedWorld))\<lparr>a_NeedSmt := \<bar>a_NeedSmt (accountOf b (store delegatedWorld)) + NeedSMT d' - NeedSMT ?d\<bar>\<rparr>
        else accountOf b (store delegatedWorld))"
    using delegation_updated [OF no_faults_quietEnv delegatedWorld_ok(1,2)
        sampleRequest_ok sampleRequest_conversions row chk] by blast
  have "Unlocks d' = Ret []"
    by (simp add: r(2) Unlocks_def updatedRow_def sampleDelegate_getters Let_def gobDecode_def)
  moreover have "a_NeedSmt sampleAccount = 20" by (simp add: sampleAccount_def)
  moreover have "0 \<le> punishFee (env_params quietEnv) ?k sampleRequest (store delegatedWorld)"
    using fees_ok_quietEnv(1) by (simp add: punishFee_def fees_ok_def)
  then have "0 \<le> NeedSMT d'"
    using delegationFee_nonneg [OF fees_ok_quietEnv(1)]
    by (simp add: r(2) NeedSMT_def updatedRow_def Let_def BigIntToString_def)
  ultimately show ?thesis using r(1,3,4) by simp
qed

theorem delegation_update_refused_witness:
  "\<exists>w'. ReceiveDelegate quietEnv (sampleRequest\<lparr>c_UpdateTransfer := (c_UpdateTransfer sampleRequest)\<lparr>ut_Nonce := 1\<rparr>\<rparr>)
       7 delegatedWorld = (Ret (Inl (OlderNonce 2 1)), w') \<and> store w' = store delegatedWorld"
proof -
  let ?c = "sampleRequest\<lparr>c_UpdateTransfer := (c_UpdateTransfer sampleRequest)\<lparr>ut_Nonce := 1\<rparr>\<rparr>"
  have "request_ok ?c"
    using sampleRequest_ok by (simp add: request_ok_def GetDelegateUnlocks_def GetDeleteSecrets_def)
  from delegation_update_refused [OF no_faults_quietEnv delegatedWorld_ok(2) this fees_ok_quietEnv(2), of 7 "sampleDelegate 5 7"]
  show ?thesis by (simp add: sampleDelegate_getters)
qed

lemma refused_request_leaves_no_trace_witness:
  "\<exists>e w'. ReceiveDelegate (quietEnv\<lparr>env_fault := \<lambda>n. if n = 1 then Some ''disk I/O error'' else None\<rparr>)
       sampleRequest 7 delegatedWorld = (Ret (Inl e), w') \<and> store w' = store delegatedWorld"
proof -
  let ?env = "quietEnv\<lparr>env_fault := \<lambda>n. if n = 1 then Some ''disk I/O error'' else None\<rparr>"
  have "clock delegatedWorld = 0" by (simp add: delegatedWorld_def)
  then have "\<exists>e w'. ReceiveDelegate ?env sampleRequest 7 delegatedWorld = (Ret (Inl e), w')"
    by (simp add: ReceiveDelegate_def transaction_def appendDelegatePunish_def db_query_def Let_def bindA_def)
  then obtain e w' where "ReceiveDelegate ?env sampleRequest 7 delegatedWorld = (Ret (Inl e), w')" by blast
  with refused_request_leaves_no_trace [OF this] show ?thesis by blast
qed

theorem delegation_never_regresses_witness:
  "\<exists>d'. delegateBy (BuildDelegateKey 5 7) (store (snd (ReceiveDelegate
       (quietEnv\<lparr>env_fault := \<lambda>n. if n = 5 then Some ''disk I/O error'' else None\<rparr>) sampleRequest 7 delegatedWorld))) = Some d' \<and>
     supersedes d' (sampleDelegate 5 7)"
proof -
  let ?env = "quietEnv\<lparr>env_fault := \<lambda>n. if n = 5 then Some ''disk I/O error'' else None\<rparr>"
  have "\<not> DebugMode (env_params ?env)" using fees_ok_quietEnv(2) by simp
  from delegation_never_regresses [OF this delegatedWorld_ok(2,3)] show ?thesis .
qed

lemma need_shortfall_loses_sign_witness:
  "\<exists>w'. updateAccountSMT quietEnv 7 25 1 accountWorld = (Ret (), w') \<and> a_NeedSmt (accountOf 7 (store w')) = 4"
  using need_shortfall_loses_sign [OF no_faults_quietEnv accountWorld_ok, of 7 1 25]
  by (auto simp: sampleAccount_def)

lemma panic_commits_evidence_witness:
  "\<exists>w'. ReceiveDelegate quietEnv (sampleRequest\<lparr>c_Unlocks := [None]\<rparr>) 7 accountWorld = (Panic nilDeref, w') \<and>
     length (tPunish (store w')) = 1 \<and> delegateBy (BuildDelegateKey 5 7) (store w') = None"
proof -
  let ?c = "sampleRequest\<lparr>c_Unlocks := [None]\<rparr>"
  have h: "delegateBy (BuildDelegateKey (c_ChannelIdentifier ?c) 7) (store accountWorld) = None"
    "None \<notin> set (c_Punishes ?c)" "c_AnnouceDisposed ?c = []" "GetDelegateUnlocks ?c = Panic nilDeref"
    by (simp, simp add: sampleRequest_def, simp add: sampleRequest_def,
        simp add: GetDelegateUnlocks_def toDelegateUnlock_def)
  from panic_commits_evidence [OF no_faults_quietEnv accountWorld_delegates(1) h] obtain w' ps where
    w': "ReceiveDelegate quietEnv ?c 7 accountWorld = (Panic nilDeref, w')" "tPunish (store w') = ps"
      "map (\<lambda>r. r\<lparr>dp_ID := 0\<rparr>) ps = freshPunishes (BuildDelegateKey 5 7) (c_Punishes ?c) []"
      "delegateBy (BuildDelegateKey 5 7) (store w') = None"
    by auto
  have "length (freshPunishes (BuildDelegateKey 5 7) (c_Punishes ?c) []) = 1"
    by (simp add: freshPunishes_def sampleRequest_def)
  then have "length ps = 1" unfolding w'(3) [symmetric] by simp
  with w' show ?thesis by simp
qed

end
