(* ===== verification/PM_Verifier.thy ===== *)
theory PM_Verifier
  imports PM_Service
begin

text \<open>
  \<open>chainservice/verifier.go\<close>: the checks on a request before it is stored, and the messages whose
  signatures they recover.

  The lemmas show that every message has the form the contracts verify (prefix, decimal length,
  body of that length), that two messages of different kinds never coincide and equal
  ones agree in every field they cover, and exactly which requests are accepted.
\<close>

subsection \<open>Signed messages\<close>

definition string_bytes :: "string \<Rightarrow> byte list" where
  "string_bytes s = map of_char s"

definition ContractSignaturePrefix :: "byte list" where
  "ContractSignaturePrefix = 25 # string_bytes ''Spectrum Signed Message:'' @ [10]"

definition ContractBalanceProofMessageLength :: string where
  "ContractBalanceProofMessageLength = ''176''"

definition ContractBalanceProofDelegateMessageLength :: string where
  "ContractBalanceProofDelegateMessageLength = ''144''"

definition ContractDisposedProofMessageLength :: string where
  "ContractDisposedProofMessageLength = ''136''"

definition ContractUnlockDelegateProofMessageLength :: string where
  "ContractUnlockDelegateProofMessageLength = ''188''"

fun bindO :: "'a outcome \<Rightarrow> ('a \<Rightarrow> 'b outcome) \<Rightarrow> 'b outcome" where
  "bindO (Ret x) f = f x"
| "bindO (Panic msg) f = Panic msg"

definition unlockMessage :: "env \<Rightarrow> mtreeLock \<Rightarrow> channelFor3rd \<Rightarrow> byte list outcome" where
  "unlockMessage env l c =
     bindO (BigIntTo32Bytes (Some (Lock_Expiration l))) (\<lambda>expiration.
     bindO (BigIntTo32Bytes (Lock_Amount l)) (\<lambda>amount.
     bindO (BigIntTo32Bytes (Some (env_ChainID env))) (\<lambda>chainID.
     Ret (ContractSignaturePrefix @ string_bytes ContractUnlockDelegateProofMessageLength @
          word_bytes (env_NodeAddress env) @ expiration @ amount @ word_bytes (Lock_LockSecretHash l) @
          word_bytes (c_ChannelIdentifier c) @ int64_bytes (c_OpenBlockNumber c) @ chainID))))"

definition punishMessage :: "env \<Rightarrow> punishReq \<Rightarrow> channelFor3rd \<Rightarrow> byte list outcome" where
  "punishMessage env p c =
     bindO (BigIntTo32Bytes (Some (env_ChainID env))) (\<lambda>chainID.
     Ret (ContractSignaturePrefix @ string_bytes ContractDisposedProofMessageLength @
          word_bytes (pu_LockHash p) @ word_bytes (c_ChannelIdentifier c) @
          int64_bytes (c_OpenBlockNumber c) @ chainID @ word_bytes (pu_AdditionalHash p)))"

definition closingMessage :: "env \<Rightarrow> channelFor3rd \<Rightarrow> byte list outcome" where
  "closingMessage env c =
     (let u = c_UpdateTransfer c in
      bindO (BigIntTo32Bytes (ut_TransferAmount u)) (\<lambda>amount.
      bindO (BigIntTo32Bytes (Some (env_ChainID env))) (\<lambda>chainID.
      Ret (ContractSignaturePrefix @ string_bytes ContractBalanceProofMessageLength @
           amount @ word_bytes (ut_Locksroot u) @ int64_bytes (ut_Nonce u) @ word_bytes (ut_ExtraHash u) @
           word_bytes (c_ChannelIdentifier c) @ int64_bytes (c_OpenBlockNumber c) @ chainID))))"

definition nonClosingMessage :: "env \<Rightarrow> channelFor3rd \<Rightarrow> byte list outcome" where
  "nonClosingMessage env c =
     (let u = c_UpdateTransfer c in
      bindO (BigIntTo32Bytes (ut_TransferAmount u)) (\<lambda>amount.
      bindO (BigIntTo32Bytes (Some (env_ChainID env))) (\<lambda>chainID.
      Ret (ContractSignaturePrefix @ string_bytes ContractBalanceProofDelegateMessageLength @
           amount @ word_bytes (ut_Locksroot u) @ int64_bytes (ut_Nonce u) @
           word_bytes (c_ChannelIdentifier c) @ int64_bytes (c_OpenBlockNumber c) @ chainID))))"

subsection \<open>Signature checks\<close>

definition Ecrecover :: "env \<Rightarrow> byte list \<Rightarrow> byte list \<Rightarrow> error + Address" where
  "Ecrecover env message sig =
     (case env_ecrecover env (env_keccak env message) sig of
        Inl e \<Rightarrow> Inl (SignatureError e) | Inr a \<Rightarrow> Inr a)"

definition verifyUnlockSignature :: "env \<Rightarrow> unlockReq \<Rightarrow> channelFor3rd \<Rightarrow> (error + Address) outcome" where
  "verifyUnlockSignature env u c =
     (case un_Lock u of None \<Rightarrow> Panic nilDeref | Some l \<Rightarrow>
      bindO (unlockMessage env l c) (\<lambda>m. Ret (Ecrecover env m (un_Signature u))))"

definition verifyPunishSignature :: "env \<Rightarrow> punishReq option \<Rightarrow> channelFor3rd \<Rightarrow> (error + Address) outcome" where
  "verifyPunishSignature env p c =
     (case p of None \<Rightarrow> Panic nilDeref | Some x \<Rightarrow>
      bindO (punishMessage env x c) (\<lambda>m. Ret (Ecrecover env m (pu_Signature x))))"

definition verifyClosingSignature :: "env \<Rightarrow> channelFor3rd \<Rightarrow> (error + Address) outcome" where
  "verifyClosingSignature env c =
     (if ut_Nonce (c_UpdateTransfer c) \<le> 0 then Ret (Inl NonceNotPositive) else
      bindO (closingMessage env c) (\<lambda>m. Ret (Ecrecover env m (ut_ClosingSignature (c_UpdateTransfer c)))))"

definition verifyNonClosingSignature :: "env \<Rightarrow> channelFor3rd \<Rightarrow> Address \<Rightarrow> bool outcome" where
  "verifyNonClosingSignature env c delegater =
     bindO (nonClosingMessage env c) (\<lambda>m.
     Ret (case Ecrecover env m (ut_NonClosingSignature (c_UpdateTransfer c)) of
            Inl _ \<Rightarrow> False | Inr signer \<Rightarrow> signer = delegater))"

text \<open>The loops return at the first bad entry; a nil entry panics.\<close>

fun verifyUnlocks :: "env \<Rightarrow> channelFor3rd \<Rightarrow> Address \<Rightarrow> unlockReq option list \<Rightarrow> error option outcome" where
  "verifyUnlocks env c delegater [] = Ret None"
| "verifyUnlocks env c delegater (p # ps) =
     (case p of None \<Rightarrow> Panic nilDeref | Some l \<Rightarrow>
      if un_Lock l = None \<or> Lock_Amount (the (un_Lock l)) = None then Ret (Some LockError) else
      bindO (verifyUnlockSignature env l c) (\<lambda>r.
      case r of Inl e \<Rightarrow> Ret (Some e) | Inr signer \<Rightarrow>
      if signer \<noteq> delegater then Ret (Some UnlockSignatureError) else verifyUnlocks env c delegater ps))"

fun verifyPunishes :: "env \<Rightarrow> channelFor3rd \<Rightarrow> punishReq option list \<Rightarrow> error option outcome" where
  "verifyPunishes env c [] = Ret None"
| "verifyPunishes env c (p # ps) =
     bindO (verifyPunishSignature env p c) (\<lambda>r.
     case r of Inl e \<Rightarrow> Ret (Some e) | Inr signer \<Rightarrow>
     if signer \<noteq> c_PartnerAddress c then Ret (Some PunishSignatureError) else verifyPunishes env c ps)"

text \<open>The block under \<open>if c.UpdateTransfer.Nonce > 0\<close>.\<close>

definition verifyBalanceProof :: "env \<Rightarrow> channelFor3rd \<Rightarrow> Address \<Rightarrow> error option outcome" where
  "verifyBalanceProof env c delegater =
     bindO (verifyClosingSignature env c) (\<lambda>r.
     case r of Inl e \<Rightarrow> Ret (Some e) | Inr closingAddr \<Rightarrow>
     if closingAddr \<noteq> c_PartnerAddress c \<or> closingAddr = delegater then Ret (Some ParticipantError) else
     bindO (verifyNonClosingSignature env c delegater) (\<lambda>valid.
     if \<not> valid then Ret (Some NonClosingError) else
     verifyUnlocks env c delegater (c_Unlocks c)))"

text \<open>The checks that do not ask the chain, in the order of the code.\<close>

definition verifyContent :: "env \<Rightarrow> channelFor3rd \<Rightarrow> Address \<Rightarrow> error option outcome" where
  "verifyContent env c delegater =
     bindO (if ut_Nonce (c_UpdateTransfer c) > 0 then verifyBalanceProof env c delegater else Ret None) (\<lambda>err.
     case err of Some e \<Rightarrow> Ret (Some e) | None \<Rightarrow>
     bindO (if length (c_Punishes c) > 0 then verifyPunishes env c (c_Punishes c) else Ret None) (\<lambda>err.
     case err of Some e \<Rightarrow> Ret (Some e) | None \<Rightarrow>
     if list_ex (\<lambda>a. case a of None \<Rightarrow> True | Some x \<Rightarrow> ad_LockSecretHash x = 0) (c_AnnouceDisposed c)
     then Ret (Some AnnouceDisposedError)
     else if list_ex (\<lambda>s. case s of None \<Rightarrow> True | Some x \<Rightarrow> se_Secret x = 0) (c_Secrets c)
     then Ret (Some SecretError)
     else if \<not> (ut_Nonce (c_UpdateTransfer c) > 0 \<or> length (c_Punishes c) > 0 \<or>
                length (c_AnnouceDisposed c) > 0 \<or> length (c_Secrets c) > 0)
     then Ret (Some EmptyDelegate)
     else Ret None))"

text \<open>The request is changed on success only: the settle block read from the chain is set.\<close>

definition VerifyDelegate :: "env \<Rightarrow> channelFor3rd \<Rightarrow> Address \<Rightarrow> (error + channelFor3rd) action" where
  "VerifyDelegate env c delegater w =
     (case env_TokenNetwork env (clock w) (c_TokenAddress c) of
        Some e \<Rightarrow> (Ret (Inl (ChainErr e)), tick w)
      | None \<Rightarrow>
        (case env_ChannelInfo env (Suc (clock w)) (c_TokenAddress c) (c_ChannelIdentifier c) of
           Inl e \<Rightarrow> (Ret (Inl (Wrapped (''channel '' @ Hash_String (c_ChannelIdentifier c) @ '' get channel info err '') (ChainErr e))), tick (tick w))
         | Inr (settleBlockNumber, openBlockNumber) \<Rightarrow>
             if openBlockNumber = 0 \<or> c_OpenBlockNumber c \<noteq> sint openBlockNumber
             then (Ret (Inl (OpenBlockNumberNotMatch (uint openBlockNumber) (c_OpenBlockNumber c))), tick (tick w))
             else
               (case verifyContent env c delegater of
                  Panic msg \<Rightarrow> (Panic msg, tick (tick w))
                | Ret (Some e) \<Rightarrow> (Ret (Inl e), tick (tick w))
                | Ret None \<Rightarrow> (Ret (Inr (SetSettleBlockNumber (sint settleBlockNumber) c)), tick (tick w)))))"

subsection \<open>The form of the messages\<close>

lemma bindO_Ret_iff: "bindO m f = Ret y \<longleftrightarrow> (\<exists>x. m = Ret x \<and> f x = Ret y)"
  by (cases m) auto

lemma decimal_lengths:
  "nat_decimal 176 = ''176''" "nat_decimal 144 = ''144''" "nat_decimal 136 = ''136''" "nat_decimal 188 = ''188''"
  by code_simp+

lemma closingMessage_Ret:
  assumes "closingMessage env c = Ret m"
  obtains amount chainID where "BigIntTo32Bytes (ut_TransferAmount (c_UpdateTransfer c)) = Ret amount"
    "BigIntTo32Bytes (Some (env_ChainID env)) = Ret chainID" "length amount = 32" "length chainID = 32"
    "m = ContractSignaturePrefix @ string_bytes ''176'' @
       amount @ word_bytes (ut_Locksroot (c_UpdateTransfer c)) @ int64_bytes (ut_Nonce (c_UpdateTransfer c)) @
       word_bytes (ut_ExtraHash (c_UpdateTransfer c)) @
       word_bytes (c_ChannelIdentifier c) @ int64_bytes (c_OpenBlockNumber c) @ chainID"
  using assms
  by (auto simp: closingMessage_def Let_def bindO_Ret_iff ContractBalanceProofMessageLength_def
      dest: BigIntTo32Bytes_Ret)

lemma nonClosingMessage_Ret:
  assumes "nonClosingMessage env c = Ret m"
  obtains amount chainID where "BigIntTo32Bytes (ut_TransferAmount (c_UpdateTransfer c)) = Ret amount"
    "BigIntTo32Bytes (Some (env_ChainID env)) = Ret chainID" "length amount = 32" "length chainID = 32"
    "m = ContractSignaturePrefix @ string_bytes ''144'' @
       amount @ word_bytes (ut_Locksroot (c_UpdateTransfer c)) @ int64_bytes (ut_Nonce (c_UpdateTransfer c)) @
       word_bytes (c_ChannelIdentifier c) @ int64_bytes (c_OpenBlockNumber c) @ chainID"
  using assms
  by (auto simp: nonClosingMessage_def Let_def bindO_Ret_iff ContractBalanceProofDelegateMessageLength_def
      dest: BigIntTo32Bytes_Ret)

lemma punishMessage_Ret:
  assumes "punishMessage env p c = Ret m"
  obtains chainID where "BigIntTo32Bytes (Some (env_ChainID env)) = Ret chainID" "length chainID = 32"
    "m = ContractSignaturePrefix @ string_bytes ''136'' @ word_bytes (pu_LockHash p) @
       word_bytes (c_ChannelIdentifier c) @ int64_bytes (c_OpenBlockNumber c) @ chainID @
       word_bytes (pu_AdditionalHash p)"
  using assms
  by (auto simp: punishMessage_def bindO_Ret_iff ContractDisposedProofMessageLength_def
      dest: BigIntTo32Bytes_Ret)

lemma unlockMessage_Ret:
  assumes "unlockMessage env l c = Ret m"
  obtains expiration amount chainID where "BigIntTo32Bytes (Some (Lock_Expiration l)) = Ret expiration"
    "BigIntTo32Bytes (Lock_Amount l) = Ret amount"
    "BigIntTo32Bytes (Some (env_ChainID env)) = Ret chainID"
    "length expiration = 32" "length amount = 32" "length chainID = 32"
    "m = ContractSignaturePrefix @ string_bytes ''188'' @ word_bytes (env_NodeAddress env) @ expiration @ amount @
       word_bytes (Lock_LockSecretHash l) @ word_bytes (c_ChannelIdentifier c) @
       int64_bytes (c_OpenBlockNumber c) @ chainID"
  using assms
  by (auto simp: unlockMessage_def bindO_Ret_iff ContractUnlockDelegateProofMessageLength_def
      dest: BigIntTo32Bytes_Ret)

lemma framedI:
  "m = p @ string_bytes s @ body \<Longrightarrow> length body = n \<Longrightarrow> nat_decimal n = s \<Longrightarrow>
   \<exists>body. m = p @ string_bytes (nat_decimal (length body)) @ body \<and> length body = n"
  by auto

lemma framed_closing: "closingMessage env c = Ret m \<Longrightarrow>
    \<exists>body. m = ContractSignaturePrefix @ string_bytes (nat_decimal (length body)) @ body \<and> length body = 176"
  by (elim closingMessage_Ret, rule framedI, assumption) (simp_all add: decimal_lengths)

lemma framed_nonClosing: "nonClosingMessage env c = Ret m \<Longrightarrow>
    \<exists>body. m = ContractSignaturePrefix @ string_bytes (nat_decimal (length body)) @ body \<and> length body = 144"
  by (elim nonClosingMessage_Ret, rule framedI, assumption) (simp_all add: decimal_lengths)

lemma framed_punish: "punishMessage env p c = Ret m \<Longrightarrow>
    \<exists>body. m = ContractSignaturePrefix @ string_bytes (nat_decimal (length body)) @ body \<and> length body = 136"
  by (elim punishMessage_Ret, rule framedI, assumption) (simp_all add: decimal_lengths)

lemma framed_unlock: "unlockMessage env l c = Ret m \<Longrightarrow>
    \<exists>body. m = ContractSignaturePrefix @ string_bytes (nat_decimal (length body)) @ body \<and> length body = 188"
  by (elim unlockMessage_Ret, rule framedI, assumption) (simp_all add: decimal_lengths)

subsection \<open>What each check decides\<close>

definition signedBy :: "env \<Rightarrow> byte list outcome \<Rightarrow> byte list \<Rightarrow> Address \<Rightarrow> bool" where
  "signedBy env msg sig a \<longleftrightarrow>
     (case msg of Panic _ \<Rightarrow> False | Ret m \<Rightarrow> env_ecrecover env (env_keccak env m) sig = Inr a)"

definition unlockVerified :: "env \<Rightarrow> channelFor3rd \<Rightarrow> Address \<Rightarrow> unlockReq option \<Rightarrow> bool" where
  "unlockVerified env c delegater p \<longleftrightarrow>
     (\<exists>u l. p = Some u \<and> un_Lock u = Some l \<and> Lock_Amount l \<noteq> None \<and>
        signedBy env (unlockMessage env l c) (un_Signature u) delegater)"

definition punishVerified :: "env \<Rightarrow> channelFor3rd \<Rightarrow> punishReq option \<Rightarrow> bool" where
  "punishVerified env c p \<longleftrightarrow>
     (\<exists>x. p = Some x \<and> signedBy env (punishMessage env x c) (pu_Signature x) (c_PartnerAddress c))"

definition proofVerified :: "env \<Rightarrow> channelFor3rd \<Rightarrow> Address \<Rightarrow> bool" where
  "proofVerified env c delegater \<longleftrightarrow>
     signedBy env (closingMessage env c) (ut_ClosingSignature (c_UpdateTransfer c)) (c_PartnerAddress c) \<and>
     c_PartnerAddress c \<noteq> delegater \<and>
     signedBy env (nonClosingMessage env c) (ut_NonClosingSignature (c_UpdateTransfer c)) delegater"

lemma signedBy_Ret [simp]: "signedBy env (Ret m) sig a \<longleftrightarrow> env_ecrecover env (env_keccak env m) sig = Inr a"
  by (simp add: signedBy_def)

lemma signedBy_Panic [simp]: "\<not> signedBy env (Panic msg) sig a"
  by (simp add: signedBy_def)

lemma verifyUnlocks_iff:
  "verifyUnlocks env c delegater ps = Ret None \<longleftrightarrow> (\<forall>p \<in> set ps. unlockVerified env c delegater p)"
proof (induction ps)
  case (Cons p ps)
  show ?case
  proof (cases p)
    case (Some u)
    show ?thesis
    proof (cases "un_Lock u")
      case lock: (Some l)
      show ?thesis
        using Some lock Cons
        by (cases "unlockMessage env l c")
          (auto simp: verifyUnlockSignature_def Ecrecover_def unlockVerified_def split: sum.splits)
    qed (use Some in \<open>simp add: unlockVerified_def\<close>)
  qed (simp add: unlockVerified_def)
qed simp

lemma verifyPunishes_iff:
  "verifyPunishes env c ps = Ret None \<longleftrightarrow> (\<forall>p \<in> set ps. punishVerified env c p)"
proof (induction ps)
  case (Cons p ps)
  show ?case
  proof (cases p)
    case (Some x)
    then show ?thesis
      using Cons
      by (cases "punishMessage env x c")
        (auto simp: verifyPunishSignature_def Ecrecover_def punishVerified_def split: sum.splits)
  qed (simp add: verifyPunishSignature_def punishVerified_def)
qed simp

lemma verifyBalanceProof_iff:
  assumes "ut_Nonce (c_UpdateTransfer c) > 0"
  shows "verifyBalanceProof env c delegater = Ret None \<longleftrightarrow>
     proofVerified env c delegater \<and> (\<forall>p \<in> set (c_Unlocks c). unlockVerified env c delegater p)"
  using assms verifyUnlocks_iff [of env c delegater "c_Unlocks c"]
  by (cases "closingMessage env c"; cases "nonClosingMessage env c")
    (auto simp: verifyBalanceProof_def verifyClosingSignature_def verifyNonClosingSignature_def Ecrecover_def
      proofVerified_def split: sum.splits)

lemma verifyContent_iff:
  "verifyContent env c delegater = Ret None \<longleftrightarrow>
     (ut_Nonce (c_UpdateTransfer c) > 0 \<longrightarrow>
        proofVerified env c delegater \<and> (\<forall>p \<in> set (c_Unlocks c). unlockVerified env c delegater p)) \<and>
     (\<forall>p \<in> set (c_Punishes c). punishVerified env c p) \<and>
     (\<forall>a \<in> set (c_AnnouceDisposed c). \<exists>x. a = Some x \<and> ad_LockSecretHash x \<noteq> 0) \<and>
     (\<forall>s \<in> set (c_Secrets c). \<exists>x. s = Some x \<and> se_Secret x \<noteq> 0) \<and>
     (ut_Nonce (c_UpdateTransfer c) > 0 \<or> c_Punishes c \<noteq> [] \<or> c_AnnouceDisposed c \<noteq> [] \<or> c_Secrets c \<noteq> [])"
proof -
  have proof_part: "(if ut_Nonce (c_UpdateTransfer c) > 0 then verifyBalanceProof env c delegater else Ret None) = Ret None \<longleftrightarrow>
      (ut_Nonce (c_UpdateTransfer c) > 0 \<longrightarrow>
        proofVerified env c delegater \<and> (\<forall>p \<in> set (c_Unlocks c). unlockVerified env c delegater p))"
    using verifyBalanceProof_iff [of c env delegater] by simp
  have punish_part: "(if length (c_Punishes c) > 0 then verifyPunishes env c (c_Punishes c) else Ret None) = Ret None \<longleftrightarrow>
      (\<forall>p \<in> set (c_Punishes c). punishVerified env c p)"
    by (simp add: verifyPunishes_iff)
  have then_iff: "bindO m (\<lambda>err. case err of Some e \<Rightarrow> Ret (Some e) | None \<Rightarrow> k) = Ret None \<longleftrightarrow> m = Ret None \<and> k = Ret None"
    for m and k :: "error option outcome"
    by (cases m) (auto split: option.splits)
  show ?thesis
    unfolding verifyContent_def then_iff proof_part punish_part
    by (auto simp: list_ex_iff split: option.splits if_splits)
qed

lemma verified_request_ok:
  assumes "verifyContent env c delegater = Ret None"
    and "ut_Nonce (c_UpdateTransfer c) > 0 \<or> (\<exists>us. GetDelegateUnlocks c = Ret us)"
  shows "request_ok c"
proof -
  from assms have v: "ut_Nonce (c_UpdateTransfer c) > 0 \<longrightarrow> (\<forall>p \<in> set (c_Unlocks c). unlockVerified env c delegater p)"
      "\<forall>p \<in> set (c_Punishes c). punishVerified env c p"
      "\<forall>a \<in> set (c_AnnouceDisposed c). \<exists>x. a = Some x \<and> ad_LockSecretHash x \<noteq> 0"
      "\<forall>s \<in> set (c_Secrets c). \<exists>x. s = Some x \<and> se_Secret x \<noteq> 0"
    by (simp_all add: verifyContent_iff)
  have "\<exists>us. GetDelegateUnlocks c = Ret us"
  proof (cases "ut_Nonce (c_UpdateTransfer c) > 0")
    case True
    with v(1) show ?thesis
      unfolding GetDelegateUnlocks_def by (intro mapOutcome_total) (auto simp: unlockVerified_def toDelegateUnlock_def)
  qed (use assms(2) in blast)
  moreover have "\<exists>ss. GetDeleteSecrets c = Ret ss"
    unfolding GetDeleteSecrets_def
    using v(4) by (intro mapOutcome_total) (auto simp: toDelegateSecret_def)
  ultimately show ?thesis using v(2,3) by (auto simp: request_ok_def punishVerified_def)
qed

lemma verifyContent_request_ok:
  "verifyContent env c delegater = Ret None \<Longrightarrow> ut_Nonce (c_UpdateTransfer c) > 0 \<Longrightarrow> request_ok c"
  using verified_request_ok by blast

subsection \<open>Properties\<close>

text \<open>
  C28. A request is accepted exactly when: the token network and the channel are found on chain, the
  channel's opening block is not 0 and is the one of the request; with a positive nonce, the partner
  signed the closing message, the delegator (another address) signed the non-closing message and
  the unlock message of every lock; the partner signed the evidence of every punish; no disposed lock and
  no secret is nil or zero; and the request is not empty.  What is accepted is the request with the
  settle block of the chain.  Nothing else is checked: not that a secret belongs to one of the locks, nor that a lock is in the
  locks root, which the comments of the interface and of the handler ask for.
\<close>
theorem verify_accepts_iff:
  "(\<exists>w'. VerifyDelegate env c delegater w = (Ret (Inr c'), w')) \<longleftrightarrow>
   (\<exists>settleBlock openBlock.
     env_TokenNetwork env (clock w) (c_TokenAddress c) = None \<and>
     env_ChannelInfo env (Suc (clock w)) (c_TokenAddress c) (c_ChannelIdentifier c) = Inr (settleBlock, openBlock) \<and>
     openBlock \<noteq> 0 \<and> c_OpenBlockNumber c = sint openBlock \<and>
     c' = c\<lparr>c_settleBlockNumber := sint settleBlock\<rparr>) \<and>
   (ut_Nonce (c_UpdateTransfer c) > 0 \<longrightarrow>
      signedBy env (closingMessage env c) (ut_ClosingSignature (c_UpdateTransfer c)) (c_PartnerAddress c) \<and>
      c_PartnerAddress c \<noteq> delegater \<and>
      signedBy env (nonClosingMessage env c) (ut_NonClosingSignature (c_UpdateTransfer c)) delegater \<and>
      (\<forall>p \<in> set (c_Unlocks c). unlockVerified env c delegater p)) \<and>
   (\<forall>p \<in> set (c_Punishes c). punishVerified env c p) \<and>
   (\<forall>a \<in> set (c_AnnouceDisposed c). \<exists>x. a = Some x \<and> ad_LockSecretHash x \<noteq> 0) \<and>
   (\<forall>s \<in> set (c_Secrets c). \<exists>x. s = Some x \<and> se_Secret x \<noteq> 0) \<and>
   (ut_Nonce (c_UpdateTransfer c) > 0 \<or> c_Punishes c \<noteq> [] \<or> c_AnnouceDisposed c \<noteq> [] \<or> c_Secrets c \<noteq> [])"
proof -
  have "(\<exists>w'. VerifyDelegate env c delegater w = (Ret (Inr c'), w')) \<longleftrightarrow>
    (\<exists>settleBlock openBlock.
     env_TokenNetwork env (clock w) (c_TokenAddress c) = None \<and>
     env_ChannelInfo env (Suc (clock w)) (c_TokenAddress c) (c_ChannelIdentifier c) = Inr (settleBlock, openBlock) \<and>
     openBlock \<noteq> 0 \<and> c_OpenBlockNumber c = sint openBlock \<and>
     c' = c\<lparr>c_settleBlockNumber := sint settleBlock\<rparr>) \<and> verifyContent env c delegater = Ret None"
    by (auto simp: VerifyDelegate_def SetSettleBlockNumber_def
        split: option.splits sum.splits outcome.splits if_splits)
  then show ?thesis by (simp only: verifyContent_iff proofVerified_def conj_assoc)
qed

text \<open>
  Every message whose signature is checked is the contracts' prefix, the decimal length of a body, and
  a body of exactly that length.
\<close>
lemma signed_message_form:
  assumes "Ret m \<in> {closingMessage env c, nonClosingMessage env c, punishMessage env p c, unlockMessage env l c}"
  shows "\<exists>body. m = ContractSignaturePrefix @ string_bytes (nat_decimal (length body)) @ body"
  using assms framed_closing [of env c m] framed_nonClosing [of env c m] framed_punish [of env p c m]
    framed_unlock [of env l c m]
  by (auto simp: eq_commute [of "Ret m"])

text \<open>
  C35. A closing signature speaks for one balance proof only: equal closing messages have the same nonce,
  locksroot, extra hash, channel and opening block, and transferred amounts of the same absolute
  value.  The sign of the amount is not covered.
\<close>
theorem closing_message_binds:
  assumes "closingMessage env c = Ret m" "closingMessage env c' = Ret m"
    and "in_int64 (ut_Nonce (c_UpdateTransfer c))" "in_int64 (ut_Nonce (c_UpdateTransfer c'))"
    and "in_int64 (c_OpenBlockNumber c)" "in_int64 (c_OpenBlockNumber c')"
  shows "ut_Nonce (c_UpdateTransfer c) = ut_Nonce (c_UpdateTransfer c') \<and>
    ut_Locksroot (c_UpdateTransfer c) = ut_Locksroot (c_UpdateTransfer c') \<and>
    ut_ExtraHash (c_UpdateTransfer c) = ut_ExtraHash (c_UpdateTransfer c') \<and>
    c_ChannelIdentifier c = c_ChannelIdentifier c' \<and> c_OpenBlockNumber c = c_OpenBlockNumber c' \<and>
    (\<exists>x y. ut_TransferAmount (c_UpdateTransfer c) = Some x \<and> ut_TransferAmount (c_UpdateTransfer c') = Some y \<and> \<bar>x\<bar> = \<bar>y\<bar>)"
proof (rule closingMessage_Ret [OF assms(1)], rule closingMessage_Ret [OF assms(2)])
  fix a ch a' ch'
  assume a: "BigIntTo32Bytes (ut_TransferAmount (c_UpdateTransfer c)) = Ret a"
      "BigIntTo32Bytes (ut_TransferAmount (c_UpdateTransfer c')) = Ret a'"
    and len: "length a = 32" "length a' = 32" "length ch = 32" "length ch' = 32"
    and m: "m = ContractSignaturePrefix @ string_bytes ''176'' @
       a @ word_bytes (ut_Locksroot (c_UpdateTransfer c)) @ int64_bytes (ut_Nonce (c_UpdateTransfer c)) @
       word_bytes (ut_ExtraHash (c_UpdateTransfer c)) @
       word_bytes (c_ChannelIdentifier c) @ int64_bytes (c_OpenBlockNumber c) @ ch"
      "m = ContractSignaturePrefix @ string_bytes ''176'' @
       a' @ word_bytes (ut_Locksroot (c_UpdateTransfer c')) @ int64_bytes (ut_Nonce (c_UpdateTransfer c')) @
       word_bytes (ut_ExtraHash (c_UpdateTransfer c')) @
       word_bytes (c_ChannelIdentifier c') @ int64_bytes (c_OpenBlockNumber c') @ ch'"
  from m len have eqs: "a = a'" "ut_Locksroot (c_UpdateTransfer c) = ut_Locksroot (c_UpdateTransfer c')"
    "int64_bytes (ut_Nonce (c_UpdateTransfer c)) = int64_bytes (ut_Nonce (c_UpdateTransfer c'))"
    "ut_ExtraHash (c_UpdateTransfer c) = ut_ExtraHash (c_UpdateTransfer c')"
    "c_ChannelIdentifier c = c_ChannelIdentifier c'"
    "int64_bytes (c_OpenBlockNumber c) = int64_bytes (c_OpenBlockNumber c')"
    by (auto simp: word_bytes_inject)
  then show ?thesis
    using assms(3-6) int64_bytes_inject BigIntTo32Bytes_Ret [OF a(1)] BigIntTo32Bytes_Ret [OF a(2)] by auto
qed

text \<open>
  C36. Messages of two kinds never coincide: no signature given for one purpose passes for another, unless the
  hash collides.
\<close>
theorem message_kinds_disjoint:
  assumes "closingMessage env c1 = Ret m1" "nonClosingMessage env c2 = Ret m2"
    "punishMessage env p c3 = Ret m3" "unlockMessage env l c4 = Ret m4"
  shows "distinct [m1, m2, m3, m4]"
proof -
  have len: "length m1 = length ContractSignaturePrefix + 179" "length m2 = length ContractSignaturePrefix + 147"
    "length m3 = length ContractSignaturePrefix + 139" "length m4 = length ContractSignaturePrefix + 191"
    using framed_closing [OF assms(1)] framed_nonClosing [OF assms(2)] framed_punish [OF assms(3)]
      framed_unlock [OF assms(4)]
    by (auto simp: decimal_lengths string_bytes_def)
  then have "m1 \<noteq> m2" "m1 \<noteq> m3" "m1 \<noteq> m4" "m2 \<noteq> m3" "m2 \<noteq> m4" "m3 \<noteq> m4" by auto
  then show ?thesis by simp
qed

text \<open>
  With a nonce that is not positive the locks of a request are not looked at: whatever they are
  (unsigned, or nil), the answer is the same, and they are handed on as they are.
\<close>
lemma locks_unchecked_without_proof:
  assumes "ut_Nonce (c_UpdateTransfer c) \<le> 0" "VerifyDelegate env c delegater w = (Ret (Inr c'), w')"
  shows "VerifyDelegate env (c\<lparr>c_Unlocks := locks\<rparr>) delegater w = (Ret (Inr (c'\<lparr>c_Unlocks := locks\<rparr>)), w')"
proof -
  have pm: "punishMessage env p (c\<lparr>c_Unlocks := locks\<rparr>) = punishMessage env p c" for p
    by (simp add: punishMessage_def)
  have "verifyPunishes env (c\<lparr>c_Unlocks := locks\<rparr>) ps = verifyPunishes env c ps" for ps
    by (induction ps) (simp_all add: verifyPunishSignature_def pm cong: if_cong option.case_cong)
  then have "verifyContent env (c\<lparr>c_Unlocks := locks\<rparr>) delegater = verifyContent env c delegater"
    using assms(1) by (simp add: verifyContent_def)
  with assms(2) show ?thesis
    by (auto simp: VerifyDelegate_def SetSettleBlockNumber_def
        split: option.splits sum.splits outcome.splits if_splits)
qed

text \<open>
  An accepted request with a positive nonce has no nil entry: storing it cannot panic on one.
\<close>
lemma accepted_proof_has_no_nil:
  assumes "VerifyDelegate env c delegater w = (Ret (Inr c'), w')" "ut_Nonce (c_UpdateTransfer c) > 0"
  shows "request_ok c'"
proof -
  have "verifyContent env c delegater = Ret None" and c': "\<exists>n. c' = SetSettleBlockNumber n c"
    using assms(1) by (auto simp: VerifyDelegate_def split: option.splits sum.splits outcome.splits if_splits)
  with verifyContent_request_ok [OF _ assms(2)] have "request_ok c" by blast
  with c' show ?thesis
    by (auto simp: SetSettleBlockNumber_def request_ok_def GetDelegateUnlocks_def GetDeleteSecrets_def)
qed

subsection \<open>Concrete applications\<close>

text \<open>
  An outside in which the recovered signer is the first byte of the signature, and a request signed
  accordingly: partner 8, delegator 7.
\<close>

definition signingEnv :: env where
  "signingEnv = quietEnv\<lparr>env_ecrecover := \<lambda>h sig. case sig of [] \<Rightarrow> Inl ''signature errr'' | b # _ \<Rightarrow> Inr (ucast b)\<rparr>"

definition signedRequest :: channelFor3rd where
  "signedRequest = sampleRequest\<lparr>
     c_UpdateTransfer := (c_UpdateTransfer sampleRequest)\<lparr>ut_ClosingSignature := [8], ut_NonClosingSignature := [7]\<rparr>,
     c_Punishes := [Some \<lparr>pu_LockHash = 17, pu_AdditionalHash = 19, pu_Signature = [8], pu_TxStatus = 0,
        pu_TxError = '''', pu_TxHash = 0\<rparr>]\<rparr>"

lemma chainID_bytes: "\<exists>bs. BigIntTo32Bytes (Some (env_ChainID signingEnv)) = Ret bs"
  by (rule BigIntTo32Bytes_uint256) (simp_all add: signingEnv_def quietEnv_def)

lemma amount_bytes: "\<exists>bs. BigIntTo32Bytes (Some 200) = Ret bs"
  by (rule BigIntTo32Bytes_uint256) simp_all

lemma signed_messages:
  "\<exists>m. closingMessage signingEnv signedRequest = Ret m" "\<exists>m. nonClosingMessage signingEnv signedRequest = Ret m"
  "\<exists>m. punishMessage signingEnv p signedRequest = Ret m"
  using chainID_bytes amount_bytes
  by (auto simp: closingMessage_def nonClosingMessage_def punishMessage_def signedRequest_def sampleRequest_def)

lemma unlock_message: "\<exists>m. unlockMessage signingEnv
    \<lparr>Lock_Expiration = 200, Lock_Amount = Some 200, Lock_LockSecretHash = 3\<rparr> signedRequest = Ret m"
  using chainID_bytes amount_bytes by (auto simp: unlockMessage_def)

lemma signingEnv_sel [simp]:
  "env_ecrecover signingEnv h [8] = Inr 8" "env_ecrecover signingEnv h [7] = Inr 7"
  "env_TokenNetwork signingEnv n t = None" "env_ChannelInfo signingEnv n t i = Inr (0, 3)"
  by (simp_all add: signingEnv_def quietEnv_def)

lemma signedRequest_sel:
  "c_UpdateTransfer signedRequest = (c_UpdateTransfer sampleRequest)\<lparr>ut_ClosingSignature := [8], ut_NonClosingSignature := [7]\<rparr>"
  "c_PartnerAddress signedRequest = 8" "c_Unlocks signedRequest = []" "c_AnnouceDisposed signedRequest = []"
  "c_OpenBlockNumber signedRequest = 3" "ut_Nonce (c_UpdateTransfer signedRequest) = 2"
  by (simp_all add: signedRequest_def sampleRequest_def)

lemma signedRequest_content: "verifyContent signingEnv signedRequest 7 = Ret None"
proof -
  obtain m1 m2 where "closingMessage signingEnv signedRequest = Ret m1" "nonClosingMessage signingEnv signedRequest = Ret m2"
    using signed_messages by blast
  then have "proofVerified signingEnv signedRequest 7"
    by (simp add: proofVerified_def signedRequest_sel)
  moreover have "\<forall>p \<in> set (c_Punishes signedRequest). punishVerified signingEnv signedRequest p"
  proof -
    let ?p = "\<lparr>pu_LockHash = 17, pu_AdditionalHash = 19, pu_Signature = [8], pu_TxStatus = 0,
        pu_TxError = '''', pu_TxHash = 0\<rparr>"
    obtain m where "punishMessage signingEnv ?p signedRequest = Ret m" using signed_messages(3) by blast
    then have "punishVerified signingEnv signedRequest (Some ?p)" by (simp add: punishVerified_def signedRequest_sel)
    then show ?thesis by (simp add: signedRequest_def)
  qed
  moreover have "\<forall>s \<in> set (c_Secrets signedRequest). \<exists>x. s = Some x \<and> se_Secret x \<noteq> 0"
    by (simp add: signedRequest_def sampleRequest_def)
  ultimately show ?thesis unfolding verifyContent_iff by (simp add: signedRequest_sel)
qed

lemma signedRequest_accepted:
  "\<exists>w'. VerifyDelegate signingEnv signedRequest 7 w = (Ret (Inr (signedRequest\<lparr>c_settleBlockNumber := 0\<rparr>)), w')"
  using signedRequest_content by (simp add: VerifyDelegate_def SetSettleBlockNumber_def signedRequest_sel)

theorem verify_accepts_iff_witness:
  "(\<exists>w'. VerifyDelegate signingEnv signedRequest 7 freshWorld = (Ret (Inr (signedRequest\<lparr>c_settleBlockNumber := 0\<rparr>)), w')) \<and>
   signedBy signingEnv (closingMessage signingEnv signedRequest) [8] 8"
  using verify_accepts_iff [of signingEnv signedRequest 7 freshWorld "signedRequest\<lparr>c_settleBlockNumber := 0\<rparr>"]
    signedRequest_accepted [of freshWorld]
  by (simp add: signedRequest_sel)

lemma signed_message_form_witness:
  "\<exists>m body. closingMessage signingEnv signedRequest = Ret m \<and>
     m = ContractSignaturePrefix @ string_bytes (nat_decimal (length body)) @ body"
proof -
  obtain m where m: "closingMessage signingEnv signedRequest = Ret m" using signed_messages(1) by blast
  show ?thesis
    using m signed_message_form [of m signingEnv signedRequest
        "\<lparr>pu_LockHash = 17, pu_AdditionalHash = 19, pu_Signature = [8], pu_TxStatus = 0, pu_TxError = '''', pu_TxHash = 0\<rparr>"
        "\<lparr>Lock_Expiration = 0, Lock_Amount = None, Lock_LockSecretHash = 0\<rparr>"] by auto
qed

theorem closing_message_binds_witness:
  "\<exists>m x y. closingMessage signingEnv signedRequest = Ret m \<and>
     ut_TransferAmount (c_UpdateTransfer signedRequest) = Some x \<and>
     ut_TransferAmount (c_UpdateTransfer signedRequest) = Some y \<and> \<bar>x\<bar> = \<bar>y\<bar>"
proof -
  obtain m where m: "closingMessage signingEnv signedRequest = Ret m" using signed_messages(1) by blast
  have "in_int64 (ut_Nonce (c_UpdateTransfer signedRequest))" "in_int64 (c_OpenBlockNumber signedRequest)"
    by (simp_all add: signedRequest_sel in_int64_def)
  with closing_message_binds [OF m m] m show ?thesis by blast
qed

theorem message_kinds_disjoint_witness:
  "\<exists>m1 m2 m3 m4. closingMessage signingEnv signedRequest = Ret m1 \<and> nonClosingMessage signingEnv signedRequest = Ret m2 \<and>
     punishMessage signingEnv \<lparr>pu_LockHash = 17, pu_AdditionalHash = 19, pu_Signature = [8], pu_TxStatus = 0,
        pu_TxError = '''', pu_TxHash = 0\<rparr> signedRequest = Ret m3 \<and>
     unlockMessage signingEnv \<lparr>Lock_Expiration = 200, Lock_Amount = Some 200, Lock_LockSecretHash = 3\<rparr> signedRequest = Ret m4 \<and>
     distinct [m1, m2, m3, m4]"
  using signed_messages unlock_message message_kinds_disjoint by meson

lemma locks_unchecked_without_proof_witness:
  "\<exists>c' w'. VerifyDelegate signingEnv (signedRequest\<lparr>c_UpdateTransfer := (c_UpdateTransfer signedRequest)\<lparr>ut_Nonce := 0\<rparr>,
       c_Unlocks := [None]\<rparr>) 7 freshWorld = (Ret (Inr c'), w') \<and> c_Unlocks c' = [None]"
proof -
  let ?c = "signedRequest\<lparr>c_UpdateTransfer := (c_UpdateTransfer signedRequest)\<lparr>ut_Nonce := 0\<rparr>\<rparr>"
  have "punishVerified signingEnv ?c p = punishVerified signingEnv signedRequest p" for p
    by (simp add: punishVerified_def punishMessage_def)
  then have "verifyContent signingEnv ?c 7 = Ret None"
    using signedRequest_content unfolding verifyContent_iff by (simp add: signedRequest_sel) (simp add: signedRequest_def sampleRequest_def)
  then obtain c' w' where "VerifyDelegate signingEnv ?c 7 freshWorld = (Ret (Inr c'), w')"
    by (simp add: VerifyDelegate_def signedRequest_sel)
  with locks_unchecked_without_proof [OF _ this, of "[None]"] show ?thesis
    by (intro exI [of _ "c'\<lparr>c_Unlocks := [None]\<rparr>"] exI [of _ w']) simp
qed

lemma accepted_proof_has_no_nil_witness: "request_ok (signedRequest\<lparr>c_settleBlockNumber := 0\<rparr>)"
proof -
  obtain w' where "VerifyDelegate signingEnv signedRequest 7 freshWorld = (Ret (Inr (signedRequest\<lparr>c_settleBlockNumber := 0\<rparr>)), w')"
    using signedRequest_accepted by blast
  from accepted_proof_has_no_nil [OF this] show ?thesis by (simp add: signedRequest_sel)
qed

end
