(* ===== verification/PM_Transfer.thy ===== *)
theory PM_Transfer
  imports PM_Account
begin

text \<open>
  \<open>models/transfer.go\<close>: the transfers of tokens to the service that are already recorded.

  The lemmas show that a recorded transfer is never replaced, that its key identifies the channel,
  its opening block and the nonce, and which transfers a block range selects.
\<close>

definition rt_ChannelIdentifier :: "receivedTransfer \<Rightarrow> Hash" where
  "rt_ChannelIdentifier rt = HexToHash (rt_ChannelIdentifierStr rt)"

definition rt_TokenAddress :: "receivedTransfer \<Rightarrow> Address" where
  "rt_TokenAddress rt = HexToAddress (rt_TokenAddressStr rt)"

definition rt_FromAddress :: "receivedTransfer \<Rightarrow> Address" where
  "rt_FromAddress rt = HexToAddress (rt_FromAddressStr rt)"

definition rt_Amount :: "receivedTransfer \<Rightarrow> int" where
  "rt_Amount rt = StringToBigInt (rt_AmountStr rt)"

definition GetReceivedTransfer :: "env \<Rightarrow> string \<Rightarrow> (error + receivedTransfer) action" where
  "GetReceivedTransfer env key =
     db_query env (\<lambda>db. gorm_find (gorm_where blankList rt_Key key (tTransfer db)))"

definition IsReceivedTransferExist :: "env \<Rightarrow> string \<Rightarrow> bool action" where
  "IsReceivedTransferExist env key =
     bindA (db_query env (\<lambda>db. gorm_find (gorm_where blankList rt_Key key (tTransfer db)))) (\<lambda>r.
     returnA (case r of Inl _ \<Rightarrow> False | Inr _ \<Rightarrow> True))"

text \<open>\<open>fmt.Sprintf("\%s-\%d-\%d", ...)\<close>.\<close>

definition transferKey :: "Hash \<Rightarrow> int \<Rightarrow> int \<Rightarrow> string" where
  "transferKey channelIdentifier openBlockNumber nonce =
     Hash_String channelIdentifier @ ''-'' @ BigInt_String openBlockNumber @ ''-'' @ BigInt_String nonce"

definition NewReceivedTransfer ::
    "env \<Rightarrow> int \<Rightarrow> Hash \<Rightarrow> int \<Rightarrow> Address \<Rightarrow> Address \<Rightarrow> int \<Rightarrow> int \<Rightarrow> unit action" where
  "NewReceivedTransfer env blockNumber channelIdentifier openBlockNumber tokenAddr fromAddr nonce amount =
     (let key = transferKey channelIdentifier openBlockNumber nonce;
          st = \<lparr>rt_Key = key, rt_BlockNumber = blockNumber,
                rt_ChannelIdentifierStr = Hash_String channelIdentifier,
                rt_OpenBlockNumber = openBlockNumber,
                rt_TokenAddressStr = Address_Hex (env_keccak env) tokenAddr,
                rt_FromAddressStr = Address_Hex (env_keccak env) fromAddr,
                rt_Nonce = nonce, rt_AmountStr = BigInt_String amount\<rparr> in
      bindA (GetReceivedTransfer env key) (\<lambda>r.
      case r of Inr _ \<Rightarrow> returnA () | Inl _ \<Rightarrow>
      bindA (db_write env (saveTransfer st)) (\<lambda>_. returnA ())))"

text \<open>True for a transfer that was not found, also when saving it then fails.\<close>

definition NewReceiveTransferFromReceiveTransfer :: "env \<Rightarrow> receivedTransfer \<Rightarrow> bool action" where
  "NewReceiveTransferFromReceiveTransfer env tr =
     bindA (GetReceivedTransfer env (rt_Key tr)) (\<lambda>r.
     case r of Inr _ \<Rightarrow> returnA False | Inl _ \<Rightarrow>
     bindA (db_write env (saveTransfer tr)) (\<lambda>_. returnA True))"

definition GetReceivedTransferInBlockRange :: "env \<Rightarrow> int \<Rightarrow> int \<Rightarrow> (error + receivedTransfer list) action" where
  "GetReceivedTransferInBlockRange env fromBlock0 toBlock0 =
     (let fromBlock = (if fromBlock0 < 0 then 0 else fromBlock0);
          toBlock = (if toBlock0 < 0 then 2 ^ 63 - 1 else toBlock0) in
      db_query env (\<lambda>db. Inr
        (let d = tTransfer db;
             d = (if fromBlock > 0 then filter (\<lambda>t. rt_BlockNumber t \<ge> fromBlock) d else d);
             d = (if toBlock > 0 then filter (\<lambda>t. rt_BlockNumber t < toBlock) d else d)
         in d)))"

subsection \<open>Lemmas\<close>

lemma keeps_GetReceivedTransfer [keeps_rules]: "keeps (on_store I) (GetReceivedTransfer env k)"
  unfolding GetReceivedTransfer_def by (rule keeps_db_query)

lemma keeps_IsReceivedTransferExist [keeps_rules]: "keeps (on_store I) (IsReceivedTransferExist env k)"
  unfolding IsReceivedTransferExist_def by (intro keeps_rules)

lemma keeps_GetReceivedTransferInBlockRange [keeps_rules]:
  "keeps (on_store I) (GetReceivedTransferInBlockRange env a b)"
  unfolding GetReceivedTransferInBlockRange_def by (intro keeps_rules)

lemma keeps_NewReceiveTransferFromReceiveTransfer:
  assumes "\<And>db. I db \<Longrightarrow> I (saveTransfer tr db)"
  shows "keeps (on_store I) (NewReceiveTransferFromReceiveTransfer env tr)"
  unfolding NewReceiveTransferFromReceiveTransfer_def by (intro keeps_rules keeps_db_write assms; assumption)

definition transfers_ok :: "modeldb \<Rightarrow> bool" where
  "transfers_ok db \<longleftrightarrow> distinct (map rt_Key (tTransfer db))"

lemma GetReceivedTransfer_ok [simp]:
  assumes "no_faults env" "transfers_ok (store w)" "key \<noteq> []"
  shows "GetReceivedTransfer env key w =
     (Ret (case transferBy key (store w) of None \<Rightarrow> Inl ErrRecordNotFound | Some t \<Rightarrow> Inr t), tick w)"
  using assms by (simp add: GetReceivedTransfer_def gorm_find_where_key transfers_ok_def)

lemma NewReceiveTransferFromReceiveTransfer_ok:
  assumes "no_faults env" "transfers_ok (store w)" "rt_Key tr \<noteq> []"
  shows "NewReceiveTransferFromReceiveTransfer env tr w =
     (case transferBy (rt_Key tr) (store w) of
        Some _ \<Rightarrow> (Ret False, tick w)
      | None \<Rightarrow> (Ret True, w\<lparr>clock := clock w + 2, store := (store w)\<lparr>tTransfer := tTransfer (store w) @ [tr]\<rparr>\<rparr>))"
  using assms
  by (auto simp: NewReceiveTransferFromReceiveTransfer_def saveTransfer_def gorm_save_def rowBy_None
      dest!: rowBy_Some split: option.split) (metis imageI)

lemma nat_decimal_chars: "c \<in> set (nat_decimal n) \<Longrightarrow> \<exists>d < 10. c = digit_char d"
proof (induction n arbitrary: c rule: nat_decimal.induct)
  case (1 n)
  then show ?case
    by (subst (asm) (2) nat_decimal.simps) (auto split: if_splits intro: exI [of _ "n mod 10"])
qed

lemma nat_decimal_no_dash: "CHR ''-'' \<notin> set (nat_decimal n)"
proof
  assume "CHR ''-'' \<in> set (nat_decimal n)"
  then obtain d where "d < 10" "CHR ''-'' = digit_char d" using nat_decimal_chars by blast
  then have "digit_val (CHR ''-'') = Some d" by simp
  then show False by (simp add: digit_val_def)
qed

lemma nat_decimal_inject: "nat_decimal m = nat_decimal n \<longleftrightarrow> m = n"
  by (metis scan_nat_decimal option.inject)

lemma append_dash_inject:
  "c \<notin> set xs \<Longrightarrow> c \<notin> set ys \<Longrightarrow> xs @ c # us = ys @ c # vs \<longleftrightarrow> xs = ys \<and> us = vs"
proof (induction xs arbitrary: ys)
  case Nil
  then show ?case by (cases ys) auto
next
  case (Cons x xs)
  then show ?case by (cases ys) auto
qed

lemma BigInt_String_inject: "BigInt_String x = BigInt_String y \<longleftrightarrow> x = y"
  by (metis SetString_String option.inject)

lemma decimal_dash_inject:
  "BigInt_String x @ CHR ''-'' # us = BigInt_String y @ CHR ''-'' # vs \<longleftrightarrow> x = y \<and> us = vs"
proof -
  have start: "nat_decimal n @ us' \<noteq> CHR ''-'' # vs'" for n us' vs'
    using nat_decimal_no_dash [of n] by (cases "nat_decimal n") auto
  show ?thesis
    using start start [symmetric]
    by (auto simp: BigInt_String_def append_dash_inject nat_decimal_no_dash nat_decimal_inject)
qed

lemma length_Hash_String [simp]: "length (Hash_String h) = 66"
  by (simp add: Hash_String_def)

subsection \<open>Properties\<close>

text \<open>
  The key under which a received transfer is recorded identifies the channel, the block in which it
  was opened and the nonce of the transfer.
\<close>
lemma transfer_key_identifies:
  "transferKey c b n = transferKey c' b' n' \<longleftrightarrow> c = c' \<and> b = b' \<and> n = n'"
  by (auto simp: transferKey_def Hash_String_inject decimal_dash_inject BigInt_String_inject)

text \<open>
  The transfers of a block range, when no statement fails: with \<open>toBlock\<close> positive or negative exactly
  those from \<open>fromBlock\<close> on and before \<open>toBlock\<close> (a negative \<open>toBlock\<close> is the greatest
  \<open>int64\<close>); with \<open>toBlock\<close> zero there is no upper bound.
\<close>
lemma transfers_in_block_range:
  assumes "no_faults env" and "\<forall>t \<in> set (tTransfer (store w)). 0 \<le> rt_BlockNumber t"
  shows "GetReceivedTransferInBlockRange env fromBlock toBlock w =
     (Ret (Inr (filter (\<lambda>t. fromBlock \<le> rt_BlockNumber t \<and>
        (toBlock = 0 \<or> rt_BlockNumber t < (if toBlock < 0 then 2 ^ 63 - 1 else toBlock)))
        (tTransfer (store w)))), tick w)"
proof -
  have "(if b then filter P xs else xs) = filter (\<lambda>t. b \<longrightarrow> P t) xs" for b P and xs :: "receivedTransfer list"
    by simp
  with assms show ?thesis
    by (auto simp: GetReceivedTransferInBlockRange_def Let_def simp del: if_split intro!: filter_cong)
qed

definition sampleTransfer :: "int \<Rightarrow> string \<Rightarrow> receivedTransfer" where
  "sampleTransfer block key =
     \<lparr>rt_Key = key, rt_BlockNumber = block, rt_ChannelIdentifierStr = Hash_String 5, rt_OpenBlockNumber = 3,
      rt_TokenAddressStr = ''0x292650fee408320D888e06ed89D938294Ea42f99'',
      rt_FromAddressStr = Address_Hex (env_keccak quietEnv) 7, rt_Nonce = 1, rt_AmountStr = ''50''\<rparr>"

lemma transfers_in_block_range_witness:
  "GetReceivedTransferInBlockRange quietEnv 10 20
     (freshWorld\<lparr>store := emptyDb\<lparr>tTransfer := [sampleTransfer 9 ''a'', sampleTransfer 12 ''b'', sampleTransfer 20 ''c'']\<rparr>\<rparr>)
   = (Ret (Inr [sampleTransfer 12 ''b'']), freshWorld\<lparr>clock := 1,
       store := emptyDb\<lparr>tTransfer := [sampleTransfer 9 ''a'', sampleTransfer 12 ''b'', sampleTransfer 20 ''c'']\<rparr>\<rparr>)"
  by (subst transfers_in_block_range) (simp_all add: sampleTransfer_def freshWorld_def)

end
