(* ===== verification/PM_Smt.thy ===== *)
theory PM_Smt
  imports PM_Transfer
begin

text \<open>
  \<open>smt/listeningsmt.go\<close>: the polling of the Photon node for the transfers that pay for the service.

  \<open>ledger\<close> is the books of the service: every account's total is the sum of the recorded transfers
  from its address.  The lemmas show that a poll keeps the books, records every payment of the answer
  once, and that repeated answers change nothing.
\<close>

record query =
  q_url :: string
  q_from :: int
  q_stopped :: bool

definition NewSmtQuery :: "string \<Rightarrow> int \<Rightarrow> query" where
  "NewSmtQuery url fromBlockNumber = \<lparr>q_url = url, q_from = fromBlockNumber, q_stopped = False\<rparr>"

definition Stop :: "query \<Rightarrow> query" where
  "Stop s = s\<lparr>q_stopped := True\<rparr>"

text \<open>
  What the node's HTTP interface answers to a URL: no response, an unreadable body, a body that is
  not a list of transfers, or the list (a JSON \<open>null\<close> is a nil pointer).
\<close>

datatype smtResponse =
    GetErr string
  | ReadErr string
  | UnmarshalErr string
  | Transfers "receivedTransfer option list"

text \<open>One transfer of the answer; the accumulator is the loop's \<open>maxBlock\<close>.\<close>

definition receiveTransfer :: "env \<Rightarrow> receivedTransfer option \<Rightarrow> int \<Rightarrow> int action" where
  "receiveTransfer env p maxBlock =
     (case p of None \<Rightarrow> panicA nilDeref | Some tr \<Rightarrow>
      bindA (if rt_TokenAddress tr = SmtAddress (env_params env)
             then NewReceiveTransferFromReceiveTransfer env tr else returnA False) (\<lambda>isNew.
      bindA (if isNew then AccountAddSmt env (rt_FromAddress tr) (rt_Amount tr) else returnA ()) (\<lambda>_.
      returnA (if rt_BlockNumber tr > maxBlock then rt_BlockNumber tr else maxBlock))))"

definition getNewTransfer :: "env \<Rightarrow> (string \<Rightarrow> smtResponse) \<Rightarrow> query \<Rightarrow> query action" where
  "getNewTransfer env httpGet s =
     (let res = httpGet (q_url s @ ''?from_block='' @ BigInt_String (q_from s)) in
      case res of GetErr _ \<Rightarrow> returnA s | _ \<Rightarrow>
      if q_stopped s then returnA s else
      (case res of
         Transfers trs \<Rightarrow>
           bindA (foldA (receiveTransfer env) trs 0) (\<lambda>maxBlock.
           returnA (if maxBlock > q_from s then s\<lparr>q_from := maxBlock\<rparr> else s))
       | _ \<Rightarrow> returnA s))"

subsection \<open>The books\<close>

definition receivedFrom :: "Address \<Rightarrow> receivedTransfer list \<Rightarrow> int" where
  "receivedFrom addr ts = sum_list (map rt_Amount (filter (\<lambda>t. rt_FromAddress t = addr) ts))"

definition ledger :: "modeldb \<Rightarrow> bool" where
  "ledger db \<longleftrightarrow> accounts_ok db \<and> transfers_ok db \<and>
     (\<forall>addr. a_TotalReceivedSmt (accountOf addr db) = receivedFrom addr (tTransfer db))"

text \<open>What the node is relied on for: no nil entry, a key and an amount that is not negative.\<close>

definition proper :: "receivedTransfer option \<Rightarrow> bool" where
  "proper p \<longleftrightarrow> (case p of None \<Rightarrow> False | Some tr \<Rightarrow> rt_Key tr \<noteq> [] \<and> 0 \<le> rt_Amount tr)"

definition pays :: "env \<Rightarrow> receivedTransfer \<Rightarrow> bool" where
  "pays env tr \<longleftrightarrow> rt_TokenAddress tr = SmtAddress (env_params env)"

lemma accountOf_tTransfer [simp]: "accountOf addr (db\<lparr>tTransfer := ts\<rparr>) = accountOf addr db"
  by (simp add: accountOf_def)

lemma accounts_ok_tTransfer [simp]: "accounts_ok (db\<lparr>tTransfer := ts\<rparr>) = accounts_ok db"
  by (simp add: accounts_ok_def)

lemma receiveTransfer_known:
  assumes "no_faults env" "transfers_ok (store w)" "rt_Key tr \<noteq> []"
    and "pays env tr \<Longrightarrow> transferBy (rt_Key tr) (store w) \<noteq> None"
  shows "\<exists>n. receiveTransfer env (Some tr) mx w = (Ret (max mx (rt_BlockNumber tr)), w\<lparr>clock := n\<rparr>)"
  using assms
  by (cases "pays env tr")
    (auto simp: receiveTransfer_def pays_def NewReceiveTransferFromReceiveTransfer_ok max_def
      intro: exI [of _ "clock w"])

lemma receiveTransfer_new:
  assumes env: "no_faults env" and led: "ledger (store w)" and tr: "rt_Key tr \<noteq> []" "0 \<le> rt_Amount tr"
    and new: "pays env tr" "transferBy (rt_Key tr) (store w) = None"
  shows "\<exists>w'. receiveTransfer env (Some tr) mx w = (Ret (max mx (rt_BlockNumber tr)), w') \<and>
     ledger (store w') \<and> tTransfer (store w') = tTransfer (store w) @ [tr]"
proof -
  let ?w = "w\<lparr>clock := clock w + 2, store := (store w)\<lparr>tTransfer := tTransfer (store w) @ [tr]\<rparr>\<rparr>"
  from led have ok: "accounts_ok (store ?w)" and tok: "transfers_ok (store w)" by (simp_all add: ledger_def)
  obtain w' where w': "AccountAddSmt env (rt_FromAddress tr) (rt_Amount tr) ?w = (Ret (), w')"
      "accounts_ok (store w')"
      "accountOf (rt_FromAddress tr) (store w') = (accountOf (rt_FromAddress tr) (store ?w))\<lparr>a_TotalReceivedSmt :=
         a_TotalReceivedSmt (accountOf (rt_FromAddress tr) (store ?w)) + rt_Amount tr\<rparr>"
      "\<And>b. b \<noteq> rt_FromAddress tr \<Longrightarrow> accountOf b (store w') = accountOf b (store ?w)"
      "(store w')\<lparr>tAccount := []\<rparr> = (store ?w)\<lparr>tAccount := []\<rparr>"
    using AccountAddSmt_ok [OF env ok tr(2), of "rt_FromAddress tr"] by blast
  have rows: "tTransfer (store w') = tTransfer (store w) @ [tr]"
    using arg_cong [OF w'(5), of tTransfer] by simp
  have "a_TotalReceivedSmt (accountOf b (store w')) = receivedFrom b (tTransfer (store w'))" for b
    using led w'(3) w'(4) [of b] rows
    by (cases "b = rt_FromAddress tr") (auto simp: ledger_def receivedFrom_def)
  moreover have "transfers_ok (store w')"
    using tok new(2) rows by (auto simp: transfers_ok_def rowBy_None)
  moreover have "receiveTransfer env (Some tr) mx w = (Ret (max mx (rt_BlockNumber tr)), w')"
    using new env tok tr w'(1)
    by (simp add: receiveTransfer_def pays_def NewReceiveTransferFromReceiveTransfer_ok max_def)
  ultimately show ?thesis using w'(2) rows by (auto simp: ledger_def)
qed

text \<open>The loop over an answer: the new payments are appended, the rest of the answer is skipped.\<close>

lemma receiveTransfers:
  assumes "no_faults env" "\<forall>p \<in> set trs. proper p" "ledger (store w)"
  shows "\<exists>mx' w' new. foldA (receiveTransfer env) trs mx w = (Ret mx', w') \<and> mx \<le> mx' \<and>
     (\<forall>tr. Some tr \<in> set trs \<longrightarrow> rt_BlockNumber tr \<le> mx') \<and>
     (mx' = mx \<or> (\<exists>tr. Some tr \<in> set trs \<and> rt_BlockNumber tr = mx')) \<and>
     ledger (store w') \<and> tTransfer (store w') = tTransfer (store w) @ new \<and>
     (\<forall>tr \<in> set new. Some tr \<in> set trs \<and> pays env tr) \<and>
     (\<forall>tr. Some tr \<in> set trs \<and> pays env tr \<longrightarrow> transferBy (rt_Key tr) (store w') \<noteq> None)"
  using assms(2,3)
proof (induction trs arbitrary: mx w)
  case Nil
  then show ?case by simp
next
  case (Cons p trs)
  then obtain tr where p: "p = Some tr" "rt_Key tr \<noteq> []" "0 \<le> rt_Amount tr"
    by (auto simp: proper_def split: option.splits)
  have tok: "transfers_ok (store w)" using Cons.prems by (simp add: ledger_def)
  have "\<exists>w1 new. receiveTransfer env p mx w = (Ret (max mx (rt_BlockNumber tr)), w1) \<and> ledger (store w1) \<and>
     tTransfer (store w1) = tTransfer (store w) @ new \<and> (\<forall>x \<in> set new. x = tr \<and> pays env tr) \<and>
     (pays env tr \<longrightarrow> transferBy (rt_Key tr) (store w1) \<noteq> None)"
  proof (cases "pays env tr \<and> transferBy (rt_Key tr) (store w) = None")
    case True
    obtain w1 where "receiveTransfer env p mx w = (Ret (max mx (rt_BlockNumber tr)), w1)" "ledger (store w1)"
        "tTransfer (store w1) = tTransfer (store w) @ [tr]"
      using receiveTransfer_new [OF assms(1) Cons.prems(2) p(2,3)] True p(1) by blast
    with True show ?thesis by (intro exI [of _ w1] exI [of _ "[tr]"]) (auto simp: rowBy_append)
  next
    case False
    obtain n where "receiveTransfer env p mx w = (Ret (max mx (rt_BlockNumber tr)), w\<lparr>clock := n\<rparr>)"
      using receiveTransfer_known [OF assms(1) tok p(2)] False p(1) by auto
    with False Cons.prems(2) show ?thesis
      by (intro exI [of _ "w\<lparr>clock := n\<rparr>"] exI [of _ "[]"]) auto
  qed
  then obtain w1 new1 where 1: "receiveTransfer env p mx w = (Ret (max mx (rt_BlockNumber tr)), w1)"
      "ledger (store w1)" "tTransfer (store w1) = tTransfer (store w) @ new1"
      "\<forall>x \<in> set new1. x = tr \<and> pays env tr" "pays env tr \<longrightarrow> transferBy (rt_Key tr) (store w1) \<noteq> None"
    by blast
  have "\<forall>p \<in> set trs. proper p" using Cons.prems(1) by simp
  from Cons.IH [OF this 1(2), of "max mx (rt_BlockNumber tr)"]
  obtain mx' w' new where IH: "foldA (receiveTransfer env) trs (max mx (rt_BlockNumber tr)) w1 = (Ret mx', w')"
      "max mx (rt_BlockNumber tr) \<le> mx'" "\<forall>tr. Some tr \<in> set trs \<longrightarrow> rt_BlockNumber tr \<le> mx'"
      "mx' = max mx (rt_BlockNumber tr) \<or> (\<exists>tr. Some tr \<in> set trs \<and> rt_BlockNumber tr = mx')"
      "ledger (store w')" "tTransfer (store w') = tTransfer (store w1) @ new"
      "\<forall>tr \<in> set new. Some tr \<in> set trs \<and> pays env tr"
      "\<forall>tr. Some tr \<in> set trs \<and> pays env tr \<longrightarrow> transferBy (rt_Key tr) (store w') \<noteq> None"
    by blast
  have "transferBy (rt_Key tr) (store w') \<noteq> None" if "pays env tr"
    using that 1(5) IH(6) by (auto simp: rowBy_append)
  then show ?case
    using 1 IH p(1)
    by (intro exI [of _ mx'] exI [of _ w'] exI [of _ "new1 @ new"]) (auto simp: max_def split: if_splits)
qed

lemma receiveTransfers_known:
  assumes "no_faults env" "transfers_ok (store w)"
    and "\<forall>p \<in> set trs. proper p \<and> (\<forall>tr. p = Some tr \<and> pays env tr \<longrightarrow> transferBy (rt_Key tr) (store w) \<noteq> None)"
  shows "\<exists>mx' n. foldA (receiveTransfer env) trs mx w = (Ret mx', w\<lparr>clock := n\<rparr>)"
  using assms(2,3)
proof (induction trs arbitrary: mx w)
  case Nil
  show ?case by (intro exI [of _ mx] exI [of _ "clock w"]) simp
next
  case (Cons p trs)
  then obtain tr where p: "p = Some tr" "rt_Key tr \<noteq> []"
      "pays env tr \<Longrightarrow> transferBy (rt_Key tr) (store w) \<noteq> None"
    by (auto simp: proper_def split: option.splits)
  obtain n where "receiveTransfer env p mx w = (Ret (max mx (rt_BlockNumber tr)), w\<lparr>clock := n\<rparr>)"
    using receiveTransfer_known [OF assms(1) Cons.prems(1) p(2,3)] p(1) by blast
  then show ?case using Cons.IH [of "w\<lparr>clock := n\<rparr>" "max mx (rt_BlockNumber tr)"] Cons.prems by simp
qed

lemma getNewTransfer_transfers:
  "httpGet (q_url s @ ''?from_block='' @ BigInt_String (q_from s)) = Transfers trs \<Longrightarrow> \<not> q_stopped s \<Longrightarrow>
   getNewTransfer env httpGet s = bindA (foldA (receiveTransfer env) trs 0) (\<lambda>maxBlock.
     returnA (if maxBlock > q_from s then s\<lparr>q_from := maxBlock\<rparr> else s))"
  by (simp add: getNewTransfer_def)

subsection \<open>Properties\<close>

text \<open>
  C26. A poll, when no statement fails and every transfer of the answer has a key and a non-negative
  amount, keeps the books: afterwards every account's total is still the sum of the recorded
  transfers from its address.  Every payment in SMT of the answer is recorded, the ones already
  recorded are kept and not credited again, and \<open>from\<close> becomes the greatest of its old value, 0 and the block numbers of the answer;
  nothing else of the query changes.
\<close>
theorem poll_keeps_books:
  assumes "no_faults env" "ledger (store w)" "\<not> q_stopped s" "\<forall>p \<in> set trs. proper p"
    and "httpGet (q_url s @ ''?from_block='' @ BigInt_String (q_from s)) = Transfers trs"
  shows "\<exists>s' w' new. getNewTransfer env httpGet s w = (Ret s', w') \<and> ledger (store w') \<and>
     tTransfer (store w') = tTransfer (store w) @ new \<and>
     (\<forall>tr \<in> set new. Some tr \<in> set trs \<and> rt_TokenAddress tr = SmtAddress (env_params env)) \<and>
     (\<forall>tr. Some tr \<in> set trs \<and> rt_TokenAddress tr = SmtAddress (env_params env) \<longrightarrow>
        transferBy (rt_Key tr) (store w') \<noteq> None) \<and>
     s' = s\<lparr>q_from := Max ({q_from s, 0} \<union> (rt_BlockNumber \<circ> the) ` set trs)\<rparr>"
proof -
  obtain mx w' new where r: "foldA (receiveTransfer env) trs 0 w = (Ret mx, w')" "0 \<le> mx"
      "\<forall>tr. Some tr \<in> set trs \<longrightarrow> rt_BlockNumber tr \<le> mx" "mx = 0 \<or> (\<exists>tr. Some tr \<in> set trs \<and> rt_BlockNumber tr = mx)"
      "ledger (store w')" "tTransfer (store w') = tTransfer (store w) @ new" "\<forall>tr \<in> set new. Some tr \<in> set trs \<and> pays env tr"
      "\<forall>tr. Some tr \<in> set trs \<and> pays env tr \<longrightarrow> transferBy (rt_Key tr) (store w') \<noteq> None"
    using receiveTransfers [OF assms(1,4,2), of 0] by blast
  have below: "rt_BlockNumber (the p) \<le> mx" if "p \<in> set trs" for p
    using r(3) assms(4) that by (cases p) (auto simp: proper_def)
  have at: "mx \<in> (rt_BlockNumber \<circ> the) ` set trs" if "Some tr \<in> set trs" "rt_BlockNumber tr = mx" for tr
    using that by (intro image_eqI [of _ _ "Some tr"]) simp_all
  have "Max ({q_from s, 0} \<union> (rt_BlockNumber \<circ> the) ` set trs) = (if mx > q_from s then mx else q_from s)"
  proof (rule Max_eqI)
    show "y \<le> (if mx > q_from s then mx else q_from s)" if "y \<in> {q_from s, 0} \<union> (rt_BlockNumber \<circ> the) ` set trs" for y
    proof -
      have "y = q_from s \<or> y \<le> mx" using that r(2) below by auto
      then show ?thesis by auto
    qed
    show "(if mx > q_from s then mx else q_from s) \<in> {q_from s, 0} \<union> (rt_BlockNumber \<circ> the) ` set trs"
      using r(4) at by auto
  qed simp
  then have "s\<lparr>q_from := Max ({q_from s, 0} \<union> (rt_BlockNumber \<circ> the) ` set trs)\<rparr> = (if mx > q_from s then s\<lparr>q_from := mx\<rparr> else s)"
    by simp
  then show ?thesis
    using r getNewTransfer_transfers [of httpGet s trs env, OF assms(5,3)] unfolding pays_def
    by (intro exI [of _ "if mx > q_from s then s\<lparr>q_from := mx\<rparr> else s"] exI [of _ w'] exI [of _ new]) simp
qed

definition smtNode :: "string \<Rightarrow> smtResponse" where
  "smtNode url = Transfers [Some (sampleTransfer 12 ''k1''), Some (sampleTransfer 15 ''k2''), Some (sampleTransfer 12 ''k1'')]"

lemma ledger_fresh [simp]: "ledger (store freshWorld)"
  by (simp add: ledger_def freshWorld_def emptyDb_def accounts_ok_def transfers_ok_def receivedFrom_def
      accountOf_def newAccountRow_def toAccount_def)

lemma sampleTransfer_facts [simp]:
  "rt_Key (sampleTransfer b k) = k" "rt_BlockNumber (sampleTransfer b k) = b"
  "rt_FromAddress (sampleTransfer b k) = 7" "pays quietEnv (sampleTransfer b k)"
  by (simp_all add: sampleTransfer_def rt_FromAddress_def rt_TokenAddress_def pays_def quietEnv_def initParams_def)

lemma sampleTransfer_amount [simp]: "rt_Amount (sampleTransfer b k) = 50"
  by (simp add: sampleTransfer_def rt_Amount_def StringToBigInt_def BigInt_SetString_def scan_nat_def
      digit_val_def)

lemma smtNode_proper: "\<forall>p \<in> set [Some (sampleTransfer 12 ''k1''), Some (sampleTransfer 15 ''k2''),
    Some (sampleTransfer 12 ''k1'')]. proper p"
  by (simp add: proper_def)

theorem poll_keeps_books_witness:
  "\<exists>s' w'. getNewTransfer quietEnv smtNode (NewSmtQuery ''u'' 3) freshWorld = (Ret s', w') \<and>
     ledger (store w') \<and> transferBy ''k1'' (store w') \<noteq> None \<and> q_from s' = 15"
proof -
  let ?trs = "[Some (sampleTransfer 12 ''k1''), Some (sampleTransfer 15 ''k2''), Some (sampleTransfer 12 ''k1'')]"
  have "ledger (store freshWorld)" "\<not> q_stopped (NewSmtQuery ''u'' 3)" by (simp_all add: NewSmtQuery_def)
  from poll_keeps_books [OF no_faults_quietEnv this smtNode_proper, of smtNode]
  obtain s' w' where 1: "getNewTransfer quietEnv smtNode (NewSmtQuery ''u'' 3) freshWorld = (Ret s', w')"
    "ledger (store w')"
    "\<forall>tr. Some tr \<in> set ?trs \<and> rt_TokenAddress tr = SmtAddress (env_params quietEnv) \<longrightarrow>
        transferBy (rt_Key tr) (store w') \<noteq> None"
    "s' = (NewSmtQuery ''u'' 3)\<lparr>q_from := Max ({q_from (NewSmtQuery ''u'' 3), 0} \<union> (rt_BlockNumber \<circ> the) ` set ?trs)\<rparr>"
    unfolding smtNode_def by blast
  have "transferBy ''k1'' (store w') \<noteq> None"
    using 1(3) [rule_format, of "sampleTransfer 12 ''k1''"] sampleTransfer_facts(4) [of 12 "''k1''"]
    by (simp add: pays_def)
  moreover have "q_from s' = 15" using 1(4) by (simp add: NewSmtQuery_def)
  ultimately show ?thesis using 1(1,2) by blast
qed

text \<open>
  A payment is credited once: when every payment of an answer is already recorded, the poll leaves
  the whole database as it was, whatever the answer repeats.
\<close>
lemma recorded_payments_not_credited_again:
  assumes "no_faults env" "transfers_ok (store w)" "\<not> q_stopped s" "\<forall>p \<in> set trs. proper p"
    and "httpGet (q_url s @ ''?from_block='' @ BigInt_String (q_from s)) = Transfers trs"
    and "\<forall>tr. Some tr \<in> set trs \<and> rt_TokenAddress tr = SmtAddress (env_params env) \<longrightarrow>
        transferBy (rt_Key tr) (store w) \<noteq> None"
  shows "\<exists>s' w'. getNewTransfer env httpGet s w = (Ret s', w') \<and> store w' = store w"
proof -
  have "\<forall>p \<in> set trs. proper p \<and> (\<forall>tr. p = Some tr \<and> pays env tr \<longrightarrow> transferBy (rt_Key tr) (store w) \<noteq> None)"
    using assms(4,6) by (auto simp: pays_def)
  from receiveTransfers_known [OF assms(1,2) this, of 0] obtain mx n where
    "foldA (receiveTransfer env) trs 0 w = (Ret mx, w\<lparr>clock := n\<rparr>)" by blast
  then show ?thesis by (simp add: getNewTransfer_transfers [of httpGet s trs, OF assms(5,3)])
qed

lemma recorded_payments_not_credited_again_witness:
  "\<exists>s' w'. getNewTransfer quietEnv smtNode (NewSmtQuery ''u'' 3)
       (freshWorld\<lparr>store := emptyDb\<lparr>tTransfer := [sampleTransfer 12 ''k1'', sampleTransfer 15 ''k2'']\<rparr>\<rparr>) = (Ret s', w') \<and>
     store w' = emptyDb\<lparr>tTransfer := [sampleTransfer 12 ''k1'', sampleTransfer 15 ''k2'']\<rparr>"
proof -
  let ?w = "freshWorld\<lparr>store := emptyDb\<lparr>tTransfer := [sampleTransfer 12 ''k1'', sampleTransfer 15 ''k2'']\<rparr>\<rparr>"
  have "transfers_ok (store ?w)" "\<not> q_stopped (NewSmtQuery ''u'' 3)"
    by (simp_all add: transfers_ok_def NewSmtQuery_def)
  moreover have "\<forall>tr. Some tr \<in> set [Some (sampleTransfer 12 ''k1''), Some (sampleTransfer 15 ''k2''),
      Some (sampleTransfer 12 ''k1'')] \<and> rt_TokenAddress tr = SmtAddress (env_params quietEnv) \<longrightarrow>
        transferBy (rt_Key tr) (store ?w) \<noteq> None"
    by auto
  ultimately show ?thesis
    using recorded_payments_not_credited_again [OF no_faults_quietEnv _ _ smtNode_proper, of ?w _ smtNode]
    by (simp add: smtNode_def)
qed

text \<open>
  A payment whose record cannot be saved is reported as new all the same and nothing is recorded:
  the caller credits it, and the next poll, whose answer contains it again, finds it new again.
\<close>
lemma unsaved_payment_is_new_again:
  assumes "env_fault env (clock w) = None" "env_fault env (Suc (clock w)) = Some e"
    and "transferBy (rt_Key tr) (store w) = None" "rt_Key tr \<noteq> []" "transfers_ok (store w)"
  shows "\<exists>w'. NewReceiveTransferFromReceiveTransfer env tr w = (Ret True, w') \<and> store w' = store w"
  using assms
  by (simp add: NewReceiveTransferFromReceiveTransfer_def GetReceivedTransfer_def db_query_def db_write_def
      transfers_ok_def gorm_find_where_key bindA_def)

lemma unsaved_payment_is_new_again_witness:
  "\<exists>w'. NewReceiveTransferFromReceiveTransfer
       (quietEnv\<lparr>env_fault := \<lambda>n. if n = 1 then Some ''database is locked'' else None\<rparr>)
       (sampleTransfer 12 ''k1'') freshWorld = (Ret True, w') \<and> store w' = store freshWorld"
proof -
  let ?env = "quietEnv\<lparr>env_fault := \<lambda>n. if n = 1 then Some ''database is locked'' else None\<rparr>"
  have "env_fault ?env (clock freshWorld) = None" "env_fault ?env (Suc (clock freshWorld)) = Some ''database is locked''"
    "transferBy (rt_Key (sampleTransfer 12 ''k1'')) (store freshWorld) = None"
    "rt_Key (sampleTransfer 12 ''k1'') \<noteq> []" "transfers_ok (store freshWorld)"
    by (simp_all add: freshWorld_def emptyDb_def transfers_ok_def)
  from unsaved_payment_is_new_again [OF this] show ?thesis .
qed

end
