(* ===== verification/PM_Rest.thy ===== *)
theory PM_Rest
  imports PM_Verifier PM_Smt
begin

text \<open>
  \<open>rest/delegate.go\<close>, \<open>rest/query.go\<close>, the interface of \<open>verifier/verifier.go\<close>, and the fees of
  \<open>cmd/photonmonitoring/main.go\<close>.

  The package variable \<open>verify\<close> is an argument (\<open>None\<close> for nil).  The contract \<open>delegate_verifier\<close> is
  what the handler relies on: a verifier does not touch the database and accepts only
  requests it vouches for.  Its client lemmas are obtained for \<open>VerifyDelegate\<close> by interpretation.
\<close>

subsection \<open>Handlers\<close>

definition delegateError :: int where "delegateError = 1"

definition delegateSuccessButNotEnoughBalance :: int where "delegateSuccessButNotEnoughBalance = 2"

definition delegateSuccess :: int where "delegateSuccess = 3"

text \<open>The text of an answer: none, a literal, the decoder's message, or \<open>err.Error()\<close>, kept as the error.\<close>

datatype responseText = NoText | Text string | ErrorText error

record delegateResponse =
  Status :: int
  Error :: responseText

type_synonym verifyFun = "channelFor3rd \<Rightarrow> Address \<Rightarrow> (error + channelFor3rd) action"

text \<open>The payload is what \<open>DecodeJsonPayload\<close> makes of the body: an error text or the request.\<close>

definition Delegate ::
    "env \<Rightarrow> verifyFun option \<Rightarrow> string \<Rightarrow> string + channelFor3rd \<Rightarrow> delegateResponse action" where
  "Delegate env verify delegateStr payload =
     (let delegater = HexToAddress delegateStr in
      if delegater = 0 then returnA \<lparr>Status = delegateError, Error = Text ''empty delegater''\<rparr> else
      case payload of Inl e \<Rightarrow> returnA \<lparr>Status = delegateError, Error = Text e\<rparr> | Inr req \<Rightarrow>
      bindA (case verify of None \<Rightarrow> returnA (Inr req) | Some v \<Rightarrow> v req delegater) (\<lambda>r.
      case r of Inl e \<Rightarrow> returnA \<lparr>Status = delegateError, Error = ErrorText e\<rparr> | Inr req \<Rightarrow>
      bindA (ReceiveDelegate env req delegater) (\<lambda>r.
      case r of Inl e \<Rightarrow> returnA \<lparr>Status = delegateError, Error = ErrorText e\<rparr> | Inr _ \<Rightarrow>
      bindA (AccountIsBalanceEnough env delegater) (\<lambda>enough.
      returnA (if enough then \<lparr>Status = delegateSuccess, Error = NoText\<rparr>
               else \<lparr>Status = delegateSuccessButNotEnoughBalance, Error = NoText\<rparr>)))))"

record delegateInfoResponse =
  i_Delegate :: delegate
  i_DelegateUpdateBalanceProof :: delegateUpdateBalanceProof
  i_DelegateUnlocks :: "delegateUnlock list"
  i_DelegatePunishes :: "delegatePunish list"
  i_DelegateAnnounceDispose :: "delegateAnnounceDispose list"

text \<open>
  \<open>dto.APIResponse\<close> is a type of another repository: the two fields the handler sets, extended by the
  fields it does not name, whose zero values are \<open>blank\<close>.  \<open>newAPIResponse\<close> stands for
  \<open>dto.NewAPIResponse(nil, data)\<close>.
\<close>

record apiResponse =
  ErrorCode :: int
  ErrorMsg :: string

definition txError :: "'m \<Rightarrow> string \<Rightarrow> 'm apiResponse_scheme" where
  "txError blank msg = \<lparr>ErrorCode = delegateError, ErrorMsg = msg, \<dots> = blank\<rparr>"

definition Tx ::
    "env \<Rightarrow> 'm \<Rightarrow> (delegateInfoResponse \<Rightarrow> 'm apiResponse_scheme) \<Rightarrow> string \<Rightarrow> string \<Rightarrow> 'm apiResponse_scheme action" where
  "Tx env blank newAPIResponse delegaterStr channel =
     (let delegater = HexToAddress delegaterStr in
      if delegater = 0 \<or> channel = Address_Hex (env_keccak env) 0 then returnA (txError blank ''arg error'') else
      let delegateKey = BuildDelegateKey (HexToHash channel) delegater in
      bindA (GetDelegateByKey env delegateKey) (\<lambda>r.
      case r of Inl e \<Rightarrow> returnA (txError blank (''db GetDelegateByKey err : '' @ errText e)) | Inr d \<Rightarrow>
      bindA (GetDelegatePunishListByDelegateKey env delegateKey) (\<lambda>r.
      case r of Inl e \<Rightarrow> returnA (txError blank (''db GetDelegateUpdateBalanceProofByDelegateKey err : '' @ errText e)) | Inr dps \<Rightarrow>
      bindA (GetDelegateAnnounceDisposeListByDelegateKey env delegateKey) (\<lambda>r.
      case r of Inl e \<Rightarrow> returnA (txError blank (''db GetDelegateUpdateBalanceProofByDelegateKey err : '' @ errText e)) | Inr das \<Rightarrow>
      bindA (outcomeA (UpdateBalanceProof d)) (\<lambda>u.
      bindA (outcomeA (Unlocks d)) (\<lambda>us.
      let res = newAPIResponse \<lparr>i_Delegate = d, i_DelegateUpdateBalanceProof = u, i_DelegateUnlocks = us,
            i_DelegatePunishes = dps, i_DelegateAnnounceDispose = das\<rparr> in
      bindA (AccountIsBalanceEnough env delegater) (\<lambda>enough.
      returnA (res\<lparr>ErrorCode := (if enough then delegateSuccess else delegateSuccessButNotEnoughBalance)\<rparr>))))))))"

record feeReponse =
  Available :: int
  NeedSmt :: int

definition Fee :: "env \<Rightarrow> string \<Rightarrow> feeReponse action" where
  "Fee env delegaterStr =
     bindA (AccountGetAccount env (HexToAddress delegaterStr)) (\<lambda>a.
     returnA \<lparr>Available = AccountAvailable a, NeedSmt = a_NeedSmt a\<rparr>)"

subsection \<open>Start-up\<close>

text \<open>
  The part of \<open>config\<close> that sets the fees, the fee token and the debug mode from the command line; \<open>None\<close> is
  \<open>utils.SystemExit(1)\<close> on a fee that is not a decimal number or on a URL that does not start with its scheme.
\<close>

definition config :: "string \<Rightarrow> string \<Rightarrow> string \<Rightarrow> string \<Rightarrow> string \<Rightarrow> string \<Rightarrow> bool \<Rightarrow> params option" where
  "config smtAddr unlockStr punishStr updateStr secretStr url debug =
     (case BigInt_SetString unlockStr of None \<Rightarrow> None | Some unlock \<Rightarrow>
      case BigInt_SetString punishStr of None \<Rightarrow> None | Some punish \<Rightarrow>
      case BigInt_SetString updateStr of None \<Rightarrow> None | Some updateTransfer \<Rightarrow>
      case BigInt_SetString secretStr of None \<Rightarrow> None | Some secret \<Rightarrow>
      if url = '''' \<or> take 7 url \<noteq> ''http://'' then None else
      Some (initParams\<lparr>SmtAddress := HexToAddress smtAddr, SmtUnlock := unlock, SmtPunish := punish,
        SmtUpdateTransfer := updateTransfer, SmtSecret := secret, DebugMode := debug\<rparr>))"

text \<open>\<open>mainCtx\<close>: the polling for payments is started when one of three fees is positive.\<close>

definition startsSmtQuery :: "params \<Rightarrow> bool" where
  "startsSmtQuery p \<longleftrightarrow> SmtUpdateTransfer p > 0 \<or> SmtPunish p > 0 \<or> SmtUnlock p > 0"

subsection \<open>The contract of a verifier\<close>

locale delegate_verifier =
  fixes verify :: verifyFun
    and vouches :: "channelFor3rd \<Rightarrow> Address \<Rightarrow> channelFor3rd \<Rightarrow> bool"
  assumes verify_pure: "verify c a w = (r, w') \<Longrightarrow> store w' = store w"
    and verify_vouches: "verify c a w = (Ret (Inr c'), w') \<Longrightarrow> vouches c a c'"
begin

text \<open>An error answer leaves the database as it was, whatever the database does.\<close>

lemma error_answer_no_trace:
  assumes "Delegate env (Some verify) path payload w = (Ret resp, w')" "Status resp = delegateError"
  shows "store w' = store w"
proof (cases "HexToAddress path = 0 \<or> (\<exists>e. payload = Inl e)")
  case True
  with assms(1) show ?thesis by (auto simp: Delegate_def Let_def split: if_splits)
next
  case False
  then obtain c where c: "payload = Inr c" "HexToAddress path \<noteq> 0" by (cases payload) auto
  obtain r w1 where v: "verify c (HexToAddress path) w = (r, w1)" by (cases "verify c (HexToAddress path) w")
  note pure = verify_pure [OF v]
  show ?thesis
  proof (cases r)
    case (Ret x)
    show ?thesis
    proof (cases x)
      case (Inl e)
      with assms(1) c v Ret pure show ?thesis by (auto simp: Delegate_def Let_def bindA_def)
    next
      case (Inr c')
      obtain r2 w2 where rd: "ReceiveDelegate env c' (HexToAddress path) w1 = (r2, w2)"
        by (cases "ReceiveDelegate env c' (HexToAddress path) w1")
      have "store w2 = store w1" if "r2 = outcome.Ret (Inl e)" for e
        using rd that transaction_error by (fastforce simp: ReceiveDelegate_def)
      then show ?thesis
        using assms c v Ret Inr rd pure
        by (auto simp: Delegate_def Let_def bindA_def delegateError_def delegateSuccess_def
            delegateSuccessButNotEnoughBalance_def split: outcome.splits sum.splits prod.splits if_splits)
    qed
  next
    case (Panic msg)
    with assms(1) c v show ?thesis by (simp add: Delegate_def Let_def bindA_def)
  qed
qed

text \<open>A request is stored only after the verifier vouched for it.\<close>

lemma stored_only_if_vouched:
  assumes "Delegate env (Some verify) path payload w = (Ret resp, w')" "Status resp \<noteq> delegateError"
  shows "\<exists>c c'. payload = Inr c \<and> vouches c (HexToAddress path) c'"
proof -
  obtain c where c: "payload = Inr c" "HexToAddress path \<noteq> 0"
    using assms by (cases payload) (auto simp: Delegate_def Let_def split: if_splits)
  obtain r w1 where v: "verify c (HexToAddress path) w = (r, w1)" by (cases "verify c (HexToAddress path) w")
  have "\<exists>c'. r = Ret (Inr c')"
    using assms c v by (auto simp: Delegate_def Let_def bindA_def split: outcome.splits sum.splits)
  then show ?thesis using verify_vouches v c(1) by blast
qed

end

text \<open>What \<open>VerifyDelegate\<close> vouches for.\<close>

definition verified :: "env \<Rightarrow> channelFor3rd \<Rightarrow> Address \<Rightarrow> channelFor3rd \<Rightarrow> bool" where
  "verified env c a c' \<longleftrightarrow> verifyContent env c a = Ret None \<and> (\<exists>n. c' = SetSettleBlockNumber n c)"

lemma VerifyDelegate_pure: "VerifyDelegate env c a w = (r, w') \<Longrightarrow> store w' = store w"
  by (auto simp: VerifyDelegate_def split: option.splits sum.splits outcome.splits if_splits)

interpretation chain: delegate_verifier "VerifyDelegate env" "verified env" for env
  by unfold_locales
    (auto simp: VerifyDelegate_pure, auto simp: VerifyDelegate_def verified_def
      split: option.splits sum.splits outcome.splits if_splits)

subsection \<open>Properties\<close>

text \<open>
  C29. The service answers a request with an error code only if it changed nothing: whatever the database and the chain do, an
  error answer leaves every table as it was.
\<close>
theorem error_answer_leaves_database:
  assumes "Delegate env (Some (VerifyDelegate env)) path payload w = (Ret resp, w')" "Status resp = 1"
  shows "store w' = store w"
  using chain.error_answer_no_trace [OF assms(1)] assms(2) by (simp add: delegateError_def)

theorem error_answer_leaves_database_witness:
  "\<exists>resp w'. Delegate quietEnv (Some (VerifyDelegate quietEnv)) ''0x00'' (Inr sampleRequest) freshWorld = (Ret resp, w') \<and>
     store w' = store freshWorld"
proof -
  let ?r = "\<lparr>Status = delegateError, Error = Text ''empty delegater''\<rparr>"
  have "HexToAddress ''0x00'' = 0" by code_simp
  then have "Delegate quietEnv (Some (VerifyDelegate quietEnv)) ''0x00'' (Inr sampleRequest) freshWorld = (Ret ?r, freshWorld)"
    by (simp add: Delegate_def)
  with error_answer_leaves_database [OF this] show ?thesis by (simp add: delegateError_def)
qed

text \<open>
  C9. A request that the service confirms carries the signatures it needs: with a positive nonce the balance proof is signed by
  the partner and by the delegator of the URL, every lock by the delegator, and every punish
  evidence by the partner.
\<close>
theorem confirmed_request_is_signed:
  assumes "Delegate env (Some (VerifyDelegate env)) path payload w = (Ret resp, w')" "Status resp \<noteq> 1"
  shows "\<exists>c. payload = Inr c \<and>
     (ut_Nonce (c_UpdateTransfer c) > 0 \<longrightarrow> proofVerified env c (HexToAddress path) \<and>
        (\<forall>p \<in> set (c_Unlocks c). unlockVerified env c (HexToAddress path) p)) \<and>
     (\<forall>p \<in> set (c_Punishes c). punishVerified env c p)"
proof -
  obtain c c' where c: "payload = Inr c" "verified env c (HexToAddress path) c'"
    using chain.stored_only_if_vouched [OF assms(1)] assms(2) by (auto simp: delegateError_def)
  then have "verifyContent env c (HexToAddress path) = Ret None" by (simp add: verified_def)
  then show ?thesis unfolding verifyContent_iff using c(1) by blast
qed

lemma VerifyDelegate_accepts:
  assumes "VerifyDelegate env c a w = (Ret (Inr c'), w')"
  shows "w' = tick (tick w)" "verifyContent env c a = Ret None" "\<exists>n. c' = SetSettleBlockNumber n c"
  using assms by (auto simp: VerifyDelegate_def split: option.splits sum.splits outcome.splits if_splits)

lemma SetSettleBlockNumber_sel [simp]:
  "c_settleBlockNumber (SetSettleBlockNumber n c) = n" "c_ChannelIdentifier (SetSettleBlockNumber n c) = c_ChannelIdentifier c"
  "c_UpdateTransfer (SetSettleBlockNumber n c) = c_UpdateTransfer c" "c_Punishes (SetSettleBlockNumber n c) = c_Punishes c"
  "GetDelegateUnlocks (SetSettleBlockNumber n c) = GetDelegateUnlocks c"
  "GetDeleteSecrets (SetSettleBlockNumber n c) = GetDeleteSecrets c"
  "request_ok (SetSettleBlockNumber n c) = request_ok c"
  by (simp_all add: SetSettleBlockNumber_def request_ok_def GetDelegateUnlocks_def GetDeleteSecrets_def)

text \<open>The answer to a request that is verified and stored depends on the balance only.\<close>

lemma Delegate_confirms:
  assumes env: "no_faults env" and a: "HexToAddress path \<noteq> 0"
    and v: "VerifyDelegate env c (HexToAddress path) w = (Ret (Inr c'), w1)"
    and rd: "ReceiveDelegate env c' (HexToAddress path) w1 = (Ret (Inr ()), w2)" "accounts_ok (store w2)"
  shows "\<exists>w3 resp. Delegate env (Some (VerifyDelegate env)) path (Inr c) w = (Ret resp, w3) \<and> store w3 = store w2 \<and>
     Status resp = (if AccountAvailable (accountOf (HexToAddress path) (store w2)) \<ge>
         a_NeedSmt (accountOf (HexToAddress path) (store w2)) then 3 else 2)"
proof -
  have "accountSanity (accountOf a (store w2)) w3 = (Ret (), w3)" for a w3
    by (simp add: accountSanity_ok nonneg_def accountOf_used [OF rd(2)])
  with assms show ?thesis
    by (simp add: Delegate_def Let_def AccountIsBalanceEnough_def bindA_def
        delegateSuccess_def delegateSuccessButNotEnoughBalance_def)
qed

text \<open>
  C12. A first request that verifies, in a sound database, with a balance proof or without one (then its locks are not verified and must not be nil), when no statement
  fails, the fees are not negative and the random keys drawn are new: the service answers 3 if the delegator's balance covers what
  it needs and 2 otherwise; the row holds the whole request in state Init with its fee; every other delegation
  is kept; exactly the punish evidence and disposed locks that are new for this delegation are appended; the
  delegator's \<open>NeedSmt\<close> grows by the fee and no other account changes; and the two execution
  points are scheduled if the channel is already closed (and only then).
\<close>
theorem first_request_served:
  fixes c :: channelFor3rd and path :: string
  defines "a \<equiv> HexToAddress path"
  defines "k \<equiv> BuildDelegateKey (c_ChannelIdentifier c) a"
  assumes env: "no_faults env" "fees_ok (env_params env)"
    and w: "accounts_ok (store w)" "delegates_ok (store w)" "\<forall>n. fresh_keys env (w\<lparr>clock := n\<rparr>)"
    and a: "a \<noteq> 0" and none: "delegateBy k (store w) = None"
    and locks: "ut_Nonce (c_UpdateTransfer c) > 0 \<or> (\<exists>us. GetDelegateUnlocks c = Ret us)"
    and v: "VerifyDelegate env c a w = (Ret (Inr c'), w1)"
  shows "\<exists>us ss t m resp w'. GetDelegateUnlocks c = Ret us \<and> GetDeleteSecrets c = Ret ss \<and>
     Delegate env (Some (VerifyDelegate env)) path (Inr c) w = (Ret resp, w') \<and>
     Status resp = (if AccountAvailable (accountOf a (store w')) \<ge> a_NeedSmt (accountOf a (store w')) then 3 else 2) \<and>
     (\<forall>j. delegateBy j (store w') = (if j = k
        then Some (firstRow env c' a us ss (punishFee (env_params env) k c' (store w)) t) else delegateBy j (store w))) \<and>
     evidenceAdded k c' (store w) (store w') \<and>
     (\<forall>b. accountOf b (store w') = (if b = a
        then (accountOf b (store w))\<lparr>a_NeedSmt := a_NeedSmt (accountOf b (store w)) +
          delegationFee (env_params env) (GetDelegateUpdateBalanceProof c') us ss (punishFee (env_params env) k c' (store w))\<rparr>
        else accountOf b (store w))) \<and>
     tMonitor (store w') = tMonitor (store w) @ (if c_settleBlockNumber c' > 0
        then schedule env (firstRow env c' a us ss (punishFee (env_params env) k c' (store w)) t) m else [])"
proof -
  note acc = VerifyDelegate_accepts [OF v]
  have ok: "request_ok c'" "k = BuildDelegateKey (c_ChannelIdentifier c') a"
    using verified_request_ok [OF acc(2)] acc(3) locks by (auto simp: k_def)
  obtain us ss where conv: "GetDelegateUnlocks c' = Ret us" "GetDeleteSecrets c' = Ret ss"
    using ok(1) by (auto simp: request_ok_def)
  have w1: "accounts_ok (store w1)" "delegates_ok (store w1)" "delegateBy k (store w1) = None"
     "\<forall>n. fresh_keys env (w1\<lparr>clock := n\<rparr>)" "store w1 = store w"
    using w none by (simp_all add: acc(1))
  obtain w2 t m where rd: "ReceiveDelegate env c' a w1 = (Ret (Inr ()), w2)" "accounts_ok (store w2)"
     "(\<forall>j. delegateBy j (store w2) = (if j = k
        then Some (firstRow env c' a us ss (punishFee (env_params env) k c' (store w)) t) else delegateBy j (store w)))"
     "evidenceAdded k c' (store w) (store w2)"
     "(\<forall>b. accountOf b (store w2) = (if b = a
        then (accountOf b (store w))\<lparr>a_NeedSmt := a_NeedSmt (accountOf b (store w)) +
          delegationFee (env_params env) (GetDelegateUpdateBalanceProof c') us ss (punishFee (env_params env) k c' (store w))\<rparr>
        else accountOf b (store w)))"
     "tMonitor (store w2) = tMonitor (store w) @ (if c_settleBlockNumber c' > 0
        then schedule env (firstRow env c' a us ss (punishFee (env_params env) k c' (store w)) t) m else [])"
    using ReceiveDelegate_first [OF env w1(1,2) ok(1) conv, of a] w1(3,4) unfolding w1(5) ok(2) [symmetric] by blast
  obtain w3 resp where d: "Delegate env (Some (VerifyDelegate env)) path (Inr c) w = (Ret resp, w3)" "store w3 = store w2"
     "Status resp = (if AccountAvailable (accountOf a (store w2)) \<ge> a_NeedSmt (accountOf a (store w2)) then 3 else 2)"
    using Delegate_confirms [OF env(1) a [unfolded a_def] v [unfolded a_def] rd(1) [unfolded a_def] rd(2)] unfolding a_def by blast
  have "GetDelegateUnlocks c = Ret us" "GetDeleteSecrets c = Ret ss" using conv acc(3) by auto
  then show ?thesis using d(1,3) rd(3-6) unfolding d(2) [symmetric] by blast
qed


text \<open>The signed request of \<open>PM_Verifier\<close>, posted by delegator 7 whose account holds 20 of what it needs.\<close>

lemma signingEnv_quiet [simp]:
  "no_faults signingEnv" "env_params signingEnv = env_params quietEnv" "env_keccak signingEnv = env_keccak quietEnv"
  by (simp_all add: no_faults_def signingEnv_def quietEnv_def)

lemma signedRequest_parts [simp]:
  "GetDelegateUnlocks signedRequest = Ret []" "GetDeleteSecrets signedRequest = Ret sampleSecrets"
  "c_ChannelIdentifier signedRequest = 5" "c_Punishes signedRequest \<noteq> []"
  "du_Nonce (GetDelegateUpdateBalanceProof signedRequest) = 2"
  by (simp_all add: signedRequest_def sampleRequest_def GetDelegateUnlocks_def GetDeleteSecrets_def
      toDelegateSecret_def sampleSecrets_def GetDelegateUpdateBalanceProof_def)

lemma fresh_signing: "fresh_keys signingEnv (accountWorld\<lparr>clock := n\<rparr>)"
  by (simp add: fresh_keys_def accountWorld_def emptyDb_def signingEnv_def quietEnv_def)

lemma path7: "HexToAddress ''0x07'' = 7"
  by code_simp

theorem first_request_served_witness:
  "\<exists>resp w' d. Delegate signingEnv (Some (VerifyDelegate signingEnv)) ''0x07'' (Inr signedRequest) accountWorld = (Ret resp, w') \<and>
     Status resp = 2 \<and> delegateBy (BuildDelegateKey 5 7) (store w') = Some d \<and> NeedSMT d = 6 \<and>
     a_NeedSmt (accountOf 7 (store w')) = 26 \<and> tMonitor (store w') = []"
proof -
  let ?c = "signedRequest\<lparr>c_settleBlockNumber := 0\<rparr>"
  obtain w1 where v: "VerifyDelegate signingEnv signedRequest 7 accountWorld = (Ret (Inr ?c), w1)"
    using signedRequest_accepted by blast
  have fee: "delegationFee (env_params quietEnv) (GetDelegateUpdateBalanceProof ?c) [] sampleSecrets
      (punishFee (env_params quietEnv) (BuildDelegateKey 5 7) ?c (store accountWorld)) = 6"
    by (simp add: delegationFee_def sampleSecrets_def punishFee_def GetDelegateUpdateBalanceProof_def)
      (simp add: signedRequest_def sampleRequest_def quietEnv_def initParams_def)
  have acc: "accountOf 7 (store accountWorld) = sampleAccount" by simp
  show ?thesis
    using first_request_served [where env = signingEnv and path = "''0x07''" and w = accountWorld and c = signedRequest,
        unfolded path7, OF _ _ accountWorld_ok accountWorld_delegates(1) _ _ _ _ v] fresh_signing fee
    by (auto simp: signedRequest_sel AccountAvailable_def sampleAccount_def)
qed

theorem confirmed_request_is_signed_witness:
  "proofVerified signingEnv signedRequest 7 \<and> (\<exists>resp w'. Status resp \<noteq> 1 \<and>
     Delegate signingEnv (Some (VerifyDelegate signingEnv)) ''0x07'' (Inr signedRequest) accountWorld = (Ret resp, w'))"
proof -
  let ?c = "signedRequest\<lparr>c_settleBlockNumber := 0\<rparr>" and ?w1 = "tick (tick accountWorld)"
  obtain w1 where v: "VerifyDelegate signingEnv signedRequest 7 accountWorld = (Ret (Inr ?c), w1)"
    using signedRequest_accepted by blast
  then have v: "VerifyDelegate signingEnv signedRequest 7 accountWorld = (Ret (Inr ?c), ?w1)"
    using VerifyDelegate_accepts(1) by blast
  have conv: "GetDelegateUnlocks ?c = Ret []" "GetDeleteSecrets ?c = Ret sampleSecrets" "request_ok ?c"
    using SetSettleBlockNumber_sel(5-7) [of 0 signedRequest] verifyContent_request_ok [OF signedRequest_content]
    by (simp_all add: SetSettleBlockNumber_def signedRequest_sel)
  obtain w2 where "ReceiveDelegate signingEnv ?c 7 ?w1 = (Ret (Inr ()), w2)" "accounts_ok (store w2)"
    using ReceiveDelegate_first [OF signingEnv_quiet(1) _ _ _ conv(3,1,2), of ?w1 7] fresh_signing by auto
  with Delegate_confirms [OF signingEnv_quiet(1) _ v [folded path7]] obtain resp w3 where
    d: "Delegate signingEnv (Some (VerifyDelegate signingEnv)) ''0x07'' (Inr signedRequest) accountWorld = (Ret resp, w3)"
      "Status resp \<noteq> 1"
    by (fastforce simp: path7)
  from confirmed_request_is_signed [OF d] d show ?thesis by (auto simp: path7 signedRequest_sel)
qed

text \<open>
  A service that charges for registering secrets only does not poll for payments: no account is ever
  credited, although the fee is required.
\<close>
lemma secret_fee_alone_starts_no_polling:
  assumes "config smtAddr ''0'' ''0'' ''0'' secretFee url debug = Some p"
  shows "\<not> startsSmtQuery p \<and> BigInt_SetString secretFee = Some (SmtSecret p)"
proof -
  have "BigInt_SetString ''0'' = Some 0" by code_simp
  with assms show ?thesis by (auto simp: config_def startsSmtQuery_def split: option.splits if_splits)
qed

lemma secret_fee_alone_starts_no_polling_witness:
  "\<exists>p. config ''0x00'' ''0'' ''0'' ''0'' ''5'' ''http://127.0.0.1:5001'' False = Some p \<and> \<not> startsSmtQuery p \<and> SmtSecret p = 5"
proof -
  have fee: "BigInt_SetString ''5'' = Some 5" and zero: "BigInt_SetString ''0'' = Some 0" by code_simp+
  then obtain p where "config ''0x00'' ''0'' ''0'' ''0'' ''5'' ''http://127.0.0.1:5001'' False = Some p" by (simp add: config_def)
  with secret_fee_alone_starts_no_polling [OF this] fee show ?thesis by simp
qed

text \<open>
  The fee query reports the delegator's own account, when no statement fails: what is available (received less used less
  locked) and what is still needed; it changes no table.
\<close>
lemma fee_query_reports_account:
  assumes "no_faults env" "accounts_ok (store w)"
  shows "\<exists>w'. Fee env path w = (Ret \<lparr>Available = a_TotalReceivedSmt (accountOf (HexToAddress path) (store w)) -
       a_UsedSmt (accountOf (HexToAddress path) (store w)) - a_LockedSmt (accountOf (HexToAddress path) (store w)),
     NeedSmt = a_NeedSmt (accountOf (HexToAddress path) (store w))\<rparr>, w') \<and> store w' = store w"
  using assms by (simp add: Fee_def AccountAvailable_def)

lemma fee_query_reports_account_witness:
  "\<exists>w'. Fee quietEnv (Address_Hex (env_keccak quietEnv) 7) accountWorld = (Ret \<lparr>Available = 20, NeedSmt = 20\<rparr>, w')"
  using fee_query_reports_account [OF no_faults_quietEnv accountWorld_ok, of "Address_Hex (env_keccak quietEnv) 7"]
  by (auto simp: sampleAccount_def)

text \<open>
  The delegation query reports what is stored, when no statement fails: for a stored delegation its row, its decoded proof
  and locks and all of its punish evidence and disposed locks, with code 3 if the balance covers the need and 2
  otherwise; for one that is not stored an error; and it changes no table.
\<close>
lemma tx_reports_delegation:
  fixes blank :: 'm and newAPIResponse :: "delegateInfoResponse \<Rightarrow> 'm apiResponse_scheme" and delegaterStr channel :: string
  defines "a \<equiv> HexToAddress delegaterStr"
  defines "k \<equiv> BuildDelegateKey (HexToHash channel) a"
  assumes "no_faults env" "accounts_ok (store w)" "delegates_ok (store w)" "a \<noteq> 0" "channel \<noteq> Address_Hex (env_keccak env) 0"
  shows "\<exists>resp w'. Tx env blank newAPIResponse delegaterStr channel w = (Ret resp, w') \<and> store w' = store w \<and>
     (case delegateBy k (store w) of
        None \<Rightarrow> resp = txError blank (''db GetDelegateByKey err : '' @ errText ErrRecordNotFound)
      | Some d \<Rightarrow> \<exists>u us. UpdateBalanceProof d = Ret u \<and> Unlocks d = Ret us \<and>
          resp = (newAPIResponse \<lparr>i_Delegate = d, i_DelegateUpdateBalanceProof = u, i_DelegateUnlocks = us,
              i_DelegatePunishes = filter (\<lambda>p. dp_DelegateKey p = k) (tPunish (store w)),
              i_DelegateAnnounceDispose = filter (\<lambda>x. da_DelegateKey x = k) (tDispose (store w))\<rparr>)
            \<lparr>ErrorCode := (if AccountAvailable (accountOf a (store w)) \<ge> a_NeedSmt (accountOf a (store w)) then 3 else 2)\<rparr>)"
proof (cases "delegateBy k (store w)")
  case None
  with assms(3-) show ?thesis by (simp add: Tx_def Let_def a_def k_def)
next
  case (Some d)
  have "delegate_ok d" using rowBy_Some [OF Some] assms(5) by (auto simp: delegates_ok_def)
  then obtain u us ss where parts: "UpdateBalanceProof d = Ret u" "Unlocks d = Ret us" by (auto elim: delegate_ok_getters)
  have sane: "accountSanity (accountOf a (store w)) = returnA ()"
    by (simp add: accountSanity_ok nonneg_def accountOf_used [OF assms(4)])
  show ?thesis
    using Some parts sane assms(3-)
    by (simp add: Tx_def Let_def a_def k_def GetDelegatePunishListByDelegateKey_def
        GetDelegateAnnounceDisposeListByDelegateKey_def gorm_where_def AccountIsBalanceEnough_def
        delegateSuccess_def delegateSuccessButNotEnoughBalance_def)
qed

lemma tx_reports_delegation_witness:
  "\<exists>resp w'. Tx quietEnv () (\<lambda>i. \<lparr>ErrorCode = 0, ErrorMsg = '''', \<dots> = ()\<rparr>) ''0x07'' ''0x05''
      (accountWorld\<lparr>store := (store accountWorld)\<lparr>tDelegate := [sampleDelegate 5 7]\<rparr>\<rparr>) = (Ret resp, w') \<and> ErrorCode resp = 3"
proof -
  let ?w = "accountWorld\<lparr>store := (store accountWorld)\<lparr>tDelegate := [sampleDelegate 5 7]\<rparr>\<rparr>"
  have acc: "accountOf 7 (store ?w) = sampleAccount" "accounts_ok (store ?w)"
    using accountWorld_account accountWorld_ok by (simp_all add: accountOf_def accounts_ok_def del: accountWorld_account accountWorld_ok)
  have del: "delegates_ok (store ?w)" by (simp add: delegates_ok_def sampleDelegate_getters)
  have chan: "HexToHash ''0x05'' = 5" by code_simp
  have "HexToAddress ''0x05'' = 5" by code_simp
  then have "HexToAddress ''0x05'' \<noteq> HexToAddress (Address_Hex (env_keccak quietEnv) 0)" by simp
  then have arg: "''0x05'' \<noteq> Address_Hex (env_keccak quietEnv) 0" by metis
  show ?thesis
    using tx_reports_delegation [OF no_faults_quietEnv acc(2) del, of "''0x07''" "''0x05''" "()" "\<lambda>i. \<lparr>ErrorCode = 0, ErrorMsg = '''', \<dots> = ()\<rparr>"]
      acc(1) arg chan by (auto simp: path7 sampleDelegate_getters sampleAccount_def AccountAvailable_def)
qed

end
