(* ===== verification/PM_Safety.thy ===== *)
theory PM_Safety
  imports PM_Events PM_Rest
begin

text \<open>
  The invariants of the whole service.  \<open>sane I B\<close> says of a state that its database satisfies \<open>I\<close>, that
  every stored delegation and every one a started goroutine works on is well formed, that goroutines
  exist only after a first block, and that the block number satisfies \<open>B\<close>.

  The locale \<open>service_invariant\<close> states what the accounts must promise for \<open>I\<close>: it implies solvency, it does
  not look at other tables, and it survives writing back an account that was read.  In it, every
  operation of the service is shown to keep \<open>sane I B\<close> and to panic only if \<open>b\<close>.  It is interpreted twice: for solvency
  under arbitrary faults (\<open>b\<close> true), and for the books when no statement fails (\<open>b\<close> false: no panic at all).
\<close>

subsection \<open>The invariant of the running service\<close>

fun subject :: "goroutine \<Rightarrow> delegate" where
  "subject (GoUnlocks d) = d"
| "subject (GoUpdateBalanceProofAndUnlocks d) = d"
| "subject (GoPunishes d) = d"

definition sane :: "(modeldb \<Rightarrow> bool) \<Rightarrow> (int option \<Rightarrow> bool) \<Rightarrow> world \<Rightarrow> bool" where
  "sane I B w \<longleftrightarrow> I (store w) \<and> delegates_ok (store w) \<and> (\<forall>g \<in> set (goroutines w). delegate_ok (subject g)) \<and>
     (goroutines w \<noteq> [] \<longrightarrow> ce_blockNumber w \<noteq> None) \<and> B (ce_blockNumber w)"

lemma sane_simps [simp]:
  "sane I B (w\<lparr>clock := n\<rparr>) = sane I B w" "sane I B (w\<lparr>txs := t\<rparr>) = sane I B w"
  "sane I B (w\<lparr>store := s\<rparr>) \<longleftrightarrow> I s \<and> delegates_ok s \<and> sane (\<lambda>_. True) B (w\<lparr>store := s\<rparr>)"
  by (auto simp: sane_def)

text \<open>Block numbers are not negative \<open>int64\<close> values.\<close>

definition blockOk :: "int option \<Rightarrow> bool" where
  "blockOk blk \<longleftrightarrow> (\<forall>n. blk = Some n \<longrightarrow> 0 \<le> n \<and> in_int64 n)"

locale service_invariant =
  fixes env :: env and b :: bool and I :: "modeldb \<Rightarrow> bool"
  assumes faults: "b \<or> no_faults env"
    and solvency: "I db \<Longrightarrow> accounts_ok db"
    and frame: "I db \<Longrightarrow> tAccount db' = tAccount db \<Longrightarrow> tTransfer db' = tTransfer db \<Longrightarrow> I db'"
    and saved: "I (store w) \<Longrightarrow> AccountGetAccount env addr w = (Ret a, w') \<Longrightarrow> nonneg a' \<Longrightarrow> solvent a' \<Longrightarrow>
      a_Address a' = a_Address a \<Longrightarrow> a_TotalReceivedSmt a' = a_TotalReceivedSmt a \<Longrightarrow>
      I (saveAccount (toSerialization a') (store w))"
begin

lemma safe_query:
  assumes "\<And>w. sane I B w \<Longrightarrow> P (q (store w))" "\<And>e. b \<Longrightarrow> P (Inl (DbErr e))"
  shows "safe b (sane I B) (db_query env q) P"
  using assms faults by (auto intro!: safeI simp: db_query_def split: option.split)

lemma safe_write:
  assumes "\<And>s. I s \<Longrightarrow> delegates_ok s \<Longrightarrow> I (f s) \<and> delegates_ok (f s)"
  shows "safe b (sane I B) (db_write env f) (\<lambda>err. b \<or> err = None)"
  using assms faults by (auto intro!: safeI simp: db_write_def sane_def split: option.split)

lemma secure_write:
  "(\<And>s. I s \<Longrightarrow> delegates_ok s \<Longrightarrow> I (f s) \<and> delegates_ok (f s)) \<Longrightarrow> secure b (sane I B) (db_write env f)"
  by (rule safe_weaken [OF safe_write]) auto

lemma secure_query [safe_rules]: "secure b (sane I B) (db_query env q)"
  by (rule safe_query) simp_all

lemma secure_outside [safe_rules]:
  "secure b (sane I B) (now env)" "secure b (sane I B) (NewRandomAddress env)"
  "secure b (sane I B) (WaitMined env h)" "secure b (sane I B) (TokenNetwork env t)"
  "secure b (sane I B) (submitTx env call)" "secure b (sane I B) (GetChannelInfo env t c)"
  by (auto intro!: safeI simp: WaitMined_def TokenNetwork_def submitTx_def GetChannelInfo_def split: sum.split)

text \<open>Writes to the tables of delegations, execution points, records and the last block.\<close>

lemma other_tables:
  assumes "I db" "delegates_ok db"
  shows "I (saveRecord r db) \<and> delegates_ok (saveRecord r db)" "I (saveMonitor m db) \<and> delegates_ok (saveMonitor m db)"
    "I (saveLastBlock l db) \<and> delegates_ok (saveLastBlock l db)"
    "I (insertPunish p db) \<and> delegates_ok (insertPunish p db)" "I (insertDispose a db) \<and> delegates_ok (insertDispose a db)"
    "delegate_ok d \<Longrightarrow> I (saveDelegate d db) \<and> delegates_ok (saveDelegate d db)"
  using assms frame [OF assms(1)] delegates_ok_save [OF assms(2)]
  by (auto simp: saveRecord_def saveMonitor_def saveLastBlock_def insertPunish_def insertDispose_def saveDelegate_def
      delegates_ok_def)

text \<open>A write whose error is a panic.\<close>

lemma write_or_panic:
  assumes "\<And>s. I s \<Longrightarrow> delegates_ok s \<Longrightarrow> I (f s) \<and> delegates_ok (f s)" "safe b (sane I B) k Q"
  shows "safe b (sane I B) (bindA (db_write env f) (\<lambda>err. case err of None \<Rightarrow> k | Some e \<Rightarrow> panicA (g e))) Q"
proof (rule safe_bindA [OF safe_write [OF assms(1)]])
  show "safe b (sane I B) (case err of None \<Rightarrow> k | Some e \<Rightarrow> panicA (g e)) Q" if "b \<or> err = None" for err
    using that assms(2) by (cases err) (simp_all add: safe_panicA)
qed

lemma secure_UpdateObject: "delegate_ok d \<Longrightarrow> secure b (sane I B) (UpdateObject env d)"
  unfolding UpdateObject_def by (intro write_or_panic secure_returnA other_tables)

lemma secure_records [safe_rules]:
  "secure b (sane I B) (NewDelegateExecuteRecord env d t ps)" "secure b (sane I B) (HasSecretAlreadyRegister env s)"
  "secure b (sane I B) (SaveLatestBlockNumber env n)"
  unfolding NewDelegateExecuteRecord_def HasSecretAlreadyRegister_def SaveLatestBlockNumber_def
  by (intro safe_rules secure_write other_tables; assumption)+

lemma secure_SaveDelegateExecuteRecord [safe_rules]: "secure b (sane I B) (SaveDelegateExecuteRecord env r)"
  unfolding SaveDelegateExecuteRecord_def by (intro write_or_panic secure_returnA other_tables)

lemma secure_AddDelegateMonitor [safe_rules]: "secure b (sane I B) (AddDelegateMonitor env d)"
  unfolding AddDelegateMonitor_def AddDelegateMonitorInTx_def
  by (intro write_or_panic other_tables safe_rules)

text \<open>The operations that read an account, change it, check it and write it back.\<close>

lemma read_account:
  assumes "sane I B w"
  obtains a where "AccountGetAccount env addr w = (Ret a, tick w)" "nonneg a" "solvent a" "a_Address a = word_bytes addr"
proof -
  have "accounts_ok (store w)" using assms solvency by (simp add: sane_def)
  then show ?thesis using AccountGetAccount_reads that by (metis surj_pair)
qed

lemma save_read_account:
  assumes "sane I B w" "AccountGetAccount env addr w = (Ret a, tick w)" "nonneg a'" "solvent a'"
    "a_Address a' = a_Address a" "a_TotalReceivedSmt a' = a_TotalReceivedSmt a"
    and fin: "\<And>err. b \<or> err = None \<Longrightarrow> secure b (sane I B) (fin err)"
  shows "let w' = bindA (db_write env (saveAccount (toSerialization a'))) fin (tick w) in
     sane I B (snd w') \<and> (case fst w' of Ret x \<Rightarrow> True | Panic _ \<Rightarrow> b)"
proof -
  let ?w = "w\<lparr>clock := Suc (Suc (clock w)), store := saveAccount (toSerialization a') (store w)\<rparr>"
  have "I (saveAccount (toSerialization a') (store w))"
    using assms(1) saved [OF _ assms(2-6)] by (simp add: sane_def)
  then have ok: "sane I B ?w" using assms(1) by (simp add: sane_def)
  show ?thesis
  proof (cases "env_fault env (Suc (clock w))")
    case None
    then show ?thesis using safeD [OF fin ok, of None] by (simp add: db_write_def bindA_def Let_def)
  next
    case (Some e)
    then have "b" using faults by (auto simp: no_faults_def)
    then show ?thesis
      using Some safeD [OF fin, of "Some (DbErr e)" "tick (tick w)"] assms(1) by (simp add: db_write_def bindA_def Let_def)
  qed
qed

lemma read_check_save:
  assumes chg: "\<And>a. nonneg a \<Longrightarrow> solvent a \<Longrightarrow> \<not> refuse a \<Longrightarrow> nonneg (chg a) \<and> solvent (chg a)"
    and same: "\<And>a. a_Address (chg a) = a_Address a" "\<And>a. a_TotalReceivedSmt (chg a) = a_TotalReceivedSmt a"
  shows "secure b (sane I B)
     (bindA (AccountGetAccount env addr) (\<lambda>a.
      if refuse a then returnA (refused a)
      else bindA (accountSanity (chg a)) (\<lambda>_. db_write env (saveAccount (toSerialization (chg a))))))"
proof (rule safeI)
  fix w assume w: "sane I B w"
  then obtain a where a: "AccountGetAccount env addr w = (Ret a, tick w)" "nonneg a" "solvent a" by (rule read_account)
  let ?m = "bindA (AccountGetAccount env addr) (\<lambda>a.
      if refuse a then returnA (refused a)
      else bindA (accountSanity (chg a)) (\<lambda>_. db_write env (saveAccount (toSerialization (chg a)))))"
  show "sane I B (snd (?m w)) \<and> (case fst (?m w) of Ret x \<Rightarrow> True | Panic _ \<Rightarrow> b)"
  proof (cases "refuse a")
    case True
    with a w show ?thesis by simp
  next
    case False
    from chg [OF a(2,3) this] have ok: "nonneg (chg a)" "solvent (chg a)" by auto
    then have "a_UsedSmt (chg a) \<le> a_TotalReceivedSmt (chg a)" by (simp add: solvent_def nonneg_def)
    then show ?thesis
      using save_read_account [OF w a(1) ok same, of returnA] a False ok by (simp add: secure_returnA Let_def)
  qed
qed

lemma secure_AccountLockSmt:
  assumes "0 \<le> amount"
  shows "secure b (sane I B) (AccountLockSmt env addr amount)"
proof -
  let ?chg = "\<lambda>a. a\<lparr>a_LockedSmt := a_LockedSmt a + amount, a_NeedSmt := a_NeedSmt a - amount\<rparr>"
  let ?refused = "\<lambda>a. if AccountAvailable a < amount then Some (BalanceNotEnough (AccountAvailable a) amount)
      else Some (NeedSmtSmaller (a_NeedSmt a) amount)"
  have eq: "AccountLockSmt env addr amount =
     bindA (AccountGetAccount env addr) (\<lambda>a.
       if AccountAvailable a < amount \<or> a_NeedSmt a < amount then returnA (?refused a)
       else bindA (accountSanity (?chg a)) (\<lambda>_. db_write env (saveAccount (toSerialization (?chg a)))))"
    by (auto simp: AccountLockSmt_def Let_def intro!: arg_cong [where f = "bindA (AccountGetAccount env addr)"])
  show ?thesis unfolding eq
    by (rule read_check_save) (use assms in \<open>auto simp: solvent_def AccountAvailable_def nonneg_def\<close>)
qed

lemma secure_AccountUnlockSmt:
  assumes "0 \<le> amount"
  shows "secure b (sane I B) (AccountUnlockSmt env addr amount)"
  unfolding AccountUnlockSmt_def Let_def
  by (rule read_check_save) (use assms in \<open>auto simp: solvent_def nonneg_def\<close>)

lemma secure_AccountUseSmt:
  assumes "0 \<le> amount"
  shows "secure b (sane I B) (AccountUseSmt env addr amount)"
  unfolding AccountUseSmt_def Let_def
  by (rule read_check_save) (use assms in \<open>auto simp: solvent_def nonneg_def\<close>)

lemma secure_charges:
  assumes "fees_ok (env_params env)"
  shows "secure b (sane I B) (AccountLockSmt env addr (SmtUnlock (env_params env) * int n))"
    "secure b (sane I B) (AccountLockSmt env addr (SmtUpdateTransfer (env_params env)))"
    "secure b (sane I B) (AccountLockSmt env addr (SmtPunish (env_params env)))"
    "secure b (sane I B) (AccountLockSmt env addr (SmtSecret (env_params env)))"
    "secure b (sane I B) (AccountUnlockSmt env addr (SmtUnlock (env_params env)))"
    "secure b (sane I B) (AccountUnlockSmt env addr (SmtUpdateTransfer (env_params env)))"
    "secure b (sane I B) (AccountUnlockSmt env addr (SmtPunish (env_params env)))"
    "secure b (sane I B) (AccountUnlockSmt env addr (SmtSecret (env_params env)))"
    "secure b (sane I B) (AccountUseSmt env addr (SmtUnlock (env_params env)))"
    "secure b (sane I B) (AccountUseSmt env addr (SmtUpdateTransfer (env_params env)))"
    "secure b (sane I B) (AccountUseSmt env addr (SmtPunish (env_params env)))"
    "secure b (sane I B) (AccountUseSmt env addr (SmtSecret (env_params env)))"
  using assms
  by (auto intro!: secure_AccountLockSmt secure_AccountUnlockSmt secure_AccountUseSmt simp: fees_ok_def)

text \<open>The transactions; a block number is stored, unless panics are allowed.\<close>

lemma safe_blockNumber: "safe b (sane I B) (getsA ce_blockNumber) B"
  by (rule safeI) (simp add: sane_def)

lemma safe_executeTx:
  assumes "b \<or> \<not> B None"
  shows "safe b (sane I B) (executeTx env call r) (\<lambda>(r, p). b \<or> p = None)"
proof -
  have blk: "safe b (sane I B) (case bn of None \<Rightarrow> returnA (r, Some noBlockNumber) | Some n \<Rightarrow> k n) (\<lambda>(r, p). b \<or> p = None)"
    if "B bn" "\<And>n. safe b (sane I B) (k n) (\<lambda>(r, p). b \<or> p = None)" for bn k r
    using that assms by (cases bn) (auto intro: safe_returnA)
  show ?thesis unfolding executeTx_def Let_def
    by (intro secure_bindA [OF secure_outside(5)] secure_bindA [OF secure_outside(1)] secure_bindA [OF secure_outside(3)]
        safe_case_sum safe_bindA [OF safe_blockNumber] blk safe_returnA; simp)
qed

lemma safe_onTokenNetwork:
  "b \<or> \<not> B None \<Longrightarrow> safe b (sane I B) (onTokenNetwork env d call r) (\<lambda>(r, p). b \<or> p = None)"
  unfolding onTokenNetwork_def
  by (intro secure_bindA [OF secure_outside(4)] safe_case_option safe_executeTx safe_returnA) simp_all

lemma secure_deferSave:
  assumes "safe b (sane I B) m (\<lambda>(r, p). b \<or> p = None)"
  shows "secure b (sane I B) (deferSave env m)"
  unfolding deferSave_def
proof (rule safe_bindA [OF assms])
  fix x :: "delegateExecuteRecord \<times> string option" assume "case x of (r, p) \<Rightarrow> b \<or> p = None"
  then show "secure b (sane I B) (case x of (r, p) \<Rightarrow> bindA (SaveDelegateExecuteRecord env r) (\<lambda>_.
      case p of None \<Rightarrow> returnA r | Some msg \<Rightarrow> panicA msg))"
    by (auto intro!: secure_bindA [OF secure_SaveDelegateExecuteRecord] secure_returnA safe_panicA split: option.split)
qed

lemma secure_transactions:
  assumes "b \<or> \<not> B None"
  shows "secure b (sane I B) (doRegisterSecret env d ds)" "secure b (sane I B) (doUpdateBalanceProof env d du)"
    "secure b (sane I B) (doUnlock env d dl n das)" "secure b (sane I B) (doPunish env d dp)"
  using safe_executeTx [where B = B, OF assms] safe_onTokenNetwork [where B = B, OF assms]
  unfolding doRegisterSecret_def doUpdateBalanceProof_def doUnlock_def doPunish_def Let_def
  by (auto intro!: secure_bindA [OF secure_records(1)] secure_deferSave safe_returnA)

text \<open>The delegated operations, on a row that is well formed.\<close>

lemma safe_failNoSmt: "delegate_ok d \<Longrightarrow> safe b (sane I B) (failNoSmt env d e) delegate_ok"
  unfolding failNoSmt_def Let_def by (intro secure_bindA secure_UpdateObject safe_returnA) simp_all

lemma safe_store_result:
  "delegate_ok d \<Longrightarrow> safe b (sane I B) (bindA (UpdateObject env d) (\<lambda>_. returnA d)) delegate_ok"
  by (intro secure_bindA secure_UpdateObject safe_returnA)

lemma read_or_panic:
  assumes "\<And>w. sane I B w \<Longrightarrow> P (q (store w))" "\<And>y. P y \<Longrightarrow> safe b (sane I B) (k y) Q"
  shows "safe b (sane I B) (bindA (db_query env (\<lambda>db. Inr (q db))) (\<lambda>r.
     case r of Inl e \<Rightarrow> panicA (g e) | Inr y \<Rightarrow> k y)) Q"
proof (rule safe_bindA)
  show "safe b (sane I B) (db_query env (\<lambda>db. Inr (q db))) (\<lambda>r. case r of Inl e \<Rightarrow> b | Inr y \<Rightarrow> P y)"
    by (rule safe_query) (simp_all add: assms(1))
qed (auto intro: safe_panicA assms(2) split: sum.splits)

lemma secure_doDelegateSecrets:
  assumes fees: "fees_ok (env_params env)" and "b \<or> \<not> B None"
  shows "secure b (sane I B) (doDelegateSecrets env l)"
proof -
  have secret: "secure b (sane I B) (doDelegateSecret env l d ds)" for d ds
    unfolding doDelegateSecret_def by (intro safe_rules secure_charges [OF fees] secure_transactions assms)
  have rows: "safe b (sane I B) (GetAllDelegate env) (\<lambda>ds. \<forall>d \<in> set ds. delegate_ok d)"
    unfolding GetAllDelegate_def
    by (rule read_or_panic [where P = "\<lambda>ds. \<forall>d \<in> set ds. delegate_ok d"])
      (simp_all add: sane_def delegates_ok_def safe_returnA)
  show ?thesis
    unfolding doDelegateSecrets_def
    by (rule safe_bindA [OF rows])
      (auto intro!: safe_foreachA secure_bindA secret elim!: delegate_ok_getters intro: safe_outcomeA)
qed

lemma safe_doDelegateUpdateBalanceProof:
  assumes fees: "fees_ok (env_params env)" and "b \<or> \<not> B None" "delegate_ok d"
  shows "safe b (sane I B) (doDelegateUpdateBalanceProof env d) delegate_ok"
proof -
  obtain u where u: "UpdateBalanceProof d = Ret u" using assms(3) by (rule delegate_ok_getters)
  show ?thesis
    unfolding doDelegateUpdateBalanceProof_def Let_def
    by (intro secure_bindA safe_outcomeA [OF u] safe_if safe_case_option safe_returnA secure_charges [OF fees]
        safe_failNoSmt safe_store_result secure_transactions assms(2))
      (simp_all add: assms)
qed

lemma secure_doDelegateUnlocks:
  assumes fees: "fees_ok (env_params env)" and "b \<or> \<not> B None" "delegate_ok d"
  shows "secure b (sane I B) (doDelegateUnlocks env d)"
proof -
  obtain u us where u: "UpdateBalanceProof d = Ret u" "Unlocks d = Ret us" using assms(3) by (rule delegate_ok_getters)
  have loop: "secure b (sane I B) (unlockAll env d n das dus)" for n das dus
    unfolding unlockAll_def by (intro safe_foldA safe_case_prod safe_rules secure_charges [OF fees] secure_transactions assms(2))
  have "delegate_ok (unlockResult x y d)" for x y using assms(3) by (simp add: unlockResult_def)
  then have "safe b (sane I B) (doDelegateUnlocks env d) delegate_ok"
    unfolding doDelegateUnlocks_def Let_def GetDelegateAnnounceDisposeListByDelegateKey_def
    by (intro secure_bindA [OF safe_outcomeA [OF u(1)]] secure_bindA [OF safe_outcomeA [OF u(2)]] safe_if safe_returnA
        read_or_panic [where P = "\<lambda>_. True"] secure_bindA [OF loop] secure_bindA [OF secure_charges(1) [OF fees]] safe_case_option safe_case_prod
        safe_failNoSmt safe_store_result assms(3)) simp_all
  then show ?thesis by (rule safe_weaken) simp_all
qed

lemma secure_doDelegatePunishes:
  assumes fees: "fees_ok (env_params env)" and "b \<or> \<not> B None" "delegate_ok d"
  shows "secure b (sane I B) (doDelegatePunishes env d)"
proof -
  have one: "secure b (sane I B) (punishOne env d dp x)" for dp x
    unfolding punishOne_def by (intro safe_rules secure_transactions assms(2))
  have "safe b (sane I B) (doDelegatePunishes env d) delegate_ok"
    unfolding doDelegatePunishes_def Let_def GetDelegatePunishListByDelegateKey_def
    by (intro read_or_panic [where P = "\<lambda>_. True"] safe_if secure_bindA secure_charges [OF fees] safe_foldA one safe_case_option
        safe_failNoSmt safe_store_result safe_returnA) (simp_all add: assms(3))
  then show ?thesis by (rule safe_weaken) simp_all
qed

lemma secure_runGoroutine:
  assumes fees: "fees_ok (env_params env)" and "b \<or> \<not> B None" "delegate_ok (subject g)"
  shows "secure b (sane I B) (runGoroutine env g)"
proof (cases g)
  case (GoUpdateBalanceProofAndUnlocks d)
  then have d: "delegate_ok d" using assms(3) by simp
  then show ?thesis
    unfolding GoUpdateBalanceProofAndUnlocks runGoroutine.simps
    by (intro safe_bindA [OF safe_doDelegateUpdateBalanceProof [where B = B, OF fees assms(2) d]] secure_bindA
        secure_doDelegateUnlocks fees assms(2) secure_returnA)
qed (use assms in \<open>auto intro!: secure_bindA secure_doDelegateUnlocks secure_doDelegatePunishes secure_returnA simp del: not_None_eq\<close>)

text \<open>The handlers of the chain events.\<close>

lemma secure_go: "delegate_ok (subject g) \<Longrightarrow> \<not> B None \<Longrightarrow> secure b (sane I B) (go g)"
  by (rule safeI) (auto simp: go_def sane_def)

lemma safe_GetDelegateByKey:
  "safe b (sane I B) (GetDelegateByKey env k) (\<lambda>r. case r of Inl _ \<Rightarrow> True | Inr d \<Rightarrow> delegate_ok d)"
  unfolding GetDelegateByKey_def
  by (rule safe_query)
    (auto simp: sane_def delegates_ok_def gorm_first_def gorm_where_def dest!: hd_in_set split: if_splits sum.split)

lemma safe_UpdateDelegateStatus:
  "delegate_ok d \<Longrightarrow> safe b (sane I B) (UpdateDelegateStatus env d s) (\<lambda>(d', _). delegate_ok d')"
  unfolding UpdateDelegateStatus_def Let_def
  by (intro secure_bindA [OF secure_write] safe_returnA conjI delegates_ok_status_column)
    (auto intro: frame)

lemma secure_fireMonitor:
  assumes "delegate_ok d" "\<not> B None"
  shows "secure b (sane I B) (fireMonitor env m d)"
proof -
  have "secure b (sane I B) (case x of (d', err) \<Rightarrow>
      case err of Some _ \<Rightarrow> returnA () | None \<Rightarrow> go (GoUpdateBalanceProofAndUnlocks d'))"
    if "case x of (d', _) \<Rightarrow> delegate_ok d'" for x :: "delegate \<times> error option"
    using that assms(2) by (auto intro: secure_returnA secure_go split: prod.split option.split)
  then show ?thesis
    using assms unfolding fireMonitor_def
    by (auto intro!: secure_go secure_returnA safe_bindA [OF safe_UpdateDelegateStatus] split: monitorType.split)
qed

lemma secure_handleMonitors:
  assumes "\<not> B None"
  shows "secure b (sane I B) (handleMonitors env ms)"
proof (induction ms)
  case Nil
  show ?case unfolding handleMonitors.simps by (rule secure_returnA)
next
  case (Cons m ms)
  have "secure b (sane I B) (case r of Inl ErrRecordNotFound \<Rightarrow> handleMonitors env ms | Inl _ \<Rightarrow> returnA False
      | Inr d \<Rightarrow> bindA (fireMonitor env m d) (\<lambda>_. handleMonitors env ms))"
    if "case r of Inl _ \<Rightarrow> True | Inr d \<Rightarrow> delegate_ok d" for r
    using that Cons assms by (auto intro!: secure_returnA secure_bindA secure_fireMonitor split: sum.split error.split)
  then show ?case unfolding handleMonitors.simps by (rule safe_bindA [OF safe_GetDelegateByKey])
qed

lemma secure_handleBlock:
  assumes fees: "fees_ok (env_params env)" and "B (Some n)"
  shows "secure b (sane I B) (handleBlock env l n)"
proof (rule safeI)
  fix w assume w: "sane I B w"
  let ?B = "\<lambda>blk. blk = Some n" and ?w = "w\<lparr>ce_blockNumber := Some n\<rparr>"
  have "secure b (sane I ?B) (bindA (doDelegateSecrets env l) (\<lambda>_.
     bindA (GetDelegateMonitorList env n) (\<lambda>r.
     case r of Inl _ \<Rightarrow> returnA () | Inr monitors \<Rightarrow>
     bindA (handleMonitors env monitors) (\<lambda>finished.
     if finished then SaveLatestBlockNumber env n else returnA ()))))"
    unfolding GetDelegateMonitorList_def
    by (intro safe_rules secure_handleMonitors secure_doDelegateSecrets [OF fees]) simp_all
  from safeD [OF this, of ?w] w assms
  show "sane I B (snd (handleBlock env l n w)) \<and> (case fst (handleBlock env l n w) of Ret x \<Rightarrow> True | Panic _ \<Rightarrow> b)"
    by (simp add: handleBlock_def sane_def)
qed

lemma secure_closed: "secure b (sane I B) (handleClosedStateChange env c)"
proof -
  have close: "secure b (sane I B) (closeDelegate env n d)" if "delegate_ok d" for n d
    using that unfolding closeDelegate_def Let_def
    by (intro secure_bindA secure_UpdateObject secure_AddDelegateMonitor) simp
  have rows: "safe b (sane I B) (GetDelegateListByChannelIdentifier env c)
      (\<lambda>r. case r of Inl _ \<Rightarrow> True | Inr ds \<Rightarrow> \<forall>d \<in> set ds. delegate_ok d)"
    unfolding GetDelegateListByChannelIdentifier_def
    by (rule safe_query) (auto simp: sane_def delegates_ok_def gorm_where_def)
  show ?thesis unfolding handleClosedStateChange_def
    by (rule safe_bindA [OF rows])
      (auto intro!: secure_returnA secure_bindA secure_outside safe_foreachA close split: sum.split option.split)
qed

lemma secure_proof_updated: "secure b (sane I B) (handleBalanceProofUpdatedStateChange env c p)"
  unfolding handleBalanceProofUpdatedStateChange_def
  by (rule safe_bindA [OF safe_GetDelegateByKey])
    (auto intro!: secure_returnA secure_UpdateObject split: sum.split)

lemma secure_transaction:
  assumes "secure b (sane I B) m"
  shows "secure b (sane I B) (transaction env m)"
proof (rule safeI)
  fix w assume w: "sane I B w"
  from safeD [OF assms w] w show "sane I B (snd (transaction env m w)) \<and>
      (case fst (transaction env m w) of Ret x \<Rightarrow> True | Panic _ \<Rightarrow> b)"
    by (cases "m w") (auto simp: transaction_def db_commit_def sane_def split: outcome.splits sum.splits option.splits)
qed

lemma secure_deleteDelegates: "secure b (sane I B) (deleteDelegates env c)"
proof -
  have "secure b (sane I B) (DeleteDelegate env k)" for k
    unfolding DeleteDelegate_def
    by (intro secure_transaction secure_bindA secure_write secure_returnA conjI delegates_ok_delete)
      (auto intro: frame simp: delegates_ok_def)
  then show ?thesis
    unfolding deleteDelegates_def GetDelegateListByChannelIdentifier_def
    by (intro safe_rules safe_foreachA)
qed

lemma secure_handleBlockNumber:
  assumes fees: "fees_ok (env_params env)" and "blockOk (Some n)"
  shows "secure b (sane I blockOk) (handleBlockNumber env n)"
proof (rule safeI)
  fix w assume w: "sane I blockOk w"
  then have last: "in_int64 (lastBlock w)" "0 \<le> lastBlock w"
    by (auto simp: sane_def blockOk_def lastBlock_def in_int64_def split: option.splits)
  have n: "in_int64 (n - 1)" "0 \<le> n" using assms(2) by (auto simp: blockOk_def in_int64_def)
  let ?m = "bindA (if lastBlock w \<noteq> 0 \<and> lastBlock w < n - 1
            then foreachA (\<lambda>i. handleBlock env (i - 1) i) [lastBlock w + 1 .. n - 1] else returnA ())
       (\<lambda>_. handleBlock env (lastBlock w) n)"
  have "blockOk (Some i)" if "i \<in> set [lastBlock w + 1 .. n - 1]" for i
    using that last(2) n(1) by (auto simp: blockOk_def in_int64_def)
  then have "secure b (sane I blockOk) ?m"
    by (intro secure_bindA safe_if safe_foreachA secure_returnA secure_handleBlock [OF fees] assms(2)) blast
  from safeD [OF this w] handleBlockNumberFuel_eq [OF n(1) last(1), of 2 env]
  show "sane I blockOk (snd (handleBlockNumber env n w)) \<and> (case fst (handleBlockNumber env n w) of Ret x \<Rightarrow> True | Panic _ \<Rightarrow> b)"
    by (simp add: handleBlockNumber_def)
qed

lemma secure_handleStateChange:
  "fees_ok (env_params env) \<Longrightarrow> (\<And>n. st = BlockStateChange n \<Longrightarrow> blockOk (Some n)) \<Longrightarrow> secure b (sane I blockOk) (handleStateChange env st)"
  by (cases st) (simp_all add: secure_handleBlockNumber secure_closed secure_proof_updated secure_deleteDelegates
      handleSettledStateChange_def handleCooperativeSettledStateChange_def handleWithdrawStateChange_def
      handleTokenAddedStateChange_def secure_returnA del: returnA_app)

text \<open>A request, whose panics are caught by the HTTP server.\<close>

lemma keeps_account_update:
  "keeps (on_store (\<lambda>db. I db \<and> delegates_ok db)) (updateAccountSMT env addr old new)"
proof (rule keepsI)
  fix w assume "on_store (\<lambda>db. I db \<and> delegates_ok db) w"
  then have w: "I (store w)" "delegates_ok (store w)" by (simp_all add: on_store_def)
  obtain a where a: "AccountGetAccount env addr w = (Ret a, tick w)" "nonneg a" "solvent a" "a_Address a = word_bytes addr"
    using AccountGetAccount_reads [OF solvency [OF w(1)]] by (metis surj_pair)
  let ?need = "a_NeedSmt a + new - old"
  have eq: "toSerialization (a\<lparr>a_NeedSmt := ?need\<rparr>) = toSerialization (a\<lparr>a_NeedSmt := \<bar>?need\<bar>\<rparr>)"
    by (simp add: toSerialization_def BigInt_Bytes_def)
  have "I (saveAccount (toSerialization (a\<lparr>a_NeedSmt := ?need\<rparr>)) (store w))"
    unfolding eq using a by (intro saved [OF w(1) a(1)]) (auto simp: nonneg_def solvent_def)
  with w a(1) show "on_store (\<lambda>db. I db \<and> delegates_ok db) (snd (updateAccountSMT env addr old new w))"
    by (auto simp: updateAccountSMT_def GetAccountInTx_eq Let_def db_write_def bindA_def on_store_def
        split: option.split)
qed

lemma keeps_ReceiveDelegate: "keeps (on_store (\<lambda>db. I db \<and> delegates_ok db)) (ReceiveDelegate env c a)"
proof -
  have "keeps (on_store (\<lambda>db. I db \<and> delegates_ok db)) (updateDelegate env c a l x)" for l x
    by (rule keeps_updateDelegate [where rel = "\<lambda>_ _. True"]) (auto simp: other_tables)
  then show ?thesis
    unfolding ReceiveDelegate_def
    by (intro keeps_rules keeps_appendDelegatePunish keeps_appendDelegateAnnounceDispose keeps_account_update other_tables)
      (simp_all add: other_tables)
qed

end

lemma process_append [keeps_rules]:
  "keeps (on_process R) (appendDelegatePunish env k ps)" "keeps (on_process R) (appendDelegateAnnounceDispose env k ds)"
proof -
  have "keeps (on_process R) (savePunishes env k known ps)" for known
    by (induction ps) (simp_all del: returnA_app add: keeps_rules split: option.split)
  then show "keeps (on_process R) (appendDelegatePunish env k ps)"
    unfolding appendDelegatePunish_def by (intro keeps_rules)
  have "keeps (on_process R) (saveDisposes env k known ds)" for known
    by (induction ds) (simp_all del: returnA_app add: keeps_rules split: option.split)
  then show "keeps (on_process R) (appendDelegateAnnounceDispose env k ds)"
    unfolding appendDelegateAnnounceDispose_def by (intro keeps_rules)
qed

lemma process_updateDelegate [keeps_rules]: "keeps (on_process R) (updateDelegate env c a l x)"
proof -
  have "keeps (on_process R) (firstDelegate env c a l)" "keeps (on_process R) (existingDelegate env c l d)"
    "keeps (on_process R) (finishDelegate env c x d old)" for d old
    unfolding firstDelegate_def existingDelegate_def finishDelegate_def AddDelegateMonitorInTx_def by (intro keeps_rules)+
  then show ?thesis
    unfolding updateDelegate_def Let_def
    by (intro keeps_bindA process_statements)
      (auto intro!: keeps_bindA keeps_returnA simp del: returnA_app split: sum.split error.split)
qed

lemma process_ReceiveDelegate: "keeps (on_process R) (ReceiveDelegate env c a)"
  unfolding ReceiveDelegate_def GetLatestBlockNumber_def updateAccountSMT_def GetAccountInTx_def findAccount_def
  by (intro keeps_rules)

lemma VerifyDelegate_keeps [keeps_rules]:
  "keeps (on_process R) (VerifyDelegate env c a)" "keeps (on_store I) (VerifyDelegate env c a)"
  by (auto intro!: keepsI simp: VerifyDelegate_def split: option.split sum.split outcome.split)

lemma process_account_queries [keeps_rules]:
  "keeps (on_process R) (AccountGetAccount env a)" "keeps (on_process R) (AccountIsBalanceEnough env a)"
  unfolding AccountIsBalanceEnough_def AccountGetAccount_def findAccount_def
  by (intro keeps_rules keeps_accountSanity)+

text \<open>The two parts of the invariant: the database, and the chain-event loop.\<close>

definition loopOk :: "(int option \<Rightarrow> bool) \<Rightarrow> int option \<Rightarrow> goroutine list \<Rightarrow> bool" where
  "loopOk B blk gs \<longleftrightarrow> (\<forall>g \<in> set gs. delegate_ok (subject g)) \<and> (gs \<noteq> [] \<longrightarrow> blk \<noteq> None) \<and> B blk"

lemma sane_parts:
  "sane I B w \<longleftrightarrow> on_store (\<lambda>db. I db \<and> delegates_ok db) w \<and> on_process (loopOk B) w"
  by (auto simp: sane_def on_store_def on_process_def loopOk_def)

lemma keeps_sane:
  "keeps (on_store (\<lambda>db. I db \<and> delegates_ok db)) m \<Longrightarrow> keeps (on_process (loopOk B)) m \<Longrightarrow> keeps (sane I B) m"
  by (simp add: keeps_def sane_parts)

context service_invariant
begin

lemma keeps_Delegate: "keeps (sane I B) (Delegate env (Some (VerifyDelegate env)) path payload)"
  unfolding Delegate_def option.case
  by (intro keeps_sane keeps_rules keeps_ReceiveDelegate process_ReceiveDelegate)

lemma keeps_queries: "keeps (sane I B) (Fee env path)" "keeps (sane I B) (Tx env blank newAPIResponse path channel)"
  unfolding Fee_def Tx_def GetDelegateByKey_def GetDelegatePunishListByDelegateKey_def
    GetDelegateAnnounceDisposeListByDelegateKey_def
  by (intro keeps_sane keeps_rules)+

end

subsection \<open>Instances\<close>

text \<open>Solvency holds through every fault and panic; the books need statements that do not fail.\<close>

interpretation faulty: service_invariant env True accounts_ok for env
proof
  show "accounts_ok db'" if "accounts_ok db" "tAccount db' = tAccount db" for db db'
    using that by (simp add: accounts_ok_def)
  show "accounts_ok (saveAccount (toSerialization a') (store w))"
    if "accounts_ok (store w)" "AccountGetAccount env addr w = (Ret a, w')" "nonneg a'" "solvent a'" "a_Address a' = a_Address a"
    for w addr a w' a'
    using that AccountGetAccount_reads [OF that(1,2)] by (intro accounts_ok_save) auto
qed simp_all

definition calm :: "env \<Rightarrow> env" where
  "calm env = env\<lparr>env_fault := \<lambda>_. None\<rparr>"

lemma calm_no_faults [simp]: "no_faults (calm env)" "env_params (calm env) = env_params env"
  by (simp_all add: calm_def no_faults_def)

lemma calm_id: "no_faults env \<Longrightarrow> calm env = env"
  by (cases env) (auto simp: calm_def no_faults_def fun_eq_iff)

lemma ledger_save:
  assumes "ledger db" "nonneg a" "solvent a" "a_Address a = word_bytes addr"
    "a_TotalReceivedSmt a = a_TotalReceivedSmt (accountOf addr db)"
  shows "ledger (saveAccount (toSerialization a) db)"
  using assms accounts_ok_save [of db a] accountOf_save [OF assms(2,4), of _ db]
  by (auto simp: ledger_def transfers_ok_def) (simp_all add: saveAccount_def)

interpretation booked: service_invariant "calm env" False ledger for env
proof
  show "ledger db'" if "ledger db" "tAccount db' = tAccount db" "tTransfer db' = tTransfer db" for db db'
    using that by (simp add: ledger_def accounts_ok_def transfers_ok_def accountOf_def)
  show "ledger (saveAccount (toSerialization a') (store w))"
    if "ledger (store w)" "AccountGetAccount (calm env) addr w = (Ret a, w')" "nonneg a'" "solvent a'" "a_Address a' = a_Address a"
      "a_TotalReceivedSmt a' = a_TotalReceivedSmt a" for w addr a w' a'
    using that by (intro ledger_save [where addr = addr]) (auto simp: ledger_def)
qed (simp_all add: ledger_def)

end
