(* ===== verification/PM_Start.thy ===== *)
theory PM_Start
  imports PM_Events PM_Rest
begin

text \<open>
  Start-up and the two loops of the process: \<open>mainCtx\<close> of \<open>cmd/photonmonitoring/main.go\<close>, \<open>NewChainEvents\<close>, \<open>Start\<close> and
  \<open>loop\<close> of \<open>chainservice/events.go\<close>, and \<open>loop\<close> of \<open>smt/listeningsmt.go\<close>.

  A \<open>select\<close> is the list of what its channels deliver, in the order in which the loop receives it; at the end of the list the
  loop waits.  What connects to the node and opens the file is given by its results.
\<close>

subsection \<open>A new process\<close>

text \<open>What survives a process: the database, the transactions the node has, and the count of the calls so far.\<close>

definition restart :: "world \<Rightarrow> world" where
  "restart w = w\<lparr>ce_blockNumber := None, goroutines := []\<rparr>"

text \<open>The three arguments are the errors of \<open>NewBlockChainService\<close>, \<open>Registry\<close> and \<open>NewSecretRegistry\<close>.\<close>

definition NewChainEvents :: "string option \<Rightarrow> string option \<Rightarrow> string option \<Rightarrow> world \<Rightarrow> world outcome" where
  "NewChainEvents service registry secretRegistry w =
     (case service of Some err \<Rightarrow> Panic err | None \<Rightarrow>
      case registry of Some _ \<Rightarrow> Panic ''startup error : cannot get registry'' | None \<Rightarrow>
      case secretRegistry of Some _ \<Rightarrow> Panic ''startup error : cannot get secret registry'' | None \<Rightarrow>
      Ret (restart w))"

text \<open>\<open>Start\<close> passes the last block to the event source; the result is the block the source begins with.\<close>

definition ce_Start :: "env \<Rightarrow> int action" where
  "ce_Start env = GetLatestBlockNumber env"

datatype startup =
    Exit int
  | Crash string
  | Serving int world query bool int

text \<open>
  When gorm cannot open the file, \<open>OpenDb\<close> logs it with \<open>log.Crit\<close>, which ends the process with code 1: its error, for which
  \<open>mainCtx\<close> has the code 2, is never returned.  \<open>Start\<close> returns no error.
\<close>

definition mainCtx ::
    "env \<Rightarrow> params option \<Rightarrow> string \<Rightarrow> string option \<Rightarrow> string + int \<Rightarrow> string + modeldb \<Rightarrow>
     string option \<Rightarrow> string option \<Rightarrow> string option \<Rightarrow> world \<Rightarrow> startup" where
  "mainCtx env cfg url client networkID opened service registry secretRegistry w =
     (case cfg of None \<Rightarrow> Exit 1 | Some p \<Rightarrow>
      case client of Some _ \<Rightarrow> Exit 1 | None \<Rightarrow>
      case networkID of Inl _ \<Rightarrow> Exit 1 | Inr chainID \<Rightarrow>
      case opened of Inl _ \<Rightarrow> Exit 1 | Inr db \<Rightarrow>
      let sq = NewSmtQuery url 0 in
      case NewChainEvents service registry secretRegistry (w\<lparr>store := db\<rparr>) of Panic msg \<Rightarrow> Crash msg | Ret ce \<Rightarrow>
      case ce_Start env ce of (Panic msg, _) \<Rightarrow> Crash msg | (Ret start, ce) \<Rightarrow>
      Serving chainID ce sq (startsSmtQuery p) start)"

subsection \<open>Loops\<close>

datatype signal =
    StateChange stateChange
  | ChannelClosed
  | QuitSignal

fun ce_loop :: "env \<Rightarrow> signal list \<Rightarrow> unit action" where
  "ce_loop env [] = returnA ()"
| "ce_loop env (StateChange st # ss) = bindA (handleStateChange env st) (\<lambda>_. ce_loop env ss)"
| "ce_loop env (ChannelClosed # ss) = returnA ()"
| "ce_loop env (QuitSignal # ss) = returnA ()"

text \<open>The timer fires, with what the node would answer to the request that follows; or the query is stopped.\<close>

datatype timerSignal =
    Timer "string \<Rightarrow> smtResponse"
  | SmtQuit

fun smt_loop :: "env \<Rightarrow> timerSignal list \<Rightarrow> query \<Rightarrow> query action" where
  "smt_loop env [] s = returnA s"
| "smt_loop env (Timer httpGet # ts) s = bindA (getNewTransfer env httpGet s) (smt_loop env ts)"
| "smt_loop env (SmtQuit # ts) s = returnA s"

subsection \<open>Properties\<close>

lemma Serving_iff:
  "mainCtx env cfg url client networkID opened service registry secretRegistry w = Serving chainID ce sq polls start \<longleftrightarrow>
     (\<exists>p db. cfg = Some p \<and> client = None \<and> networkID = Inr chainID \<and> opened = Inr db \<and>
        service = None \<and> registry = None \<and> secretRegistry = None \<and>
        ce = tick (restart (w\<lparr>store := db\<rparr>)) \<and> sq = NewSmtQuery url 0 \<and> polls = startsSmtQuery p \<and> start = 0)"
  by (auto simp: mainCtx_def ce_Start_def NewChainEvents_def Let_def split: option.splits sum.splits)

text \<open>
  The process serves exactly when the configuration is accepted and the node, the network id, the database and the three
  contracts are available; it then works on the stored database with no block handled and no goroutine, polls for payments from block 0
  only when the update, punish or unlock fee is positive, and, whatever last block is stored, reads the chain from block 0.
\<close>
lemma start_up_state:
  "mainCtx env (config smtAddr unlockStr punishStr updateStr secretStr url debug) url client networkID opened
      service registry secretRegistry w = Serving chainID ce sq polls start \<longleftrightarrow>
     (\<exists>p db. config smtAddr unlockStr punishStr updateStr secretStr url debug = Some p \<and> client = None \<and> networkID = Inr chainID \<and>
        opened = Inr db \<and> service = None \<and> registry = None \<and> secretRegistry = None \<and>
        ce = tick (restart (w\<lparr>store := db\<rparr>)) \<and> sq = NewSmtQuery url 0 \<and> start = 0 \<and>
        polls = (0 < SmtUpdateTransfer p \<or> 0 < SmtPunish p \<or> 0 < SmtUnlock p))"
  unfolding Serving_iff startsSmtQuery_def by blast

end
