(* ===== verification/PM_System.thy ===== *)
theory PM_System
  imports PM_Safety PM_Start
begin

text \<open>
  The running service as a transition system: chain events, goroutines run in any order, requests, queries, polls
  and crashes, over a database that survives them.  Goroutines, requests and polls are atomic steps here.
  The invariants of \<open>PM_Safety\<close> give what holds in every reachable state.
\<close>

subsection \<open>Polling\<close>

definition answersProperly :: "(string \<Rightarrow> smtResponse) \<Rightarrow> bool" where
  "answersProperly httpGet \<longleftrightarrow> (\<forall>url trs. httpGet url = Transfers trs \<longrightarrow> (\<forall>p \<in> set trs. proper p))"

lemma process_getNewTransfer: "keeps (on_process R) (getNewTransfer env httpGet q)"
proof -
  have "keeps (on_process R) (AccountAddSmt env a n)" for a n
    unfolding AccountAddSmt_def findAccount_def
    by (intro keeps_bindA keeps_rules keeps_accountSanity)
      (auto intro!: keeps_rules simp del: returnA_app split: sum.split error.split)
  then have "keeps (on_process R) (receiveTransfer env p mx)" for p mx
    unfolding receiveTransfer_def NewReceiveTransferFromReceiveTransfer_def GetReceivedTransfer_def
    by (intro keeps_rules)
  then show ?thesis
    unfolding getNewTransfer_def Let_def
    by (auto intro!: keeps_rules simp del: returnA_app split: smtResponse.split)
qed

text \<open>A poll loop keeps a predicate on the database that each of its transfers keeps.\<close>

lemma keeps_getNewTransfer:
  assumes "answersProperly httpGet"
    and "\<And>tr mx. proper (Some tr) \<Longrightarrow> keeps (on_store K) (receiveTransfer env (Some tr) mx)"
  shows "keeps (on_store K) (getNewTransfer env httpGet q)"
proof -
  have "keeps (on_store K) (foldA (receiveTransfer env) trs mx)" if "httpGet url = Transfers trs" for url trs mx
  proof (intro keeps_foldA)
    fix p acc assume "p \<in> set trs"
    with that assms(1) have "proper p" by (auto simp: answersProperly_def)
    with assms(2) show "keeps (on_store K) (receiveTransfer env p acc)" by (cases p) (auto simp: proper_def)
  qed
  then show ?thesis
    unfolding getNewTransfer_def Let_def
    by (auto intro!: keeps_bindA keeps_returnA simp del: returnA_app split: smtResponse.split)
qed

lemma delegates_ok_accounts:
  assumes "db'\<lparr>tAccount := []\<rparr> = db\<lparr>tAccount := []\<rparr>"
  shows "delegates_ok db' = delegates_ok db"
  using arg_cong [OF assms, of tDelegate] by (simp add: delegates_ok_def)

lemma saveTransfer_oks [simp]:
  "delegates_ok (saveTransfer tr db) = delegates_ok db" "accounts_ok (saveTransfer tr db) = accounts_ok db"
  by (simp_all add: delegates_ok_def accounts_ok_def saveTransfer_def)

lemma keeps_deposit:
  assumes "no_faults env" "0 \<le> n"
  shows "keeps (on_store (\<lambda>db. accounts_ok db \<and> delegates_ok db)) (AccountAddSmt env a n)"
proof (rule keepsI)
  fix w assume "on_store (\<lambda>db. accounts_ok db \<and> delegates_ok db) w"
  then have w: "accounts_ok (store w)" "delegates_ok (store w)" by (simp_all add: on_store_def)
  obtain w' where "AccountAddSmt env a n w = (Ret (), w')" "accounts_ok (store w')"
      "(store w')\<lparr>tAccount := []\<rparr> = (store w)\<lparr>tAccount := []\<rparr>"
    using AccountAddSmt_ok [OF assms(1) w(1) assms(2), of a] by blast
  with w(2) delegates_ok_accounts [of "store w'" "store w"]
  show "on_store (\<lambda>db. accounts_ok db \<and> delegates_ok db) (snd (AccountAddSmt env a n w))"
    by (simp add: on_store_def)
qed

lemma keeps_receiveTransfer:
  assumes "no_faults env" "proper (Some tr)"
  shows "keeps (on_store (\<lambda>db. accounts_ok db \<and> delegates_ok db)) (receiveTransfer env (Some tr) mx)"
proof -
  have n: "0 \<le> rt_Amount tr" using assms(2) by (simp add: proper_def)
  show ?thesis
    unfolding receiveTransfer_def option.case
    by (intro keeps_bindA keeps_if keeps_returnA keeps_deposit [OF assms(1) n] keeps_NewReceiveTransferFromReceiveTransfer) simp
qed

lemma keeps_poll_solvent:
  assumes "no_faults env" "answersProperly httpGet"
  shows "keeps (on_store (\<lambda>db. accounts_ok db \<and> delegates_ok db)) (getNewTransfer env httpGet q)"
  by (intro keeps_getNewTransfer keeps_receiveTransfer assms)

lemma receiveTransfer_ledger:
  assumes "no_faults env" "ledger (store w)" "proper (Some tr)"
  shows "\<exists>mx' w'. receiveTransfer env (Some tr) mx w = (Ret mx', w') \<and> ledger (store w')"
proof -
  have tr: "rt_Key tr \<noteq> []" "0 \<le> rt_Amount tr" "transfers_ok (store w)"
    using assms(2,3) by (auto simp: proper_def ledger_def)
  show ?thesis
  proof (cases "pays env tr \<and> transferBy (rt_Key tr) (store w) = None")
    case True
    then show ?thesis using receiveTransfer_new [OF assms(1,2) tr(1,2)] by blast
  next
    case False
    then obtain n where "receiveTransfer env (Some tr) mx w = (Ret (max mx (rt_BlockNumber tr)), w\<lparr>clock := n\<rparr>)"
      using receiveTransfer_known [OF assms(1) tr(3,1), where mx = mx] by auto
    then show ?thesis using assms(2) by simp
  qed
qed

lemma keeps_poll_ledger:
  assumes "no_faults env" "answersProperly httpGet"
  shows "keeps (on_store (\<lambda>db. ledger db \<and> delegates_ok db)) (getNewTransfer env httpGet q)"
proof (rule keeps_getNewTransfer [OF assms(2)])
  fix tr mx assume tr: "proper (Some tr)"
  note sol = keeps_receiveTransfer [OF assms(1) tr]
  show "keeps (on_store (\<lambda>db. ledger db \<and> delegates_ok db)) (receiveTransfer env (Some tr) mx)"
  proof (rule keepsI)
    fix w assume "on_store (\<lambda>db. ledger db \<and> delegates_ok db) w"
    then have w: "ledger (store w)" "on_store (\<lambda>db. accounts_ok db \<and> delegates_ok db) w"
      by (simp_all add: on_store_def ledger_def)
    from receiveTransfer_ledger [OF assms(1) w(1) tr, of mx] keepsD [OF sol w(2)]
    show "on_store (\<lambda>db. ledger db \<and> delegates_ok db) (snd (receiveTransfer env (Some tr) mx w))"
      by (auto simp: on_store_def)
  qed
qed

lemma poll_returns:
  assumes "no_faults env" "ledger (store w)" "answersProperly httpGet"
  shows "\<exists>q' w'. getNewTransfer env httpGet q w = (Ret q', w')"
proof (cases "httpGet (q_url q @ ''?from_block='' @ BigInt_String (q_from q))")
  case (Transfers trs)
  with assms(3) have "\<forall>p \<in> set trs. proper p" by (auto simp: answersProperly_def)
  with receiveTransfers [OF assms(1) _ assms(2), of trs 0] obtain mx w' where
    "foldA (receiveTransfer env) trs 0 w = (Ret mx, w')" by blast
  then show ?thesis using Transfers by (simp add: getNewTransfer_def)
qed (simp_all add: getNewTransfer_def)

subsection \<open>The running service\<close>

text \<open>
  A panic in the chain-event loop, in a goroutine or in the polling ends the process; the next start
  opens the same database, with no block number, no goroutine and a query from block 0
  (\<open>restart\<close> and \<open>mainCtx\<close> of \<open>PM_Start\<close>).  A panic in a request is caught by the HTTP server.
\<close>

definition survives :: "'a outcome \<Rightarrow> world \<Rightarrow> world" where
  "survives r w = (case r of Ret _ \<Rightarrow> w | Panic _ \<Rightarrow> restart w)"

text \<open>The goroutine with index \<open>i\<close> runs; the others stay started.\<close>

definition runNth :: "env \<Rightarrow> nat \<Rightarrow> unit action" where
  "runNth env i w =
     runGoroutine env (goroutines w ! i) (w\<lparr>goroutines := take i (goroutines w) @ drop (Suc i) (goroutines w)\<rparr>)"

text \<open>What happens without a posted request: an event, a goroutine, a query, a poll, or the end of the process.\<close>

inductive own_step :: "env \<Rightarrow> env \<Rightarrow> world \<times> query \<Rightarrow> world \<times> query \<Rightarrow> bool" for env penv where
  chain_event: "handleStateChange env st w = (r, w') \<Longrightarrow> (\<And>n. st = BlockStateChange n \<Longrightarrow> blockOk (Some n)) \<Longrightarrow>
     own_step env penv (w, q) (survives r w', q)"
| goroutine: "i < length (goroutines w) \<Longrightarrow> runNth env i w = (r, w') \<Longrightarrow>
     own_step env penv (w, q) (survives r w', q)"
| fee_query: "Fee env path w = (r, w') \<Longrightarrow> own_step env penv (w, q) (w', q)"
| tx_query: "Tx env () newAPIResponse path channel w = (r, w') \<Longrightarrow> own_step env penv (w, q) (w', q)"
| poll: "getNewTransfer penv httpGet q w = (r, w') \<Longrightarrow> answersProperly httpGet \<Longrightarrow>
     own_step env penv (w, q)
       (survives r w', case r of Ret q' \<Rightarrow> q' | Panic _ \<Rightarrow> NewSmtQuery (q_url q) 0)"
| crash: "own_step env penv (w, q) (restart w, NewSmtQuery (q_url q) 0)"

inductive service_step :: "env \<Rightarrow> env \<Rightarrow> world \<times> query \<Rightarrow> world \<times> query \<Rightarrow> bool" for env penv where
  own: "own_step env penv s s' \<Longrightarrow> service_step env penv s s'"
| request: "Delegate env (Some (VerifyDelegate env)) path payload w = (r, w') \<Longrightarrow>
     service_step env penv (w, q) (w', q)"

inductive service_reachable :: "env \<Rightarrow> env \<Rightarrow> world \<times> query \<Rightarrow> bool" for env penv where
  start: "store w = emptyDb \<Longrightarrow> ce_blockNumber w = None \<Longrightarrow> goroutines w = [] \<Longrightarrow> txs w = [] \<Longrightarrow>
     service_reachable env penv (w, NewSmtQuery url 0)"
| step: "service_reachable env penv s \<Longrightarrow> service_step env penv s s' \<Longrightarrow> service_reachable env penv s'"

text \<open>
  The same states with their history: the list of all requests that were ever posted, each with the path that names its delegator.
\<close>

type_synonym post = "string \<times> (string + channelFor3rd)"

inductive service_history :: "env \<Rightarrow> env \<Rightarrow> post list \<Rightarrow> world \<times> query \<Rightarrow> bool" for env penv where
  start: "store w = emptyDb \<Longrightarrow> ce_blockNumber w = None \<Longrightarrow> goroutines w = [] \<Longrightarrow> txs w = [] \<Longrightarrow>
     service_history env penv [] (w, NewSmtQuery url 0)"
| own: "service_history env penv h s \<Longrightarrow> own_step env penv s s' \<Longrightarrow> service_history env penv h s'"
| request: "service_history env penv h (w, q) \<Longrightarrow> Delegate env (Some (VerifyDelegate env)) path payload w = (r, w') \<Longrightarrow>
     service_history env penv (h @ [(path, payload)]) (w', q)"

lemma reachable_with_history: "service_reachable env penv s \<longleftrightarrow> (\<exists>h. service_history env penv h s)"
proof
  show "\<exists>h. service_history env penv h s" if "service_reachable env penv s"
    using that
  proof (induction rule: service_reachable.induct)
    case (step s s')
    from step(2,3) show ?case by (cases rule: service_step.cases) (blast intro: service_history.own service_history.request)+
  qed (blast intro: service_history.start)
  show "service_reachable env penv s" if some: "\<exists>h. service_history env penv h s"
  proof -
    obtain h where "service_history env penv h s" using some by blast
    then show ?thesis
      by (induction rule: service_history.induct)
        (blast intro: service_reachable.start service_reachable.step service_step.own service_step.request)+
  qed
qed

lemmas step_chain_event = service_step.own [OF own_step.chain_event]
lemmas step_goroutine = service_step.own [OF own_step.goroutine]
lemmas step_poll = service_step.own [OF own_step.poll]
lemmas step_crash = service_step.own [OF own_step.crash]

inductive_cases own_stepE: "own_step env penv (w, q) (w', q')"

lemmas own_step_cases =
  own_stepE [consumes 1, case_names chain_event goroutine fee_query tx_query poll crash]

inductive_cases service_stepE: "service_step env penv (w, q) (w', q')"

lemmas service_step_cases = service_stepE [consumes 1, case_names own request]

lemma sane_restart: "sane I B w \<Longrightarrow> B None \<Longrightarrow> sane I B (restart w)"
  by (simp add: sane_def restart_def)

lemma blockOk_None [simp]: "blockOk None"
  by (simp add: blockOk_def)

lemma sane_survives: "sane I blockOk w \<Longrightarrow> sane I blockOk (survives r w)"
  by (simp add: survives_def sane_restart split: outcome.split)

context service_invariant
begin

lemma runNth_sane:
  assumes "fees_ok (env_params env)" "sane I blockOk w" "i < length (goroutines w)"
  shows "sane I blockOk (snd (runNth env i w)) \<and> (case fst (runNth env i w) of Ret x \<Rightarrow> True | Panic _ \<Rightarrow> b)"
proof -
  let ?B = "\<lambda>blk. blockOk blk \<and> blk \<noteq> None"
  let ?w = "w\<lparr>goroutines := take i (goroutines w) @ drop (Suc i) (goroutines w)\<rparr>"
  have g: "goroutines w ! i \<in> set (goroutines w)" using assms(3) by simp
  have rest: "set (take i (goroutines w) @ drop (Suc i) (goroutines w)) \<subseteq> set (goroutines w)"
    using set_take_subset [of i "goroutines w"] set_drop_subset [of "Suc i" "goroutines w"] by auto
  have "ce_blockNumber w \<noteq> None" using assms(2,3) by (auto simp: sane_def)
  then have w: "sane I ?B ?w" using assms(2) rest by (auto simp: sane_def)
  have "delegate_ok (subject (goroutines w ! i))" using assms(2) g by (auto simp: sane_def)
  from safeD [OF secure_runGoroutine [where B = ?B, OF assms(1) _ this] w] show ?thesis
    by (auto simp: runNth_def sane_def)
qed

lemma step_sane:
  assumes fees: "fees_ok (env_params env)" and step: "service_step env penv (w, q) (w', q')" and w: "sane I blockOk w"
    and poll: "\<And>httpGet q. answersProperly httpGet \<Longrightarrow> keeps (sane I blockOk) (getNewTransfer penv httpGet q)"
  shows "sane I blockOk w'"
  using step
proof (cases rule: service_step_cases)
  case own
  then show ?thesis
  proof (cases rule: own_step_cases)
    case (chain_event st r w1)
    then show ?thesis
      using safeD [OF secure_handleStateChange [OF fees, of st] w] by (auto intro: sane_survives)
  next
    case (goroutine i r w1)
    then show ?thesis using runNth_sane [OF fees w, of i] by (auto intro: sane_survives)
  next
    case (fee_query path r)
    then show ?thesis using keepsD [OF keeps_queries(1) w] by (metis snd_conv)
  next
    case (tx_query newAPIResponse path channel r)
    then show ?thesis using keepsD [OF keeps_queries(2) w] by (metis snd_conv)
  next
    case (poll httpGet r w1)
    then show ?thesis using keepsD [OF assms(4) w] by (metis sane_survives snd_conv)
  next
    case crash
    then show ?thesis using w by (auto intro: sane_restart)
  qed
next
  case (request path payload r)
  then show ?thesis using keepsD [OF keeps_Delegate w] by (metis snd_conv)
qed

lemma reachable_sane:
  assumes fees: "fees_ok (env_params env)" and init: "I emptyDb"
    and poll: "\<And>httpGet q. answersProperly httpGet \<Longrightarrow> keeps (sane I blockOk) (getNewTransfer penv httpGet q)"
    and reach: "service_reachable env penv s"
  shows "sane I blockOk (fst s)"
  using reach
proof (induction rule: service_reachable.induct)
  case (start w url)
  then show ?case using init by (simp add: sane_def) (simp add: emptyDb_def delegates_ok_def)
next
  case (step s s')
  then show ?case using step_sane [OF fees _ _ poll] by (cases s; cases s') auto
qed

end

lemma OpenDb_oks: "accounts_ok emptyDb" "ledger emptyDb"
  using ledger_fresh by (simp_all add: freshWorld_def) (simp add: ledger_def)

lemma reachable_faulty:
  assumes "fees_ok (env_params env)" "no_faults penv" "service_reachable env penv s"
  shows "sane accounts_ok blockOk (fst s)"
  using faulty.reachable_sane [OF assms(1) OpenDb_oks(1) _ assms(3)]
    keeps_sane [OF keeps_poll_solvent [OF assms(2)] process_getNewTransfer] by blast

lemma reachable_booked:
  assumes "fees_ok (env_params env)" "no_faults env" "service_reachable env env s"
  shows "sane ledger blockOk (fst s)"
  using booked.reachable_sane [where env = env, unfolded calm_id [OF assms(2)], OF assms(1) OpenDb_oks(2) _ assms(3)]
    keeps_sane [OF keeps_poll_ledger [OF assms(2)] process_getNewTransfer] by blast

text \<open>When no statement fails, nothing that runs in a reachable state crashes.\<close>

lemma returns:
  assumes "fees_ok (env_params env)" "no_faults env" "service_reachable env env (w, q)"
  shows "(\<And>n. st = BlockStateChange n \<Longrightarrow> blockOk (Some n)) \<Longrightarrow> \<exists>w'. handleStateChange env st w = (Ret (), w')"
    "i < length (goroutines w) \<Longrightarrow> \<exists>w'. runNth env i w = (Ret (), w')"
    "answersProperly httpGet \<Longrightarrow> \<exists>q' w'. getNewTransfer env httpGet q w = (Ret q', w')"
proof -
  note ok = reachable_booked [OF assms, simplified]
  note inv = calm_id [OF assms(2)]
  show "\<exists>w'. handleStateChange env st w = (Ret (), w')" if "\<And>n. st = BlockStateChange n \<Longrightarrow> blockOk (Some n)"
    using safe_returns [OF booked.secure_handleStateChange [where env = env, unfolded inv, OF assms(1)] ok, of st] that
    by auto
  show "\<exists>w'. runNth env i w = (Ret (), w')" if "i < length (goroutines w)"
    using booked.runNth_sane [where env = env, unfolded inv, OF assms(1) ok that]
    by (cases "runNth env i w") (auto split: outcome.splits)
  show "\<exists>q' w'. getNewTransfer env httpGet q w = (Ret q', w')" if "answersProperly httpGet"
    using poll_returns [OF assms(2) _ that] ok by (simp add: sane_def)
qed

lemma ce_loop_runs:
  assumes "fees_ok (env_params env)" "no_faults env" "service_reachable env env (w, q)" "\<forall>n. BlockStateChange n \<in> set sts \<longrightarrow> blockOk (Some n)"
  shows "\<exists>w'. foreachA (handleStateChange env) sts w = (Ret (), w') \<and>
     ce_loop env (map StateChange sts @ ss) w = ce_loop env ss w' \<and> service_reachable env env (w', q)"
  using assms(3,4)
proof (induction sts arbitrary: w)
  case (Cons st sts)
  have blk: "\<And>n. st = BlockStateChange n \<Longrightarrow> blockOk (Some n)" using Cons.prems(2) by auto
  obtain w1 where w1: "handleStateChange env st w = (Ret (), w1)"
    using returns(1) [OF assms(1,2) Cons.prems(1)] blk by blast
  have "service_reachable env env (w1, q)"
    using service_reachable.step [OF Cons.prems(1) step_chain_event [OF w1 blk]] by (simp add: survives_def)
  with Cons.IH [OF this] Cons.prems(2) w1 show ?case by simp
qed auto

lemma smt_loop_runs:
  assumes "fees_ok (env_params env)" "no_faults env" "service_reachable env env (w, q)" "\<forall>httpGet \<in> set gets. answersProperly httpGet"
  shows "\<exists>q' w'. foldA (getNewTransfer env) gets q w = (Ret q', w') \<and>
     smt_loop env (map Timer gets @ ts) q w = smt_loop env ts q' w' \<and> service_reachable env env (w', q')"
  using assms(3,4)
proof (induction gets arbitrary: w q)
  case (Cons get gets)
  have proper: "answersProperly get" using Cons.prems(2) by simp
  obtain q1 w1 where w1: "getNewTransfer env get q w = (Ret q1, w1)"
    using returns(3) [OF assms(1,2) Cons.prems(1) proper] by blast
  have "service_reachable env env (w1, q1)"
    using service_reachable.step [OF Cons.prems(1) step_poll [OF w1 proper]] by (simp add: survives_def)
  with Cons.IH [OF this] Cons.prems(2) w1 show ?case by simp
qed auto

subsection \<open>Properties\<close>

text \<open>
  C4. In every state the service reaches, no account is overdrawn: what was used and what is locked never exceed what was
  received.  This holds for every sequence of chain events, goroutines, requests, polls and crashes, in any order, and whatever
  statement of an event, a goroutine or a request fails; only polls are taken to run undisturbed and to
  be answered with transfers that have a key and a non-negative amount.
\<close>
theorem service_stays_solvent:
  assumes "fees_ok (env_params env)" "no_faults penv" "service_reachable env penv (w, q)"
  shows "a_UsedSmt (accountOf addr (store w)) + a_LockedSmt (accountOf addr (store w)) \<le> a_TotalReceivedSmt (accountOf addr (store w))"
  using reachable_faulty [OF assms] accountOf_solvent [of "store w" addr]
  by (simp add: sane_def solvent_def)

text \<open>
  C6. When no statement fails, the books are right in every state the service reaches: the total of each account is the sum of
  the recorded transfers from its address, and nobody is charged more than he paid.
\<close>
theorem service_books_balance:
  assumes "fees_ok (env_params env)" "no_faults env" "service_reachable env env (w, q)"
  shows "a_TotalReceivedSmt (accountOf addr (store w)) = receivedFrom addr (tTransfer (store w)) \<and>
     a_UsedSmt (accountOf addr (store w)) + a_LockedSmt (accountOf addr (store w)) \<le> receivedFrom addr (tTransfer (store w))"
proof -
  have "ledger (store w)" using reachable_booked [OF assms] by (simp add: sane_def)
  then show ?thesis using accountOf_solvent [of "store w" addr] by (simp add: ledger_def solvent_def)
qed

text \<open>
  C8. When no statement fails, the process does not crash: in every state the service reaches, the handler of every chain event
  returns, every started goroutine returns when it is run, whichever is run first, and every poll that is answered with proper
  transfers returns.
\<close>
theorem service_does_not_crash:
  assumes "fees_ok (env_params env)" "no_faults env" "service_reachable env env (w, q)"
  shows "((\<forall>n. st = BlockStateChange n \<longrightarrow> 0 \<le> n \<and> in_int64 n) \<longrightarrow> (\<exists>w'. handleStateChange env st w = (Ret (), w'))) \<and>
     (\<forall>i < length (goroutines w). \<exists>w'. runNth env i w = (Ret (), w')) \<and>
     (answersProperly httpGet \<longrightarrow> (\<exists>q' w'. getNewTransfer env httpGet q w = (Ret q', w')))"
  using returns(1) [OF assms, of st] returns(2,3) [OF assms] by (auto simp: blockOk_def)

text \<open>
  C24. The two loops serve to the end, when no statement fails, fees and notified block numbers are not negative and answers to polls are proper: from
  every state the service reaches, the chain-event loop
  returns at the quit signal, and what it has done is exactly to run the handler of every event that its channel delivered, each once, in
  their order, and each to its end; the polling loop returns when it is stopped, and what it has done is exactly to make every poll whose turn
  came, each with the query the one before has left.  What they leave is again a state the service reaches.
\<close>
theorem loops_serve_to_the_end:
  assumes "fees_ok (env_params env)" "no_faults env" "service_reachable env env (w, q)"
    "\<forall>n. BlockStateChange n \<in> set sts \<longrightarrow> 0 \<le> n \<and> in_int64 n" "\<forall>httpGet \<in> set gets. answersProperly httpGet"
  shows "\<exists>w1 q2 w2. foreachA (handleStateChange env) sts w = (Ret (), w1) \<and>
     ce_loop env (map StateChange sts @ [QuitSignal]) w = (Ret (), w1) \<and> service_reachable env env (w1, q) \<and>
     foldA (getNewTransfer env) gets q w1 = (Ret q2, w2) \<and>
     smt_loop env (map Timer gets @ [SmtQuit]) q w1 = (Ret q2, w2) \<and> service_reachable env env (w2, q2)"
proof -
  have blk: "\<forall>n. BlockStateChange n \<in> set sts \<longrightarrow> blockOk (Some n)" using assms(4) by (simp add: blockOk_def)
  obtain w1 where w1: "foreachA (handleStateChange env) sts w = (Ret (), w1)"
      "ce_loop env (map StateChange sts @ [QuitSignal]) w = (Ret (), w1)" "service_reachable env env (w1, q)"
    using ce_loop_runs [OF assms(1-3) blk, of "[QuitSignal]"] by auto
  obtain q2 w2 where "foldA (getNewTransfer env) gets q w1 = (Ret q2, w2)"
      "smt_loop env (map Timer gets @ [SmtQuit]) q w1 = (Ret q2, w2)" "service_reachable env env (w2, q2)"
    using smt_loop_runs [OF assms(1,2) w1(3) assms(5), of "[SmtQuit]"] by auto
  with w1 show ?thesis by blast
qed

subsection \<open>Concrete applications\<close>

text \<open>The service after its first poll, which recorded the two payments of \<open>smtNode\<close>.\<close>

lemma polled_state:
  obtains w q where "service_reachable quietEnv quietEnv (w, q)" "tTransfer (store w) \<noteq> []" "goroutines w = []"
proof -
  let ?q = "NewSmtQuery ''http://node'' 0"
  let ?trs = "[Some (sampleTransfer 12 ''k1''), Some (sampleTransfer 15 ''k2''), Some (sampleTransfer 12 ''k1'')]"
  have trs: "\<forall>p \<in> set ?trs. proper p" using smtNode_proper by (simp add: smtNode_def)
  obtain mx w where run: "foldA (receiveTransfer quietEnv) ?trs 0 freshWorld = (Ret mx, w)"
      "\<forall>tr. Some tr \<in> set ?trs \<and> pays quietEnv tr \<longrightarrow> transferBy (rt_Key tr) (store w) \<noteq> None"
    using receiveTransfers [OF no_faults_quietEnv trs ledger_fresh, of 0] by blast
  have "pays quietEnv (sampleTransfer 12 ''k1'')" by simp
  then have "tTransfer (store w) \<noteq> []" using run(2) by auto
  moreover obtain q where poll: "getNewTransfer quietEnv smtNode ?q freshWorld = (Ret q, w)"
    using run(1) by (simp add: getNewTransfer_def smtNode_def NewSmtQuery_def)
  moreover have "goroutines w = []"
    using keepsD [OF process_getNewTransfer, of "\<lambda>blk gs. gs = []" freshWorld quietEnv smtNode ?q] poll
    by (simp add: on_process_def freshWorld_def)
  moreover have "service_reachable quietEnv quietEnv (freshWorld, ?q)"
    by (rule service_reachable.start) (simp_all add: freshWorld_def)
  moreover have "answersProperly smtNode" using trs by (simp add: answersProperly_def smtNode_def)
  ultimately show ?thesis
    using that step_poll [OF poll] service_reachable.step by (fastforce simp: survives_def)
qed

theorem service_stays_solvent_witness:
  "\<exists>w q. service_reachable quietEnv quietEnv (w, q) \<and> tTransfer (store w) \<noteq> [] \<and>
     a_UsedSmt (accountOf 7 (store w)) + a_LockedSmt (accountOf 7 (store w)) \<le> a_TotalReceivedSmt (accountOf 7 (store w))"
proof -
  obtain w q where r: "service_reachable quietEnv quietEnv (w, q)" "tTransfer (store w) \<noteq> []" by (rule polled_state)
  with service_stays_solvent [OF fees_ok_quietEnv(1) no_faults_quietEnv r(1), of 7] show ?thesis by blast
qed

theorem service_books_balance_witness:
  "\<exists>w q. service_reachable quietEnv quietEnv (w, q) \<and> tTransfer (store w) \<noteq> [] \<and>
     a_TotalReceivedSmt (accountOf 7 (store w)) = receivedFrom 7 (tTransfer (store w))"
proof -
  obtain w q where r: "service_reachable quietEnv quietEnv (w, q)" "tTransfer (store w) \<noteq> []" by (rule polled_state)
  with service_books_balance [OF fees_ok_quietEnv(1) no_faults_quietEnv r(1), of 7] show ?thesis by blast
qed

theorem service_does_not_crash_witness:
  "\<exists>w q w'. service_reachable quietEnv quietEnv (w, q) \<and> tTransfer (store w) \<noteq> [] \<and>
     handleStateChange quietEnv (BlockStateChange 5) w = (Ret (), w')"
proof -
  obtain w q where r: "service_reachable quietEnv quietEnv (w, q)" "tTransfer (store w) \<noteq> []" by (rule polled_state)
  with service_does_not_crash [OF fees_ok_quietEnv(1) no_faults_quietEnv r(1), of "BlockStateChange 5" smtNode]
  show ?thesis by (auto simp: in_int64_def)
qed

theorem loops_serve_to_the_end_witness:
  "\<exists>w q w1 q2 w2. service_reachable quietEnv quietEnv (w, q) \<and> tTransfer (store w) \<noteq> [] \<and>
     ce_loop quietEnv [StateChange (BlockStateChange 5), StateChange (BlockStateChange 9), QuitSignal] w = (Ret (), w1) \<and>
     smt_loop quietEnv [Timer smtNode, Timer smtNode, SmtQuit] q w1 = (Ret q2, w2)"
proof -
  obtain w q where r: "service_reachable quietEnv quietEnv (w, q)" "tTransfer (store w) \<noteq> []" by (rule polled_state)
  have "answersProperly smtNode" using smtNode_proper by (simp add: answersProperly_def smtNode_def)
  with loops_serve_to_the_end [OF fees_ok_quietEnv(1) no_faults_quietEnv r(1), of "[BlockStateChange 5, BlockStateChange 9]" "[smtNode, smtNode]"] r
  show ?thesis by (simp add: in_int64_def del: ce_loop.simps smt_loop.simps) blast
qed

end
