(* ===== verification/PM_Liveness.thy ===== *)
theory PM_Liveness
  imports PM_System
begin

text \<open>
  The service does what is due: a delegation whose time has come is started by the next block notification, also when
  its block was skipped.  The lemmas follow one stored delegation through the blocks of a notification.  The concrete
  application is the whole way from an empty database through a signed request to the started goroutine.
\<close>

subsection \<open>Due work is started\<close>

lemma rows_doDelegateSecrets:
  "keeps (on_store (\<lambda>db. tDelegate db = D \<and> tMonitor db = M)) (doDelegateSecrets env l)"
proof -
  have chain: "keeps (on_store I) (submitTx env call)" "keeps (on_store I) (WaitMined env h)" for I call h
    by (auto intro!: keepsI simp: submitTx_def WaitMined_def split: sum.split)
  have "keeps (on_store (\<lambda>db. tDelegate db = D \<and> tMonitor db = M)) (AccountLockSmt env a n)"
    "keeps (on_store (\<lambda>db. tDelegate db = D \<and> tMonitor db = M)) (AccountUnlockSmt env a n)"
    "keeps (on_store (\<lambda>db. tDelegate db = D \<and> tMonitor db = M)) (AccountUseSmt env a n)" for a n
    unfolding AccountLockSmt_def AccountUnlockSmt_def AccountUseSmt_def Let_def
    by (intro keeps_rules keeps_accountSanity keeps_db_write; simp add: saveAccount_def)+
  moreover have "keeps (on_store (\<lambda>db. tDelegate db = D \<and> tMonitor db = M)) (SaveDelegateExecuteRecord env r)" for r
    by (rule keeps_SaveDelegateExecuteRecord) (simp add: saveRecord_def)
  ultimately show ?thesis
    unfolding doDelegateSecrets_def doDelegateSecret_def doRegisterSecret_def deferSave_def executeTx_def
    by (intro keeps_rules chain)
qed

text \<open>A stored delegation has a point for its proof in one of the given blocks.\<close>

definition dueIn :: "byte list \<Rightarrow> int set \<Rightarrow> world \<Rightarrow> bool" where
  "dueIn k blocks w \<longleftrightarrow> proofDue k (filter (\<lambda>m. dm_BlockNumber m \<in> blocks) (tMonitor (store w)))"

lemma dueIn_Nil [simp]: "\<not> dueIn k {} w"
  by (simp add: dueIn_def proofDue_def)

lemma dueIn_Cons: "dueIn k (set (n # ns)) w \<longleftrightarrow> dueIn k {n} w \<or> dueIn k (set ns) w"
  by (auto simp: dueIn_def proofDue_def)

text \<open>What handling blocks does to one delegation: its proof is started if a point of it is among the blocks.\<close>

definition afterBlocks :: "byte list \<Rightarrow> delegate \<Rightarrow> bool \<Rightarrow> world \<Rightarrow> world \<Rightarrow> bool" where
  "afterBlocks k d due w w' \<longleftrightarrow> sane ledger blockOk w' \<and> tMonitor (store w') = tMonitor (store w) \<and>
     (\<exists>new. goroutines w' = goroutines w @ new \<and>
        (if due \<and> d_Status d = DelegateStatusInit
         then proofRuns k new = [GoUpdateBalanceProofAndUnlocks (d\<lparr>d_Status := DelegateStatusRunning\<rparr>)] \<and>
           delegateBy k (store w') = Some (d\<lparr>d_Status := DelegateStatusRunning\<rparr>)
         else proofRuns k new = [] \<and> delegateBy k (store w') = Some d))"

lemma afterBlocks_trans:
  assumes "afterBlocks k d due w w1"
    "afterBlocks k (if due \<and> d_Status d = DelegateStatusInit then d\<lparr>d_Status := DelegateStatusRunning\<rparr> else d) due' w1 w2"
  shows "afterBlocks k d (due \<or> due') w w2"
proof -
  obtain new1 new2 where "goroutines w1 = goroutines w @ new1" "goroutines w2 = goroutines w @ new1 @ new2"
    "if due \<and> d_Status d = DelegateStatusInit
     then proofRuns k new1 = [GoUpdateBalanceProofAndUnlocks (d\<lparr>d_Status := DelegateStatusRunning\<rparr>)] else proofRuns k new1 = []"
    "if \<not> due \<and> due' \<and> d_Status d = DelegateStatusInit
     then proofRuns k new2 = [GoUpdateBalanceProofAndUnlocks (d\<lparr>d_Status := DelegateStatusRunning\<rparr>)] else proofRuns k new2 = []"
    using assms by (auto simp: afterBlocks_def split: if_splits)
  with assms show ?thesis
    unfolding afterBlocks_def
    by (intro conjI exI [of _ "new1 @ new2"]) (simp_all split: if_splits, blast)
qed

lemma handleBlock_starts:
  assumes "no_faults env" "fees_ok (env_params env)" "sane ledger blockOk w" "blockOk (Some n)" "n \<noteq> 0"
    "\<forall>m \<in> set (tMonitor (store w)). dm_DelegateKey m \<noteq> []" "delegateBy k (store w) = Some d"
  shows "\<exists>w'. handleBlock env l n w = (Ret (), w') \<and> afterBlocks k d (dueIn k {n} w) w w'"
proof -
  let ?w = "w\<lparr>ce_blockNumber := Some n\<rparr>" and ?D = "tDelegate (store w)" and ?M = "tMonitor (store w)"
  let ?ms = "filter (\<lambda>m. dm_BlockNumber m = n) ?M"
  note inv = calm_id [OF assms(1)]
  have saneB: "sane ledger (\<lambda>blk. blk = Some n) ?w" using assms(3) by (simp add: sane_def)
  obtain w1 where w1: "doDelegateSecrets env l ?w = (Ret (), w1)"
    using safe_returns [OF booked.secure_doDelegateSecrets [where env = env and B = "\<lambda>blk. blk = Some n", unfolded inv, OF assms(2)] saneB, of l]
    by auto
  have tabs: "tDelegate (store w1) = ?D" "tMonitor (store w1) = ?M" "goroutines w1 = goroutines w"
    using keepsD [OF rows_doDelegateSecrets, of ?D ?M ?w env l] w1
      keepsD [OF process_doDelegateSecrets, of "\<lambda>_ gs. gs = goroutines w" ?w env l]
    by (simp_all add: on_store_def on_process_def)
  have keys: "\<forall>m \<in> set ?ms. dm_DelegateKey m \<noteq> []" using assms(6) by simp
  have "delegateBy k (store (tick w1)) = Some d" using assms(7) tabs(1) by simp
  from handleMonitors_ok [OF assms(1) keys this] obtain w2 new where
    w2: "handleMonitors env ?ms (tick w1) = (Ret True, w2)" "goroutines w2 = goroutines w @ new" "tMonitor (store w2) = ?M"
      "if proofDue k ?ms \<and> d_Status d = DelegateStatusInit
       then proofRuns k new = [GoUpdateBalanceProofAndUnlocks (d\<lparr>d_Status := DelegateStatusRunning\<rparr>)] \<and>
         delegateBy k (store w2) = Some (d\<lparr>d_Status := DelegateStatusRunning\<rparr>)
       else proofRuns k new = [] \<and> delegateBy k (store w2) = Some d"
    using tabs by auto
  obtain w' where run: "handleBlock env l n w = (Ret (), w')" and sane': "sane ledger blockOk w'"
    using safe_returns [OF booked.secure_handleBlock [where env = env and B = blockOk, unfolded inv, OF assms(2,4)] assms(3), of l]
    by auto
  have "SaveLatestBlockNumber env n w2 = (Ret (), w')"
    using run w1 w2(1) tabs(2) assms(1,5) by (simp add: handleBlock_def)
  moreover have "keeps (on_store (\<lambda>db. tDelegate db = tDelegate (store w2) \<and> tMonitor db = ?M)) (SaveLatestBlockNumber env n)"
    by (rule keeps_SaveLatestBlockNumber) (simp add: saveLastBlock_def)
  moreover have "keeps (on_process (\<lambda>_ gs. gs = goroutines w2)) (SaveLatestBlockNumber env n)" by (intro keeps_rules)
  ultimately have "tDelegate (store w') = tDelegate (store w2)" "tMonitor (store w') = ?M" "goroutines w' = goroutines w2"
    using w2(3) by (auto dest!: keepsD [where s = w2] simp: on_store_def on_process_def)
  with run sane' w2(2,4) show ?thesis by (auto simp: afterBlocks_def dueIn_def)
qed

lemma blocks_start:
  assumes "no_faults env" "fees_ok (env_params env)" "sane ledger blockOk w" "\<forall>n \<in> set ns. blockOk (Some n) \<and> n \<noteq> 0"
    "\<forall>m \<in> set (tMonitor (store w)). dm_DelegateKey m \<noteq> []" "delegateBy k (store w) = Some d"
  shows "\<exists>w'. foreachA (\<lambda>n. handleBlock env (f n) n) ns w = (Ret (), w') \<and> afterBlocks k d (dueIn k (set ns) w) w w'"
  using assms(3-)
proof (induction ns arbitrary: w d)
  case Nil
  then show ?case by (simp add: afterBlocks_def)
next
  case (Cons n ns)
  from handleBlock_starts [OF assms(1,2) Cons.prems(1), of n k d "f n"] Cons.prems obtain w1 where
    w1: "handleBlock env (f n) n w = (Ret (), w1)" "afterBlocks k d (dueIn k {n} w) w w1" by auto
  define d1 where "d1 = (if dueIn k {n} w \<and> d_Status d = DelegateStatusInit then d\<lparr>d_Status := DelegateStatusRunning\<rparr> else d)"
  from w1(2) have s1: "sane ledger blockOk w1" "tMonitor (store w1) = tMonitor (store w)" "delegateBy k (store w1) = Some d1"
    by (auto simp: afterBlocks_def d1_def split: if_splits)
  from Cons.IH [OF s1(1) _ _ s1(3)] Cons.prems s1(2) obtain w2 where
    w2: "foreachA (\<lambda>n. handleBlock env (f n) n) ns w1 = (Ret (), w2)" "afterBlocks k d1 (dueIn k (set ns) w1) w1 w2" by auto
  have "dueIn k (set ns) w1 = dueIn k (set ns) w" using s1(2) by (simp add: dueIn_def)
  from afterBlocks_trans [OF w1(2) w2(2) [unfolded d1_def this]] w1(1) w2(1) show ?case
    by (simp only: dueIn_Cons foreachA.simps bindA_Ret) simp
qed

text \<open>The blocks that a notification handles: those since the last one, or, when none was handled since the start, the notified one.\<close>

definition handledBlocks :: "int \<Rightarrow> int \<Rightarrow> int list" where
  "handledBlocks l n = (if l = 0 then [n] else [l + 1 .. n])"

lemma due_starts_at:
  assumes "fees_ok (env_params env)" "no_faults env" "service_reachable env env (w, q)"
    "\<forall>m \<in> set (tMonitor (store w)). dm_DelegateKey m \<noteq> []"
    "delegateBy k (store w) = Some d" "d_Status d = DelegateStatusInit"
    "0 < n" "in_int64 n" "dueIn k (set (handledBlocks (lastBlock w) n)) w"
  shows "\<exists>w' new. handleStateChange env (BlockStateChange n) w = (Ret (), w') \<and> goroutines w' = goroutines w @ new \<and>
     proofRuns k new = [GoUpdateBalanceProofAndUnlocks (d\<lparr>d_Status := DelegateStatusRunning\<rparr>)] \<and>
     delegateBy k (store w') = Some (d\<lparr>d_Status := DelegateStatusRunning\<rparr>)"
proof -
  let ?l = "lastBlock w" and ?prev = "\<lambda>i. if i = n then lastBlock w else i - 1"
  have sane: "sane ledger blockOk w" using reachable_booked [OF assms(1-3)] by simp
  then have l: "0 \<le> ?l" "in_int64 ?l" by (auto simp: sane_def blockOk_def lastBlock_def in_int64_def split: option.splits)
  have n: "in_int64 (n - 1)" using assms(7,8) by (auto simp: in_int64_def)
  have less: "?l = 0 \<or> ?l < n" using assms(9) by (cases "?l = 0") (auto simp: handledBlocks_def dueIn_def proofDue_def)
  have loop: "handleBlockNumber env n w = foreachA (\<lambda>i. handleBlock env (?prev i) i) (handledBlocks ?l n) w"
  proof (cases "?l = 0")
    case True
    then show ?thesis
      using handleBlockNumberFuel_eq [OF n l(2) order_refl, of env] by (simp add: handleBlockNumber_def handledBlocks_def)
  next
    case False
    then have "[?l + 1 .. n] = [?l + 1 .. n - 1] @ [n]" using less by (simp add: upto_rec2)
    moreover have "foreachA (\<lambda>i. handleBlock env (?prev i) i) [?l + 1 .. n - 1] = foreachA (\<lambda>i. handleBlock env (i - 1) i) [?l + 1 .. n - 1]"
      by (intro foreachA_cong) auto
    ultimately show ?thesis
      using handleBlockNumberFuel_eq [OF n l(2) order_refl, of env] False less
      by (simp add: handleBlockNumber_def handledBlocks_def foreachA_append)
  qed
  have ok: "\<forall>i \<in> set (handledBlocks ?l n). blockOk (Some i) \<and> i \<noteq> 0"
    using assms(7,8) l by (auto simp: handledBlocks_def blockOk_def in_int64_def)
  from blocks_start [OF assms(2,1) sane ok assms(4,5), of ?prev] assms(6,9) loop show ?thesis by (auto simp: afterBlocks_def)
qed

lemma due_starts:
  assumes "fees_ok (env_params env)" "no_faults env" "service_reachable env env (w, q)"
    "\<forall>m \<in> set (tMonitor (store w)). dm_DelegateKey m \<noteq> []"
    "delegateBy k (store w) = Some d" "d_Status d = DelegateStatusInit"
    "0 < lastBlock w" "in_int64 n" "dueIn k {lastBlock w <.. n} w"
  shows "\<exists>w' new. handleStateChange env (BlockStateChange n) w = (Ret (), w') \<and> goroutines w' = goroutines w @ new \<and>
     proofRuns k new = [GoUpdateBalanceProofAndUnlocks (d\<lparr>d_Status := DelegateStatusRunning\<rparr>)] \<and>
     delegateBy k (store w') = Some (d\<lparr>d_Status := DelegateStatusRunning\<rparr>)"
proof (rule due_starts_at [OF assms(1-6) _ assms(8)])
  show "0 < n" using assms(7,9) by (auto simp: dueIn_def proofDue_def)
  have "set (handledBlocks (lastBlock w) n) = {lastBlock w <.. n}" using assms(7) by (auto simp: handledBlocks_def)
  then show "dueIn k (set (handledBlocks (lastBlock w) n)) w" using assms(9) by simp
qed

text \<open>
  C2. Due work is started.  In a reachable state, when no statement fails: a stored delegation in state Init that has a point for its proof
  after the last handled block and up to the notified one, is started by the notification, exactly once, even when the point
  is in a block that was skipped (a block has been handled since the start, and every point names a delegation): the goroutine that submits the proof and unlocks the locks is there, and the stored state is Running.
\<close>
theorem due_delegation_started:
  assumes "fees_ok (env_params env)" "no_faults env" "service_reachable env env (w, q)"
    "\<forall>m \<in> set (tMonitor (store w)). dm_DelegateKey m \<noteq> []"
    "delegateBy k (store w) = Some d" "d_Status d = DelegateStatusInit"
    "0 < lastBlock w" "in_int64 n" "dueIn k {lastBlock w <.. n} w"
  shows "\<exists>w' new. handleStateChange env (BlockStateChange n) w = (Ret (), w') \<and> goroutines w' = goroutines w @ new \<and>
     proofRuns k new = [GoUpdateBalanceProofAndUnlocks (d\<lparr>d_Status := DelegateStatusRunning\<rparr>)] \<and>
     delegateBy k (store w') = Some (d\<lparr>d_Status := DelegateStatusRunning\<rparr>)"
  using assms by (rule due_starts)

text \<open>
  C25. The rows are well formed in every state the service reaches, whatever statement of an event, a goroutine or a
  request fails: every stored delegation, and every one that a goroutine works on, has the key of its own channel and delegator, and
  its proof, locks and secrets decode; and there is at most one stored delegation for a channel and a delegator.
\<close>
theorem delegations_well_formed:
  assumes "fees_ok (env_params env)" "no_faults penv" "service_reachable env penv (w, q)"
    "d \<in> set (tDelegate (store w)) \<union> subject ` set (goroutines w)"
  shows "d_Key d = BuildDelegateKey (ChannelIdentifier d) (DelegatorAddress d) \<and>
     (\<exists>u us ss. UpdateBalanceProof d = Ret u \<and> Unlocks d = Ret us \<and> Secrets d = Ret ss) \<and>
     length (filter (\<lambda>e. ChannelIdentifier e = ChannelIdentifier d \<and> DelegatorAddress e = DelegatorAddress d) (tDelegate (store w))) \<le> 1"
proof -
  have ok: "\<And>e. e \<in> set (tDelegate (store w)) \<Longrightarrow> delegate_ok e" "distinct (map d_Key (tDelegate (store w)))" "delegate_ok d"
    using reachable_faulty [OF assms(1-3)] assms(4) by (auto simp: sane_def delegates_ok_def)
  have "filter (\<lambda>e. ChannelIdentifier e = ChannelIdentifier d \<and> DelegatorAddress e = DelegatorAddress d) (tDelegate (store w)) =
      filter (\<lambda>e. d_Key e = d_Key d) (tDelegate (store w))"
    using ok(1,3) by (intro filter_cong) (auto simp: delegate_ok_def BuildDelegateKey_inject)
  moreover have "length (filter (\<lambda>e. d_Key e = k) es) \<le> 1" if "distinct (map d_Key es)" for k and es :: "delegate list"
    using that by (induction es) (auto simp: filter_empty_conv rev_image_eqI)
  moreover obtain u us ss where "UpdateBalanceProof d = Ret u" "Unlocks d = Ret us" "Secrets d = Ret ss"
    using delegate_ok_getters [OF ok(3)] .
  moreover have "d_Key d = BuildDelegateKey (ChannelIdentifier d) (DelegatorAddress d)" using ok(3) by (simp add: delegate_ok_def)
  ultimately show ?thesis using ok(2) by simp
qed

subsection \<open>Concrete application\<close>


text \<open>
  The signed request of delegator 7 for a channel that settles at block 1000, accepted after block 900: its proof
  is due at block 970, which a notification of block 1010 skips.
\<close>

definition closedEnv :: "params \<Rightarrow> env" where
  "closedEnv p = signingEnv\<lparr>env_ChannelInfo := \<lambda>_ _ _. Inr (1000, 3), env_params := p\<rparr>"

lemma closedEnv_signing [simp]:
  "no_faults (closedEnv p)" "env_params (closedEnv p) = p" "env_keccak (closedEnv p) = env_keccak quietEnv"
  "env_random (closedEnv p) = env_random quietEnv" "env_TokenNetwork (closedEnv p) = env_TokenNetwork quietEnv"
  "env_ecrecover (closedEnv p) = env_ecrecover signingEnv" "env_ChainID (closedEnv p) = env_ChainID quietEnv"
  "env_ChannelInfo (closedEnv p) n t c = Inr (1000, 3)"
  by (simp_all add: closedEnv_def signingEnv_def no_faults_def quietEnv_def)

lemma started_state:
  obtains w where "handleStateChange (closedEnv p) (BlockStateChange 900) freshWorld = (Ret (), w)"
    "tDelegate (store w) = []" "tMonitor (store w) = []" "lastBlock w = 900" "accounts_ok (store w)"
proof -
  have "\<exists>w. handleStateChange (closedEnv p) (BlockStateChange 900) freshWorld = (Ret (), w) \<and>
    tDelegate (store w) = [] \<and> tMonitor (store w) = [] \<and> lastBlock w = 900 \<and> accounts_ok (store w)"
    by (simp add: freshWorld_def handleBlockNumber_def handleBlockNumberBody_def numeral_2_eq_2 lastBlock_def handleBlock_def doDelegateSecrets_def GetAllDelegate_def SaveLatestBlockNumber_def
      emptyDb_def accounts_ok_def saveLastBlock_def)
  then show ?thesis using that by blast
qed


lemma closed_accepted:
  "VerifyDelegate (closedEnv p) signedRequest 7 w = (Ret (Inr (SetSettleBlockNumber 1000 signedRequest)), tick (tick w))"
proof -
  have msg: "closingMessage (closedEnv p) = closingMessage signingEnv" "nonClosingMessage (closedEnv p) = nonClosingMessage signingEnv"
    "punishMessage (closedEnv p) = punishMessage signingEnv" "unlockMessage (closedEnv p) = unlockMessage signingEnv"
    by (simp_all add: fun_eq_iff closingMessage_def nonClosingMessage_def punishMessage_def unlockMessage_def closedEnv_def)
  have "signedBy (closedEnv p) = signedBy signingEnv" by (simp add: fun_eq_iff signedBy_def closedEnv_def split: outcome.split)
  with msg have same: "proofVerified (closedEnv p) = proofVerified signingEnv" "unlockVerified (closedEnv p) = unlockVerified signingEnv"
    "punishVerified (closedEnv p) = punishVerified signingEnv"
    by (simp_all add: fun_eq_iff proofVerified_def unlockVerified_def punishVerified_def)
  have "verifyContent (closedEnv p) signedRequest 7 = Ret None"
    unfolding verifyContent_iff same by (rule signedRequest_content [unfolded verifyContent_iff])
  then show ?thesis
    by (simp add: VerifyDelegate_def signedRequest_sel quietEnv_def)
qed

lemma accepted_state:
  assumes p: "fees_ok p" "RevealTimeout p = 30"
  obtains w q d where "service_reachable (closedEnv p) (closedEnv p) (w, q)" "lastBlock w = 900"
    "delegateBy (BuildDelegateKey 5 7) (store w) = Some d" "d_Status d = DelegateStatusInit"
    "UpdateBalanceProof d = Ret (GetDelegateUpdateBalanceProof signedRequest)" "Unlocks d = Ret []" "DelegatorAddress d = 7"
    "dueIn (BuildDelegateKey 5 7) {900 <.. 1010} w" "\<forall>m \<in> set (tMonitor (store w)). dm_DelegateKey m \<noteq> []"
proof -
  let ?e = "closedEnv p" and ?q = "NewSmtQuery ''http://node'' 0" and ?k = "BuildDelegateKey 5 7" and ?c = "SetSettleBlockNumber 1000 signedRequest"
  obtain w0 where w0: "handleStateChange ?e (BlockStateChange 900) freshWorld = (Ret (), w0)"
    "tDelegate (store w0) = []" "tMonitor (store w0) = []" "lastBlock w0 = 900" "accounts_ok (store w0)"
    by (rule started_state)
  have "service_reachable ?e ?e (freshWorld, ?q)"
    by (rule service_reachable.start) (simp_all add: freshWorld_def)
  then have r0: "service_reachable ?e ?e (w0, ?q)"
    using step_chain_event [OF w0(1)] service_reachable.step by (fastforce simp: survives_def blockOk_def in_int64_def)
  let ?w1 = "tick (tick w0)"
  have ok: "request_ok ?c" using verifyContent_request_ok [OF signedRequest_content] by (simp add: signedRequest_sel)
  have fresh: "\<forall>n. fresh_keys ?e (?w1\<lparr>clock := n\<rparr>)" using w0(3) by (simp add: fresh_keys_def quietEnv_def)
  have pre: "accounts_ok (store ?w1)" "delegates_ok (store ?w1)" "delegateBy ?k (store ?w1) = None"
    using w0(2,5) by (simp_all add: delegates_ok_def)
  obtain w2 t m x where rd: "ReceiveDelegate ?e ?c 7 ?w1 = (Ret (Inr ()), w2)" "accounts_ok (store w2)"
     "delegateBy ?k (store w2) = Some (firstRow ?e ?c 7 [] sampleSecrets x t)"
     "tMonitor (store w2) = schedule ?e (firstRow ?e ?c 7 [] sampleSecrets x t) m"
    using ReceiveDelegate_first [OF closedEnv_signing(1) [of p] _ pre(1,2) ok, of "[]" sampleSecrets 7] pre(3) fresh w0(3) p(1) by auto
  with Delegate_confirms [OF closedEnv_signing(1) [of p] _ closed_accepted [of p, folded path7]] obtain w3 resp where
    d: "Delegate ?e (Some (VerifyDelegate ?e)) ''0x07'' (Inr signedRequest) w0 = (Ret resp, w3)" "store w3 = store w2"
    by (fastforce simp: path7)
  have "lastBlock w3 = 900"
  proof -
    have "keeps (on_block (\<lambda>b. b = Some 900)) (Delegate ?e (Some (VerifyDelegate ?e)) ''0x07'' (Inr signedRequest))"
      unfolding Delegate_def option.case by (intro keeps_rules process_ReceiveDelegate)
    from keepsD [OF this, of w0] w0(4) d(1) show ?thesis by (simp add: on_process_def lastBlock_def split: option.splits)
  qed
  moreover have "service_reachable ?e ?e (w3, ?q)"
    by (rule service_reachable.step [OF r0 service_step.request [OF d(1)]])
  moreover have "dueIn ?k {900 <.. 1010} w3" "\<forall>m \<in> set (tMonitor (store w3)). dm_DelegateKey m \<noteq> []"
    using rd(4) d(2) by (simp_all add: dueIn_def proofDue_def schedule_def firstRow_def newMonitor_def p(2) i64_id in_int64_def)
  ultimately show ?thesis
    using that rd(3) d(2)
    by (simp add: firstRow_def UpdateBalanceProof_def Unlocks_def DelegatorAddress_def gobDecode_def GetDelegateUpdateBalanceProof_def)
qed

lemma init_fees [simp]: "fees_ok initParams" "RevealTimeout initParams = 30"
  by (simp_all add: fees_ok_def initParams_def)

text \<open>The next notification starts the proof of the accepted delegation.\<close>

lemma running_state:
  assumes p: "fees_ok p" "RevealTimeout p = 30"
  obtains w q d i where "service_reachable (closedEnv p) (closedEnv p) (w, q)" "i < length (goroutines w)"
    "goroutines w ! i = GoUpdateBalanceProofAndUnlocks d"
    "UpdateBalanceProof d = Ret (GetDelegateUpdateBalanceProof signedRequest)" "Unlocks d = Ret []" "DelegatorAddress d = 7"
    "delegateBy (BuildDelegateKey 5 7) (store w) = Some d" "d_Status d = DelegateStatusRunning"
proof -
  obtain w q d where s: "service_reachable (closedEnv p) (closedEnv p) (w, q)" "lastBlock w = 900"
    "delegateBy (BuildDelegateKey 5 7) (store w) = Some d" "d_Status d = DelegateStatusInit"
    "UpdateBalanceProof d = Ret (GetDelegateUpdateBalanceProof signedRequest)" "Unlocks d = Ret []" "DelegatorAddress d = 7"
    "dueIn (BuildDelegateKey 5 7) {900 <.. 1010} w" "\<forall>m \<in> set (tMonitor (store w)). dm_DelegateKey m \<noteq> []"
    using accepted_state [OF p] by metis
  let ?d = "d\<lparr>d_Status := DelegateStatusRunning\<rparr>"
  obtain w' new where r: "handleStateChange (closedEnv p) (BlockStateChange 1010) w = (Ret (), w')" "goroutines w' = goroutines w @ new"
     "proofRuns (BuildDelegateKey 5 7) new = [GoUpdateBalanceProofAndUnlocks ?d]" "delegateBy (BuildDelegateKey 5 7) (store w') = Some ?d"
    using due_starts [OF _ closedEnv_signing(1) [of p] s(1,9,3,4), of 1010] s(2,8) p(1) by (auto simp: in_int64_def)
  have "GoUpdateBalanceProofAndUnlocks ?d \<in> set (goroutines w')"
    using r(2,3) unfolding proofRuns_def by (metis Un_iff filter_is_subset list.set_intros(1) set_append subsetD)
  then obtain i where i: "i < length (goroutines w')" "goroutines w' ! i = GoUpdateBalanceProofAndUnlocks ?d"
    by (auto simp: in_set_conv_nth)
  have "service_reachable (closedEnv p) (closedEnv p) (w', q)"
    using service_reachable.step [OF s(1) step_chain_event [OF r(1)]] by (simp add: survives_def blockOk_def in_int64_def)
  then show ?thesis
    using that [of w' q i ?d] i s(5-7) r(4) by (simp add: UpdateBalanceProof_def Unlocks_def DelegatorAddress_def)
qed

theorem due_delegation_started_witness:
  "\<exists>w q w' d. service_reachable (closedEnv initParams) (closedEnv initParams) (w, q) \<and> lastBlock w = 900 \<and>
     handleStateChange (closedEnv initParams) (BlockStateChange 1010) w = (Ret (), w') \<and>
     GoUpdateBalanceProofAndUnlocks d \<in> set (goroutines w') \<and> d_Key d = BuildDelegateKey 5 7"
proof -
  obtain w q d where s: "service_reachable (closedEnv initParams) (closedEnv initParams) (w, q)" "lastBlock w = 900"
    "delegateBy (BuildDelegateKey 5 7) (store w) = Some d" "d_Status d = DelegateStatusInit"
    "dueIn (BuildDelegateKey 5 7) {900 <.. 1010} w" "\<forall>m \<in> set (tMonitor (store w)). dm_DelegateKey m \<noteq> []"
    using accepted_state [OF init_fees] by metis
  obtain w' new where r: "handleStateChange (closedEnv initParams) (BlockStateChange 1010) w = (Ret (), w')" "goroutines w' = goroutines w @ new"
     "proofRuns (BuildDelegateKey 5 7) new = [GoUpdateBalanceProofAndUnlocks (d\<lparr>d_Status := DelegateStatusRunning\<rparr>)]"
    using due_delegation_started [OF _ closedEnv_signing(1) [of initParams] s(1,6,3,4), of 1010] s(2,5) by (auto simp: in_int64_def)
  have "GoUpdateBalanceProofAndUnlocks (d\<lparr>d_Status := DelegateStatusRunning\<rparr>) \<in> set new"
    using r(3) unfolding proofRuns_def by (metis filter_is_subset list.set_intros(1) subsetD)
  moreover have "d_Key d = BuildDelegateKey 5 7" using rowBy_Some [OF s(3)] by simp
  ultimately show ?thesis using s(1,2) r(1,2) by force
qed

theorem delegations_well_formed_witness:
  "\<exists>w q d u. service_reachable (closedEnv initParams) (closedEnv initParams) (w, q) \<and> d \<in> set (tDelegate (store w)) \<and> UpdateBalanceProof d = Ret u \<and>
     d_Key d = BuildDelegateKey (ChannelIdentifier d) (DelegatorAddress d)"
proof -
  obtain w q d where s: "service_reachable (closedEnv initParams) (closedEnv initParams) (w, q)" "delegateBy (BuildDelegateKey 5 7) (store w) = Some d"
    using accepted_state [OF init_fees] by metis
  have d: "d \<in> set (tDelegate (store w))" using rowBy_Some [OF s(2)] by simp
  with delegations_well_formed [OF _ closedEnv_signing(1) [of initParams] s(1), of d] s(1) show ?thesis by auto
qed

end
