(* ===== verification/PM_Rows.thy ===== *)
theory PM_Rows
  imports PM_Liveness
begin

text \<open>
  Invariants over the rows of delegations, the work that was started and the calls that were sent.

  The locale \<open>row_invariant\<close> is the contract of such an invariant with the service: which rows may be stored (\<open>row\<close>), what a
  goroutine may hold (\<open>held\<close>), which goroutines may be started (\<open>deeds\<close>) and which calls may be sent (\<open>call_ok\<close>).  In it every operation
  except the storing of a request is shown to keep the invariant, whatever the database, the chain and the node do, and so
  is every step of the service.  It is interpreted for the authority of the service and for what a crash leaves behind.
\<close>

subsection \<open>Reading\<close>

lemma keeps_read:
  assumes "safe True J m P" "\<And>x. P x \<Longrightarrow> keeps J (k x)"
  shows "keeps J (bindA m k)"
  using safe_keeps [OF safe_bindA [OF assms(1)]] keeps_secure [OF assms(2)] by blast

lemma keeps_decode: "(\<And>x. r = Ret x \<Longrightarrow> keeps J (k x)) \<Longrightarrow> keeps J (bindA (outcomeA r) k)"
  by (cases r) (auto intro!: keepsI dest: keepsD)

lemma safe_decode: "(\<And>x. r = Ret x \<Longrightarrow> safe True J (k x) Q) \<Longrightarrow> safe True J (bindA (outcomeA r) k) Q"
  by (cases r) (auto intro!: safeI dest: safeD)

subsection \<open>The contract\<close>

text \<open>The statuses in which the service starts no more work on a delegation but punishing.\<close>

definition idle :: "delegateStatus \<Rightarrow> bool" where
  "idle s \<longleftrightarrow> s \<noteq> DelegateStatusInit \<and> s \<noteq> DelegateStatusSuccessFinishedByOther"

locale row_invariant =
  fixes I :: "world \<Rightarrow> bool"
    and tables :: "modeldb \<Rightarrow> bool"
    and deeds :: "goroutine list \<Rightarrow> contractCall list \<Rightarrow> bool"
    and row :: "delegate \<Rightarrow> bool" and held :: "delegate \<Rightarrow> bool"
    and evidence :: "byte list \<Rightarrow> delegatePunish \<Rightarrow> bool"
    and call_ok :: "contractCall \<Rightarrow> bool"
  assumes parts: "I w \<longleftrightarrow> tables (store w) \<and> deeds (goroutines w) (txs w)"
    and tables_fewer: "tables db \<Longrightarrow> (\<exists>P. tDelegate db' = filter P (tDelegate db)) \<Longrightarrow> set (tPunish db') \<subseteq> set (tPunish db) \<Longrightarrow> tables db'"
    and tables_save: "tables db \<Longrightarrow> row d \<Longrightarrow> tables (saveDelegate d db)"
    and tables_row: "tables db \<Longrightarrow> d \<in> set (tDelegate db) \<Longrightarrow> row d"
    and tables_running: "tables db \<Longrightarrow>
      tables (db\<lparr>tDelegate := gorm_update_column blankList d_Key k (\<lambda>r. r\<lparr>d_Status := DelegateStatusRunning\<rparr>) (tDelegate db)\<rparr>)"
    and tables_evidence: "tables db \<Longrightarrow> held d \<Longrightarrow> p \<in> set (gorm_where blankList dp_DelegateKey (d_Key d) (tPunish db)) \<Longrightarrow>
      evidence (d_Key d) p"
    and row_held: "row d \<Longrightarrow> held d"
    and row_settle: "row d \<Longrightarrow> row (d\<lparr>d_SettleBlockNumber := n\<rparr>)"
    and row_by_other: "row d \<Longrightarrow> d_Status d = DelegateStatusInit \<Longrightarrow>
      row (d\<lparr>d_Status := DelegateStatusSuccessFinishedByOther, d_Error := e\<rparr>)"
    and held_result: "held d \<Longrightarrow> idle s \<Longrightarrow> row (d\<lparr>d_Status := s\<rparr>)" "held d \<Longrightarrow> idle s \<Longrightarrow> row (d\<lparr>d_Status := s, d_Error := e\<rparr>)"
    and deeds_fewer: "deeds gs calls \<Longrightarrow> set gs' \<subseteq> set gs \<Longrightarrow> deeds gs' calls"
    and deeds_held: "deeds gs calls \<Longrightarrow> g \<in> set gs \<Longrightarrow> held (subject g)"
    and deeds_call: "deeds gs calls \<Longrightarrow> call_ok call \<Longrightarrow> deeds gs (calls @ [call])"
    and start_unlocks: "deeds gs calls \<Longrightarrow> row d \<Longrightarrow> d_Status d = DelegateStatusSuccessFinishedByOther \<Longrightarrow>
      deeds (gs @ [GoUnlocks d]) calls"
    and start_proof: "deeds gs calls \<Longrightarrow> row d \<Longrightarrow> d_Status d = DelegateStatusInit \<Longrightarrow>
      deeds (gs @ [GoUpdateBalanceProofAndUnlocks (d\<lparr>d_Status := DelegateStatusRunning\<rparr>)]) calls"
    and start_punish: "deeds gs calls \<Longrightarrow> row d \<Longrightarrow> deeds (gs @ [GoPunishes d]) calls"
    and call_update: "held d \<Longrightarrow> UpdateBalanceProof d = Ret du \<Longrightarrow> du_Nonce du > 0 \<Longrightarrow> call_ok (updateCall d du)"
    and call_unlock: "held d \<Longrightarrow> UpdateBalanceProof d = Ret du \<Longrightarrow> Unlocks d = Ret us \<Longrightarrow> dl \<in> set us \<Longrightarrow>
      call_ok (unlockCall d (TransferAmount du) dl)"
    and call_punish: "held d \<Longrightarrow> evidence (d_Key d) p \<Longrightarrow> call_ok (punishCall d p)"
    and call_secret: "held d \<Longrightarrow> Secrets d = Ret ss \<Longrightarrow> ds \<in> set ss \<Longrightarrow> call_ok (RegisterSecret (GetSecret ds))"
begin

subsubsection \<open>Statements\<close>

lemma outside [keeps_rules]:
  "keeps I (db_query e q)" "keeps I (now e)" "keeps I (NewRandomAddress e)"
  "keeps I (WaitMined e h)" "keeps I (TokenNetwork e t)" "keeps I (GetChannelInfo e t c)"
  by (auto intro!: keepsI simp: parts db_query_def WaitMined_def TokenNetwork_def GetChannelInfo_def split: option.split)

lemma writes:
  assumes "\<And>s. tables s \<Longrightarrow> tables (f s)"
  shows "keeps I (db_write e f)"
  using assms by (auto intro!: keepsI simp: db_write_def parts split: option.split)

lemma in_transaction [keeps_rules]:
  assumes "keeps I m"
  shows "keeps I (transaction e m)"
proof (rule keepsI)
  fix w assume w: "I w"
  from keepsD [OF assms w] w show "I (snd (transaction e m w))"
    by (cases "m w") (auto simp: transaction_def db_commit_def parts split: outcome.split sum.split option.split)
qed

lemma tables_same: "tables db \<Longrightarrow> tDelegate db' = tDelegate db \<Longrightarrow> set (tPunish db') \<subseteq> set (tPunish db) \<Longrightarrow> tables db'"
  by (rule tables_fewer) (auto intro: exI [of _ "\<lambda>_. True"])

lemma tables_other:
  "tables db \<Longrightarrow> tables (saveAccount al db)" "tables db \<Longrightarrow> tables (saveMonitor m db)" "tables db \<Longrightarrow> tables (saveRecord r db)"
  "tables db \<Longrightarrow> tables (saveLastBlock l db)" "tables db \<Longrightarrow> tables (saveTransfer t db)"
  "tables db \<Longrightarrow> tables (insertDispose a db)" "tables db \<Longrightarrow> tables (db\<lparr>tAccount := accs\<rparr>)"
  by (auto elim!: tables_same
      simp: saveAccount_def saveMonitor_def saveRecord_def saveLastBlock_def saveTransfer_def insertDispose_def)

lemma other_writes [keeps_rules]:
  "keeps I (db_write e (saveAccount al))" "keeps I (db_write e (saveMonitor m))" "keeps I (db_write e (saveRecord r))"
  "keeps I (db_write e (saveLastBlock l))" "keeps I (db_write e (saveTransfer t))" "keeps I (db_write e (insertDispose a))"
  "keeps I (db_write e (\<lambda>db. db\<lparr>tAccount := f db\<rparr>))"
  by (auto intro: writes tables_other)

lemma saves: "row d \<Longrightarrow> keeps I (UpdateObject e d)"
  unfolding UpdateObject_def by (intro keeps_rules writes tables_save)

lemma accounts [keeps_rules]:
  "keeps I (AccountGetAccount e a)" "keeps I (AccountIsBalanceEnough e a)" "keeps I (AccountLockSmt e a n)"
  "keeps I (AccountUnlockSmt e a n)" "keeps I (AccountUseSmt e a n)" "keeps I (updateAccountSMT e a old new)"
  unfolding AccountIsBalanceEnough_def AccountLockSmt_def AccountUnlockSmt_def AccountUseSmt_def AccountGetAccount_def
    updateAccountSMT_def GetAccountInTx_def findAccount_def
  by (intro keeps_rules keeps_accountSanity)+

lemma deposits: "keeps I (AccountAddSmt e a n)"
  unfolding AccountAddSmt_def findAccount_def
  by (intro keeps_bindA keeps_rules keeps_accountSanity)
    (auto intro!: keeps_rules simp del: returnA_app split: sum.split error.split)

lemma execution_records [keeps_rules]:
  "keeps I (NewDelegateExecuteRecord e d t ps)" "keeps I (SaveDelegateExecuteRecord e r)"
  "keeps I (HasSecretAlreadyRegister e s)" "keeps I (SaveLatestBlockNumber e n)"
  "keeps I (GetLatestBlockNumber e)" "keeps I (AddDelegateMonitorInTx e d)"
  unfolding NewDelegateExecuteRecord_def SaveDelegateExecuteRecord_def HasSecretAlreadyRegister_def SaveLatestBlockNumber_def
    GetLatestBlockNumber_def AddDelegateMonitorInTx_def
  by (intro keeps_rules)+

lemma reads:
  assumes "\<And>db. tables db \<Longrightarrow> P (q db)" "\<And>msg. P (Inl (DbErr msg))"
  shows "safe True I (db_query e q) P"
  using assms by (auto intro!: safeI simp: db_query_def parts split: option.split)

subsubsection \<open>Transactions and goroutines\<close>

lemma submits: "call_ok call \<Longrightarrow> keeps I (submitTx e call)"
  by (auto intro!: keepsI deeds_call simp: submitTx_def parts split: sum.split)

lemma executes: "call_ok call \<Longrightarrow> keeps I (executeTx e call r)"
  unfolding executeTx_def by (intro keeps_rules submits)

lemma onNetwork: "call_ok call \<Longrightarrow> keeps I (onTokenNetwork e d call r)"
  unfolding onTokenNetwork_def by (intro keeps_rules executes)

lemma deferred [keeps_rules]: "keeps I m \<Longrightarrow> keeps I (deferSave e m)"
  unfolding deferSave_def by (intro keeps_rules)

lemma sends_update:
  "held d \<Longrightarrow> UpdateBalanceProof d = Ret du \<Longrightarrow> du_Nonce du > 0 \<Longrightarrow> keeps I (doUpdateBalanceProof e d du)"
  unfolding doUpdateBalanceProof_def by (intro keeps_rules onNetwork call_update [unfolded updateCall_def])

lemma sends_unlock:
  "held d \<Longrightarrow> UpdateBalanceProof d = Ret du \<Longrightarrow> Unlocks d = Ret us \<Longrightarrow> dl \<in> set us \<Longrightarrow>
   keeps I (doUnlock e d dl (TransferAmount du) das)"
  unfolding doUnlock_def by (intro keeps_rules onNetwork call_unlock [unfolded unlockCall_def])

lemma sends_punish: "held d \<Longrightarrow> evidence (d_Key d) p \<Longrightarrow> keeps I (doPunish e d p)"
  unfolding doPunish_def by (intro keeps_rules onNetwork call_punish [unfolded punishCall_def])

lemma sends_secret: "held d \<Longrightarrow> Secrets d = Ret ss \<Longrightarrow> ds \<in> set ss \<Longrightarrow> keeps I (doRegisterSecret e d ds)"
  unfolding doRegisterSecret_def by (intro keeps_rules executes call_secret)

text \<open>The delegated operations; the row they return may be held like the one they are given.\<close>

lemma idle_results [simp]:
  "idle DelegateStatusFailed" "idle DelegateStatusSuccessFinished" "idle DelegateStatusPartialSuccess" "idle DelegateStatusRunning"
  by (simp_all add: idle_def)

lemma held_results:
  "held d \<Longrightarrow> idle s \<Longrightarrow> held (d\<lparr>d_Status := s\<rparr>)" "held d \<Longrightarrow> idle s \<Longrightarrow> held (d\<lparr>d_Status := s, d_Error := e\<rparr>)"
  by (simp_all add: row_held held_result)

lemma fails: "held d \<Longrightarrow> safe True I (failNoSmt e d err) held"
  unfolding failNoSmt_def Let_def
  by (intro secure_bindA keeps_secure saves safe_returnA) (simp_all add: held_result held_results)

lemma updates_proof:
  assumes "held d"
  shows "safe True I (doDelegateUpdateBalanceProof e d) held"
  unfolding doDelegateUpdateBalanceProof_def Let_def
  by (intro safe_decode safe_if safe_case_option secure_bindA [OF keeps_secure] safe_returnA fails
      saves sends_update keeps_rules) (simp_all add: assms held_result held_results)

lemma unlocks:
  assumes "held d"
  shows "keeps I (doDelegateUnlocks e d)"
proof -
  have result: "row (unlockResult x y d)" for x y using held_result [OF assms] by (simp add: unlockResult_def)
  have loop: "keeps I (unlockAll e d (TransferAmount du) das us)"
    if "UpdateBalanceProof d = Ret du" "Unlocks d = Ret us" for du us das
    unfolding unlockAll_def by (intro keeps_rules sends_unlock [OF assms that])
  show ?thesis
    unfolding doDelegateUnlocks_def GetDelegateAnnounceDisposeListByDelegateKey_def
    by (intro keeps_decode keeps_rules safe_keeps [OF fails] loop saves) (simp_all add: assms result)
qed

lemma punishes:
  assumes "held d"
  shows "keeps I (doDelegatePunishes e d)"
proof -
  have rows: "safe True I (GetDelegatePunishListByDelegateKey e (d_Key d))
      (\<lambda>r. case r of Inl _ \<Rightarrow> True | Inr ps \<Rightarrow> \<forall>p \<in> set ps. evidence (d_Key d) p)"
    unfolding GetDelegatePunishListByDelegateKey_def
    by (rule reads) (auto intro: tables_evidence assms)
  have one: "keeps I (punishOne e d p x)" if "evidence (d_Key d) p" for p x
    unfolding punishOne_def by (intro keeps_rules sends_punish assms that)
  show ?thesis
    unfolding doDelegatePunishes_def
    by (rule keeps_read [OF rows], intro keeps_rules safe_keeps [OF fails] saves)
      (simp_all add: assms one held_result)
qed

lemma runs: "held (subject g) \<Longrightarrow> keeps I (runGoroutine e g)"
proof (cases g)
  case (GoUpdateBalanceProofAndUnlocks d)
  then show "held (subject g) \<Longrightarrow> ?thesis"
    by (simp add: keeps_read [OF updates_proof] keeps_bindA keeps_returnA unlocks del: returnA_app)
qed (simp_all add: keeps_bindA keeps_returnA unlocks punishes del: returnA_app)

lemma secrets: "keeps I (doDelegateSecrets e l)"
proof -
  have rows: "safe True I (GetAllDelegate e) (\<lambda>ds. \<forall>d \<in> set ds. held d)"
    unfolding GetAllDelegate_def
    by (rule safe_bindA [OF reads [where P = "\<lambda>r. case r of Inl _ \<Rightarrow> True | Inr ds \<Rightarrow> \<forall>d \<in> set ds. held d"]])
      (auto intro: safe_panicA safe_returnA row_held tables_row split: sum.split)
  have one: "keeps I (doDelegateSecret e l d ds)" if "held d" "Secrets d = Ret ss" "ds \<in> set ss" for d ss ds
    unfolding doDelegateSecret_def by (intro keeps_rules sends_secret [OF that])
  show ?thesis
    unfolding doDelegateSecrets_def
    by (rule keeps_read [OF rows], intro keeps_foreachA keeps_decode) (auto intro: one)
qed

subsubsection \<open>Chain events\<close>

lemma row_reads:
  "safe True I (GetDelegateByKey e k) (\<lambda>r. case r of Inl _ \<Rightarrow> True | Inr d \<Rightarrow> row d)"
  "safe True I (GetDelegateListByChannelIdentifier e c) (\<lambda>r. case r of Inl _ \<Rightarrow> True | Inr ds \<Rightarrow> \<forall>d \<in> set ds. row d)"
  unfolding GetDelegateByKey_def GetDelegateListByChannelIdentifier_def
  by (rule reads; auto intro: tables_row simp: gorm_first_def gorm_where_def dest!: hd_in_set split: if_splits sum.split)+

lemma starts:
  "row d \<Longrightarrow> d_Status d = DelegateStatusSuccessFinishedByOther \<Longrightarrow> keeps I (go (GoUnlocks d))"
  "row d \<Longrightarrow> d_Status d = DelegateStatusInit \<Longrightarrow> keeps I (go (GoUpdateBalanceProofAndUnlocks (d\<lparr>d_Status := DelegateStatusRunning\<rparr>)))"
  "row d \<Longrightarrow> keeps I (go (GoPunishes d))"
  by (auto intro!: keepsI start_unlocks start_proof start_punish simp: go_def parts)

lemma marks_running:
  "safe True I (UpdateDelegateStatus e d DelegateStatusRunning) (\<lambda>(d', _). d' = d\<lparr>d_Status := DelegateStatusRunning\<rparr>)"
  unfolding UpdateDelegateStatus_def Let_def
  by (intro secure_bindA keeps_secure writes safe_returnA tables_running) simp_all

lemma fires:
  assumes "row d"
  shows "keeps I (fireMonitor e m d)"
proof -
  have "keeps I (bindA (UpdateDelegateStatus e d DelegateStatusRunning) (\<lambda>(d, err).
      case err of Some _ \<Rightarrow> returnA () | None \<Rightarrow> go (GoUpdateBalanceProofAndUnlocks d)))" if "d_Status d = DelegateStatusInit"
    by (rule keeps_read [OF marks_running])
      (use assms that in \<open>auto intro!: starts keeps_returnA simp del: returnA_app split: prod.split option.split\<close>)
  then show ?thesis
    using assms unfolding fireMonitor_def
    by (auto intro!: starts keeps_returnA simp del: returnA_app split: monitorType.split)
qed

lemma handles_monitors: "keeps I (handleMonitors e ms)"
proof (induction ms)
  case (Cons m ms)
  show ?case
    unfolding handleMonitors.simps
    by (rule keeps_read [OF row_reads(1)])
      (auto intro!: keeps_bindA keeps_returnA fires Cons simp del: returnA_app split: sum.splits error.split)
qed (simp add: keeps_returnA del: returnA_app)

lemma handles_block: "keeps I (handleBlock e l n)"
  unfolding handleBlock_def GetDelegateMonitorList_def
  by (intro keeps_rules secrets handles_monitors) (simp add: keeps_def parts)

lemma handles_block_number: "keeps I (handleBlockNumberFuel fuel e n)"
proof (induction fuel arbitrary: n)
  case (Suc fuel)
  then show ?case
    unfolding handleBlockNumberFuel.simps handleBlockNumberBody_def GetBlockNumber_def by (intro keeps_rules handles_block)
qed (simp add: keeps_panicA del: panicA_app)

lemma handles_event: "keeps I (handleStateChange e st)"
proof -
  have close: "keeps I (closeDelegate e n d)" if "row d" for n d
    unfolding closeDelegate_def AddDelegateMonitor_def by (intro keeps_rules saves) (simp add: that row_settle)
  have closed: "keeps I (handleClosedStateChange e c)" for c
    unfolding handleClosedStateChange_def
    by (rule keeps_read [OF row_reads(2)])
      (auto intro!: keeps_bindA keeps_returnA keeps_foreachA close outside simp del: returnA_app
        split: sum.splits option.split)
  have proof_updated: "keeps I (handleBalanceProofUpdatedStateChange e c p)" for c p
    unfolding handleBalanceProofUpdatedStateChange_def
    by (rule keeps_read [OF row_reads(1)])
      (auto intro!: keeps_returnA saves row_by_other simp del: returnA_app split: sum.splits)
  have "keeps I (DeleteDelegate e k)" for k
    unfolding DeleteDelegate_def
    by (intro keeps_rules writes) (auto elim!: tables_fewer simp: gorm_delete_def intro: exI [of _ "\<lambda>_. False"] exI [of _ "\<lambda>_. True"])
  then have delete: "keeps I (deleteDelegates e c)" for c
    unfolding deleteDelegates_def GetDelegateListByChannelIdentifier_def by (intro keeps_rules)
  show ?thesis
    by (cases st) (simp_all add: handleBlockNumber_def handles_block_number closed proof_updated delete
        handleSettledStateChange_def handleCooperativeSettledStateChange_def handleWithdrawStateChange_def
        handleTokenAddedStateChange_def keeps_returnA del: returnA_app)
qed

subsubsection \<open>Polls, queries and steps\<close>

lemma appends_dispose: "keeps I (appendDelegateAnnounceDispose e k ds)"
proof -
  have "keeps I (saveDisposes e k known ds)" for known
    by (induction ds) (simp_all del: returnA_app add: keeps_rules split: option.split)
  then show ?thesis unfolding appendDelegateAnnounceDispose_def by (intro keeps_rules)
qed

lemma polls: "keeps I (getNewTransfer e httpGet q)"
proof -
  have "keeps I (receiveTransfer e p mx)" for p mx
    unfolding receiveTransfer_def NewReceiveTransferFromReceiveTransfer_def GetReceivedTransfer_def
    by (intro keeps_rules deposits)
  then show ?thesis
    unfolding getNewTransfer_def Let_def
    by (auto intro!: keeps_rules simp del: returnA_app split: smtResponse.split)
qed

lemma queries: "keeps I (Fee e path)" "keeps I (Tx e blank newAPIResponse path channel)"
  unfolding Fee_def Tx_def GetDelegateByKey_def GetDelegatePunishListByDelegateKey_def
    GetDelegateAnnounceDisposeListByDelegateKey_def
  by (intro keeps_rules)+

lemma restarts: "I w \<Longrightarrow> I (survives r w)" "I w \<Longrightarrow> I (restart w)"
  using deeds_fewer [of "goroutines w" "txs w" "[]"]
  by (auto simp: survives_def restart_def parts split: outcome.split)

lemma runs_nth:
  assumes "I w" "i < length (goroutines w)"
  shows "I (snd (runNth e i w))"
proof -
  have rest: "set (take i (goroutines w) @ drop (Suc i) (goroutines w)) \<subseteq> set (goroutines w)"
    using set_take_subset [of i "goroutines w"] set_drop_subset [of "Suc i" "goroutines w"] by auto
  have "I (w\<lparr>goroutines := take i (goroutines w) @ drop (Suc i) (goroutines w)\<rparr>)"
    using assms(1) deeds_fewer [OF _ rest] by (simp add: parts)
  moreover have "held (subject (goroutines w ! i))" using assms deeds_held by (auto simp: parts)
  ultimately show ?thesis unfolding runNth_def by (intro keepsD [OF runs])
qed

lemma own_steps:
  assumes "own_step e penv (w, q) (w', q')" "I w"
  shows "I w'"
  using assms(1)
proof (cases rule: own_step_cases)
  case (chain_event st r w1)
  with keepsD [OF handles_event assms(2), of e st] restarts(1) show ?thesis by simp
next
  case (goroutine i r w1)
  with runs_nth [OF assms(2), of i e] restarts(1) show ?thesis by simp
next
  case (fee_query path r)
  with keepsD [OF queries(1) assms(2)] show ?thesis by (metis snd_conv)
next
  case (tx_query newAPIResponse path channel r)
  with keepsD [OF queries(2) assms(2)] show ?thesis by (metis snd_conv)
next
  case (poll httpGet r w1)
  with keepsD [OF polls assms(2), of penv httpGet q] restarts(1) show ?thesis by simp
next
  case crash
  with restarts(2) [OF assms(2)] show ?thesis by simp
qed

lemma step:
  assumes "service_step e penv (w, q) (w', q')" "I w"
    and request: "\<And>path payload. I (snd (Delegate e (Some (VerifyDelegate e)) path payload w))"
  shows "I w'"
  using assms(1)
proof (cases rule: service_step_cases)
  case own
  then show ?thesis using assms(2) by (rule own_steps)
next
  case (request path payload r)
  with assms(3) [of path payload] show ?thesis by (metis snd_conv)
qed

end

end
