(* ===== verification/PM_Authority.thy ===== *)
theory PM_Authority
  imports PM_Rows
begin

text \<open>
  Authority: the service never acts without a mandate.  Whatever it stores and whatever it sends to the chain originates
  in requests that verified, and so in signatures of the participants.

  The history \<open>h\<close> of a state is the list of the requests that were posted.  \<open>attested\<close> says of a row that its parts come from
  requests of the history that its own delegator posted and that verified, \<open>mandated\<close> says of a
  contract call that it executes a part of an attested row.  \<open>authorised\<close> joins them to an invariant of the running
  service, over the database, the started goroutines and the log of all calls that were sent.  It is kept by every step,
  whatever the database, the chain and the node do.
\<close>

subsection \<open>Mandates\<close>

text \<open>
  A request with this content was posted by the delegator \<open>a\<close>: it is in the history \<open>h\<close>, under a path that reads as his address.  (The settle
  block is not part of what is posted: the verification fills it in.)
\<close>

definition posted :: "post list \<Rightarrow> Address \<Rightarrow> channelFor3rd \<Rightarrow> bool" where
  "posted h a c \<longleftrightarrow> (\<exists>path n. (path, Inr (SetSettleBlockNumber n c)) \<in> set h \<and> HexToAddress path = a)"

text \<open>A request that the delegator \<open>a\<close> posted and that verifies, for the delegation with key \<open>k\<close>.\<close>

definition requests :: "env \<Rightarrow> post list \<Rightarrow> Address \<Rightarrow> byte list \<Rightarrow> channelFor3rd \<Rightarrow> bool" where
  "requests env h a k c \<longleftrightarrow> posted h a c \<and> verifyContent env c a = Ret None \<and> k = BuildDelegateKey (c_ChannelIdentifier c) a"

text \<open>The channel of a row was named by one request; its proof and locks were given, together, by one request.\<close>

definition openedBy :: "env \<Rightarrow> post list \<Rightarrow> delegate \<Rightarrow> channelFor3rd \<Rightarrow> bool" where
  "openedBy env h d c \<longleftrightarrow> requests env h (DelegatorAddress d) (d_Key d) c \<and> d_OpenBlockNumber d = c_OpenBlockNumber c \<and>
     TokenAddress d = c_TokenAddress c \<and> PartnerAddress d = c_PartnerAddress c"

definition provedBy :: "env \<Rightarrow> post list \<Rightarrow> delegate \<Rightarrow> channelFor3rd \<Rightarrow> bool" where
  "provedBy env h d c \<longleftrightarrow> requests env h (DelegatorAddress d) (d_Key d) c \<and>
     (DebugMode (env_params env) \<or> d_OpenBlockNumber d = c_OpenBlockNumber c) \<and>
     UpdateBalanceProof d = Ret (GetDelegateUpdateBalanceProof c) \<and> Unlocks d = GetDelegateUnlocks c"

definition secretsBy :: "env \<Rightarrow> post list \<Rightarrow> delegate \<Rightarrow> channelFor3rd \<Rightarrow> bool" where
  "secretsBy env h d c \<longleftrightarrow> requests env h (DelegatorAddress d) (d_Key d) c \<and> Secrets d = GetDeleteSecrets c"

definition proposed :: "env \<Rightarrow> post list \<Rightarrow> delegate \<Rightarrow> bool" where
  "proposed env h d \<longleftrightarrow> (\<exists>c. openedBy env h d c) \<and> (\<exists>c. provedBy env h d c)"

definition attested :: "env \<Rightarrow> post list \<Rightarrow> delegate \<Rightarrow> bool" where
  "attested env h d \<longleftrightarrow> proposed env h d \<and> (\<exists>c. secretsBy env h d c)"

definition evidenceOf :: "env \<Rightarrow> post list \<Rightarrow> delegatePunish \<Rightarrow> channelFor3rd \<Rightarrow> Address \<Rightarrow> punishReq \<Rightarrow> bool" where
  "evidenceOf env h p c a x \<longleftrightarrow> requests env h a (dp_DelegateKey p) c \<and> Some x \<in> set (c_Punishes c) \<and>
     p = (newPunish (dp_DelegateKey p) x)\<lparr>dp_ID := dp_ID p\<rparr>"

definition evidenced :: "env \<Rightarrow> post list \<Rightarrow> delegatePunish \<Rightarrow> bool" where
  "evidenced env h p \<longleftrightarrow> (\<exists>c a x. evidenceOf env h p c a x)"

text \<open>The four calls, each on a part of an attested row.\<close>

inductive mandated :: "env \<Rightarrow> post list \<Rightarrow> contractCall \<Rightarrow> bool" for env h where
  update: "attested env h d \<Longrightarrow> UpdateBalanceProof d = Ret du \<Longrightarrow> du_Nonce du > 0 \<Longrightarrow> mandated env h (updateCall d du)"
| unlock: "attested env h d \<Longrightarrow> UpdateBalanceProof d = Ret du \<Longrightarrow> Unlocks d = Ret us \<Longrightarrow> dl \<in> set us \<Longrightarrow>
     mandated env h (unlockCall d (TransferAmount du) dl)"
| punish: "attested env h d \<Longrightarrow> evidenced env h p \<Longrightarrow> dp_DelegateKey p = d_Key d \<Longrightarrow> mandated env h (punishCall d p)"
| secret: "attested env h d \<Longrightarrow> Secrets d = Ret ss \<Longrightarrow> ds \<in> set ss \<Longrightarrow> mandated env h (RegisterSecret (GetSecret ds))"

definition tables_attested :: "env \<Rightarrow> post list \<Rightarrow> modeldb \<Rightarrow> bool" where
  "tables_attested env h db \<longleftrightarrow> (\<forall>d \<in> set (tDelegate db). attested env h d) \<and> (\<forall>p \<in> set (tPunish db). evidenced env h p)"

text \<open>The part of the invariant that no statement changes: the started work and the log of the calls.\<close>

definition deeds_ok :: "env \<Rightarrow> post list \<Rightarrow> goroutine list \<Rightarrow> contractCall list \<Rightarrow> bool" where
  "deeds_ok env h gs calls \<longleftrightarrow> (\<forall>g \<in> set gs. attested env h (subject g)) \<and> (\<forall>call \<in> set calls. mandated env h call)"

definition authorised :: "env \<Rightarrow> post list \<Rightarrow> world \<Rightarrow> bool" where
  "authorised env h w \<longleftrightarrow> tables_attested env h (store w) \<and> deeds_ok env h (goroutines w) (txs w)"

lemmas row_defs = openedBy_def provedBy_def secretsBy_def UpdateBalanceProof_def Unlocks_def Secrets_def
  DelegatorAddress_def TokenAddress_def PartnerAddress_def

lemma attested_columns [simp]:
  "attested env h (d\<lparr>d_Status := s\<rparr>) = attested env h d" "attested env h (d\<lparr>d_Error := e\<rparr>) = attested env h d"
  "attested env h (d\<lparr>d_SettleBlockNumber := n\<rparr>) = attested env h d"
  by (simp_all add: attested_def proposed_def row_defs)

lemma proposed_columns [simp]:
  "proposed env h (d\<lparr>d_NeedSMTStr := s\<rparr>) = proposed env h d" "proposed env h (d\<lparr>d_SecretsGob := ss\<rparr>) = proposed env h d"
  "proposed env h (d\<lparr>d_DelegateTimestamp := t, d_DelegateBlockNumber := b\<rparr>) = proposed env h d"
  by (simp_all add: proposed_def row_defs)

lemma attested_key:
  assumes "attested env h d"
  obtains c where "d_Key d = BuildDelegateKey c (DelegatorAddress d)"
  using assms by (auto simp: attested_def proposed_def openedBy_def requests_def)

lemma attested_key_nonempty [simp]: "attested env h d \<Longrightarrow> d_Key d \<noteq> []"
  by (erule attested_key) simp

text \<open>A longer history takes nothing back.\<close>

lemma posted_more: "posted h a c \<Longrightarrow> posted (h @ h') a c"
  by (auto simp: posted_def)

lemma requests_more: "requests env h a k c \<Longrightarrow> requests env (h @ h') a k c"
  by (simp add: requests_def posted_more)

lemma attested_more: "attested env h d \<Longrightarrow> attested env (h @ h') d"
  unfolding attested_def proposed_def openedBy_def provedBy_def secretsBy_def by (blast intro: requests_more)

lemma evidenced_more: "evidenced env h p \<Longrightarrow> evidenced env (h @ h') p"
  unfolding evidenced_def evidenceOf_def by (blast intro: requests_more)

lemma mandated_more: "mandated env h call \<Longrightarrow> mandated env (h @ h') call"
  by (induction rule: mandated.induct) (blast intro: mandated.intros attested_more evidenced_more)+

lemma authorised_more: "authorised env h w \<Longrightarrow> authorised env (h @ h') w"
  by (auto simp: authorised_def tables_attested_def deeds_ok_def intro: attested_more evidenced_more mandated_more)

subsection \<open>The contract\<close>

lemma tables_saveDelegate: "tables_attested env h db \<Longrightarrow> attested env h d \<Longrightarrow> tables_attested env h (saveDelegate d db)"
  using set_gorm_save [of blankList d_Key d "tDelegate db"] by (auto simp: tables_attested_def saveDelegate_def)

interpretation authority: row_invariant "authorised env h" "tables_attested env h" "deeds_ok env h" "attested env h" "attested env h"
    "\<lambda>k p. evidenced env h p \<and> dp_DelegateKey p = k" "mandated env h" for env h
proof
  show "tables_attested env h (db\<lparr>tDelegate := gorm_update_column blankList d_Key k (\<lambda>r. r\<lparr>d_Status := DelegateStatusRunning\<rparr>) (tDelegate db)\<rparr>)"
    if "tables_attested env h db" for db k
    using that by (auto simp: tables_attested_def gorm_update_column_def)
  show "tables_attested env h (saveDelegate d db)" if "tables_attested env h db" "attested env h d" for d db
    using that by (rule tables_saveDelegate)
qed (auto simp: authorised_def tables_attested_def deeds_ok_def gorm_where_def intro: mandated.intros split: if_splits)

subsection \<open>Requests\<close>

lemma verifyContent_settle [simp]: "verifyContent env (SetSettleBlockNumber n c) a = Ret None \<longleftrightarrow> verifyContent env c a = Ret None"
  by (simp add: verifyContent_iff SetSettleBlockNumber_def proofVerified_def unlockVerified_def punishVerified_def
      closingMessage_def nonClosingMessage_def unlockMessage_def punishMessage_def)

lemma authorised_appendDelegatePunish:
  assumes "requests env h a k c"
  shows "keeps (authorised env h) (appendDelegatePunish e k (c_Punishes c))"
proof -
  have insert: "tables_attested env h (insertPunish (newPunish k x) s)" if "tables_attested env h s" "Some x \<in> set (c_Punishes c)" for x s
    using that assms by (auto simp: tables_attested_def insertPunish_def evidenced_def evidenceOf_def newPunish_def)
  have "keeps (authorised env h) (savePunishes e k known ps)" if "set ps \<subseteq> set (c_Punishes c)" for known ps
    using that
    by (induction ps)
      (auto intro!: keeps_returnA keeps_panicA keeps_bindA authority.writes insert simp del: returnA_app panicA_app
        split: option.split)
  then show ?thesis unfolding appendDelegatePunish_def by (intro keeps_rules) simp
qed

lemma authorised_firstDelegate:
  assumes "requests env h a (BuildDelegateKey (c_ChannelIdentifier c) a) c"
  shows "safe True (authorised env h) (firstDelegate env c a l)
     (\<lambda>d. proposed env h d \<and> requests env h (DelegatorAddress d) (d_Key d) c)"
  unfolding firstDelegate_def Let_def
  by (intro safe_decode secure_bindA [OF keeps_secure] safe_returnA keeps_rules)
    (use assms in \<open>auto simp: proposed_def row_defs gobDecode_def SetUpdateBalanceProof_def SetUnlocks_def\<close>)

text \<open>An update replaces the proof and the locks together, or neither.\<close>

lemma authorised_existingDelegate:
  assumes "proposed env h d" "requests env h (DelegatorAddress d) (d_Key d) c"
  shows "safe True (authorised env h) (existingDelegate env c l d)
     (\<lambda>r. case r of Inl _ \<Rightarrow> True | Inr d' \<Rightarrow> proposed env h d' \<and> requests env h (DelegatorAddress d') (d_Key d') c)"
proof -
  let ?Q = "\<lambda>r. case r of Inl _ \<Rightarrow> True | Inr d' \<Rightarrow> proposed env h d' \<and> requests env h (DelegatorAddress d') (d_Key d') c"
  have new: "?Q (Inr (SetUnlocks us (SetUpdateBalanceProof (GetDelegateUpdateBalanceProof c) d)))"
    if "DebugMode (env_params env) \<or> c_OpenBlockNumber c = d_OpenBlockNumber d" "GetDelegateUnlocks c = Ret us" for us
    using that assms by (auto simp: proposed_def row_defs gobDecode_def SetUpdateBalanceProof_def SetUnlocks_def)
  show ?thesis
    unfolding existingDelegate_def Let_def
    by (intro safe_if safe_returnA safe_bindA [where R = ?Q] safe_decode secure_bindA [OF keeps_secure] safe_case_option
        safe_case_sum keeps_rules) (use assms new in \<open>auto simp: row_defs\<close>)
qed


lemma authorised_finishDelegate:
  assumes "proposed env h d" "requests env h (DelegatorAddress d) (d_Key d) c"
  shows "keeps (authorised env h) (finishDelegate env c x d old)"
proof -
  have row: "attested env h d'" if "GetDeleteSecrets c = Ret ss" "CalcNeedSMT (env_params env) x (SetSecrets ss d) = Ret d'" for ss d'
  proof -
    have "\<exists>need. d' = d\<lparr>d_SecretsGob := Some ss, d_NeedSMTStr := need\<rparr>"
      using that(2) by (auto simp: CalcNeedSMT_def SetSecrets_def Let_def split: outcome.splits)
    then show ?thesis
      using assms that(1) by (auto simp: attested_def) (auto simp: row_defs gobDecode_def)
  qed
  then show ?thesis
    unfolding finishDelegate_def
    by (intro keeps_decode keeps_bindA authority.writes keeps_returnA tables_saveDelegate)
qed

lemma authorised_updateDelegate:
  assumes "requests env h a (BuildDelegateKey (c_ChannelIdentifier c) a) c"
  shows "keeps (authorised env h) (updateDelegate env c a l x)"
proof -
  let ?k = "BuildDelegateKey (c_ChannelIdentifier c) a"
  let ?P = "\<lambda>r. case r of Inl _ \<Rightarrow> True | Inr d \<Rightarrow> proposed env h d \<and> requests env h (DelegatorAddress d) (d_Key d) c"
  have row: "proposed env h d \<and> requests env h (DelegatorAddress d) (d_Key d) c" if d: "attested env h d" "d_Key d = ?k" for d
  proof -
    obtain c' where "d_Key d = BuildDelegateKey c' (DelegatorAddress d)" using d(1) by (rule attested_key)
    then have "DelegatorAddress d = a" using d(2) by (simp add: BuildDelegateKey_inject)
    with d assms show ?thesis by (simp add: attested_def)
  qed
  have rows: "safe True (authorised env h) (db_query env (\<lambda>db. gorm_find (gorm_where blankList d_Key ?k (tDelegate db)))) ?P"
    using last_in_set
    by (intro authority.reads) (fastforce simp: authorised_def tables_attested_def gorm_find_def gorm_where_def intro!: row)+
  have first: "keeps (authorised env h) (bindA (firstDelegate env c a l) (\<lambda>d. finishDelegate env c x d 0))"
    using authorised_finishDelegate by (intro keeps_read [OF authorised_firstDelegate [OF assms]]) auto
  have existing: "keeps (authorised env h) (bindA (existingDelegate env c l d) (\<lambda>r.
         case r of Inl e \<Rightarrow> returnA (Inl e) | Inr d \<Rightarrow> finishDelegate env c x d old))"
    if "proposed env h d" "requests env h (DelegatorAddress d) (d_Key d) c" for d old
    by (rule keeps_read [OF authorised_existingDelegate [OF that]])
      (auto intro: keeps_returnA authorised_finishDelegate simp del: returnA_app split: sum.splits)
  show ?thesis
    unfolding updateDelegate_def Let_def
    by (rule keeps_read [OF rows])
      (auto intro!: first existing keeps_returnA simp del: returnA_app split: sum.splits error.split)
qed

lemma authorised_ReceiveDelegate:
  assumes "posted h a c" "verifyContent env c a = Ret None"
  shows "keeps (authorised env h) (ReceiveDelegate env c a)"
proof -
  have "requests env h a (BuildDelegateKey (c_ChannelIdentifier c) a) c" using assms by (simp add: requests_def)
  then show ?thesis
    unfolding ReceiveDelegate_def Let_def
    by (intro keeps_rules authorised_appendDelegatePunish authority.appends_dispose authorised_updateDelegate)
qed

text \<open>The handler stores a request only after it verified.\<close>

lemma authorised_Delegate:
  assumes "(path, payload) \<in> set h"
  shows "keeps (authorised env h) (Delegate env (Some (VerifyDelegate env)) path payload)"
proof -
  have verify: "safe True (authorised env h) (VerifyDelegate env c (HexToAddress path))
      (\<lambda>r. case r of Inl _ \<Rightarrow> True | Inr c' \<Rightarrow> posted h (HexToAddress path) c' \<and> verifyContent env c' (HexToAddress path) = Ret None)"
    if payload: "payload = Inr c" for c
  proof (rule safeI)
    let ?a = "HexToAddress path"
    fix w assume w: "authorised env h w"
    obtain r w' where v: "VerifyDelegate env c ?a w = (r, w')" by (cases "VerifyDelegate env c ?a w")
    have "w' = tick w \<or> w' = tick (tick w)"
      using v by (auto simp: VerifyDelegate_def split: option.splits sum.splits outcome.splits if_splits)
    moreover have "posted h ?a c' \<and> verifyContent env c' ?a = Ret None" if r: "r = Ret (Inr c')" for c'
    proof -
      note acc = VerifyDelegate_accepts(2,3) [OF v [unfolded r]]
      obtain n where c': "c' = SetSettleBlockNumber n c" using acc(2) by blast
      have "SetSettleBlockNumber (c_settleBlockNumber c) c' = c" by (simp add: c' SetSettleBlockNumber_def)
      then have "posted h ?a c'" using assms payload unfolding posted_def by metis
      then show ?thesis using acc(1) c' by simp
    qed
    ultimately show "authorised env h (snd (VerifyDelegate env c ?a w)) \<and> (case fst (VerifyDelegate env c ?a w) of
        Ret r \<Rightarrow> (case r of Inl _ \<Rightarrow> True | Inr c' \<Rightarrow> posted h ?a c' \<and> verifyContent env c' ?a = Ret None) | Panic _ \<Rightarrow> True)"
      using w v by (auto simp: authorised_def split: outcome.split sum.split)
  qed
  show ?thesis
    unfolding Delegate_def Let_def option.case
    by (intro keeps_if keeps_case_sum keeps_returnA keeps_read [OF verify] keeps_bindA authorised_ReceiveDelegate
        authority.accounts) simp_all
qed

lemma history_authorised: "service_history env penv h s \<Longrightarrow> authorised env h (fst s)"
proof (induction rule: service_history.induct)
  case (start w url)
  then show ?case by (simp add: authorised_def tables_attested_def deeds_ok_def emptyDb_def)
next
  case (own h s s')
  then show ?case using authority.own_steps by (cases s; cases s') fastforce
next
  case (request h w q path payload r w')
  have "authorised env (h @ [(path, payload)]) w" using authorised_more request.IH by simp
  from keepsD [OF authorised_Delegate this, of path payload] request.hyps(2) show ?case by simp
qed

subsection \<open>What a mandate says\<close>

text \<open>
  A request the delegator posted and that verified, and one, posted by the same delegator for the same channel and verified, that named the
  token and the partner of the call.
\<close>

definition commissioned :: "env \<Rightarrow> post list \<Rightarrow> Address \<Rightarrow> Address \<Rightarrow> Address \<Rightarrow> channelFor3rd \<Rightarrow> bool" where
  "commissioned env h token partner delegator c \<longleftrightarrow> posted h delegator c \<and> verifyContent env c delegator = Ret None \<and>
     (\<exists>c0. posted h delegator c0 \<and> verifyContent env c0 delegator = Ret None \<and> c_ChannelIdentifier c0 = c_ChannelIdentifier c \<and>
        c_TokenAddress c0 = token \<and> c_PartnerAddress c0 = partner)"

lemma mapOutcome_in: "mapOutcome f xs = Ret ys \<Longrightarrow> y \<in> set ys \<Longrightarrow> \<exists>x \<in> set xs. f x = Ret y"
  by (induction xs arbitrary: ys) (auto split: outcome.splits)

lemma attested_commissioned:
  assumes "attested env h d" "requests env h (DelegatorAddress d) (d_Key d) c"
  shows "commissioned env h (TokenAddress d) (PartnerAddress d) (DelegatorAddress d) c"
  using assms by (auto simp: attested_def proposed_def openedBy_def requests_def commissioned_def BuildDelegateKey_inject)

lemma attested_proof:
  assumes "attested env h d"
  obtains c where "requests env h (DelegatorAddress d) (d_Key d) c"
    "DebugMode (env_params env) \<or> d_OpenBlockNumber d = c_OpenBlockNumber c"
    "UpdateBalanceProof d = Ret (GetDelegateUpdateBalanceProof c)" "Unlocks d = GetDelegateUnlocks c"
  using assms by (auto simp: attested_def proposed_def provedBy_def)

lemma verified_proof:
  assumes "verifyContent env c a = Ret None" "ut_Nonce (c_UpdateTransfer c) > 0"
  shows "proofVerified env c a" "\<exists>amount. ut_TransferAmount (c_UpdateTransfer c) = Some amount"
    "\<And>p. p \<in> set (c_Unlocks c) \<Longrightarrow> unlockVerified env c a p"
proof -
  show p: "proofVerified env c a" and "\<And>p. p \<in> set (c_Unlocks c) \<Longrightarrow> unlockVerified env c a p"
    using assms unfolding verifyContent_iff by blast+
  from p show "\<exists>amount. ut_TransferAmount (c_UpdateTransfer c) = Some amount"
    by (cases "ut_TransferAmount (c_UpdateTransfer c)")
      (simp_all add: proofVerified_def closingMessage_def BigIntTo32Bytes_def)
qed

lemma proof_fields:
  "du_Nonce (GetDelegateUpdateBalanceProof c) = ut_Nonce (c_UpdateTransfer c)"
  "TransferAmount (GetDelegateUpdateBalanceProof c) = (case ut_TransferAmount (c_UpdateTransfer c) of None \<Rightarrow> 0 | Some x \<Rightarrow> x)"
  "Locksroot (GetDelegateUpdateBalanceProof c) = ut_Locksroot (c_UpdateTransfer c)"
  "ExtraHash (GetDelegateUpdateBalanceProof c) = ut_ExtraHash (c_UpdateTransfer c)"
  "du_ClosingSignature (GetDelegateUpdateBalanceProof c) = ut_ClosingSignature (c_UpdateTransfer c)"
  "du_NonClosingSignature (GetDelegateUpdateBalanceProof c) = ut_NonClosingSignature (c_UpdateTransfer c)"
  by (simp_all add: GetDelegateUpdateBalanceProof_def Let_def TransferAmount_def Locksroot_def ExtraHash_def BigIntToString_def
      split: option.split)

lemma unlock_fields:
  assumes "GetDelegateUnlocks c = Ret us" "dl \<in> set us"
  obtains u l where "Some u \<in> set (c_Unlocks c)" "un_Lock u = Some l" "dl_Expiration dl = Lock_Expiration l"
    "dl_Amount dl = (case Lock_Amount l of None \<Rightarrow> 0 | Some x \<Rightarrow> x)" "dl_LockSecretHash dl = Lock_LockSecretHash l"
    "dl_MerkleProof dl = un_MerkleProof u" "dl_Signature dl = un_Signature u"
proof -
  obtain p where p: "p \<in> set (c_Unlocks c)" "toDelegateUnlock p = Ret dl"
    using mapOutcome_in [OF assms(1) [unfolded GetDelegateUnlocks_def] assms(2)] by (elim bexE)
  have "\<exists>u l. p = Some u \<and> un_Lock u = Some l" using p(2) by (auto simp: toDelegateUnlock_def split: option.splits)
  then obtain u l where ul: "Some u \<in> set (c_Unlocks c)" "un_Lock u = Some l" "toDelegateUnlock (Some u) = Ret dl"
    using p by blast
  have "dl_Amount dl = (case Lock_Amount l of None \<Rightarrow> 0 | Some x \<Rightarrow> x)"
    using ul(2,3) by (cases "Lock_Amount l") (auto simp: toDelegateUnlock_def dl_Amount_def BigIntToString_def)
  moreover have "dl_Expiration dl = Lock_Expiration l" "dl_LockSecretHash dl = Lock_LockSecretHash l"
      "dl_MerkleProof dl = un_MerkleProof u" "dl_Signature dl = un_Signature u"
    using ul(2,3) by (auto simp: toDelegateUnlock_def dl_LockSecretHash_def)
  ultimately show ?thesis using that ul(1,2) by blast
qed

lemma mandated_update:
  assumes "mandated env h (UpdateBalanceProofDelegate token partner delegator amount locksroot nonce extraHash closing nonClosing)"
  shows "\<exists>c u. commissioned env h token partner delegator c \<and> u = c_UpdateTransfer c \<and> ut_Nonce u > 0 \<and>
     nonce = word_of_int (ut_Nonce u) \<and> ut_TransferAmount u = Some amount \<and> locksroot = ut_Locksroot u \<and>
     extraHash = ut_ExtraHash u \<and> closing = ut_ClosingSignature u \<and> nonClosing = ut_NonClosingSignature u \<and>
     signedBy env (closingMessage env c) closing (c_PartnerAddress c) \<and>
     signedBy env (nonClosingMessage env c) nonClosing delegator \<and> c_PartnerAddress c \<noteq> delegator"
  using assms
proof (cases rule: mandated.cases)
  case (update d du)
  obtain c where c: "requests env h (DelegatorAddress d) (d_Key d) c" "UpdateBalanceProof d = Ret (GetDelegateUpdateBalanceProof c)"
    using attested_proof [OF update(2)] by blast
  have du: "du = GetDelegateUpdateBalanceProof c" using c(2) update(3) by simp
  have "verifyContent env c (DelegatorAddress d) = Ret None" using c(1) by (simp add: requests_def)
  note v = verified_proof [OF this] and fields = proof_fields [of c]
  have "ut_Nonce (c_UpdateTransfer c) > 0" using update(4) du fields(1) by simp
  with v attested_commissioned [OF update(2) c(1)] update(1) fields show ?thesis
    by (auto simp: updateCall_def du proofVerified_def)
qed (simp_all add: unlockCall_def punishCall_def)

lemma mandated_unlock:
  assumes "mandated env h (UnlockDelegate token partner delegator transferAmount expiration amount secretHash merkleProof sig)"
  shows "\<exists>c u l. commissioned env h token partner delegator c \<and> Some u \<in> set (c_Unlocks c) \<and> un_Lock u = Some l \<and>
     transferAmount = (case ut_TransferAmount (c_UpdateTransfer c) of None \<Rightarrow> 0 | Some x \<Rightarrow> x) \<and>
     expiration = Lock_Expiration l \<and> amount = (case Lock_Amount l of None \<Rightarrow> 0 | Some x \<Rightarrow> x) \<and>
     secretHash = Lock_LockSecretHash l \<and> merkleProof = un_MerkleProof u \<and> sig = un_Signature u \<and>
     (ut_Nonce (c_UpdateTransfer c) > 0 \<longrightarrow> proofVerified env c delegator \<and> signedBy env (unlockMessage env l c) sig delegator)"
  using assms
proof (cases rule: mandated.cases)
  case (unlock d du us dl)
  obtain c where c: "requests env h (DelegatorAddress d) (d_Key d) c" "UpdateBalanceProof d = Ret (GetDelegateUpdateBalanceProof c)"
      "Unlocks d = GetDelegateUnlocks c"
    using attested_proof [OF unlock(2)] by blast
  have du: "du = GetDelegateUpdateBalanceProof c" using c(2) unlock(3) by simp
  have "GetDelegateUnlocks c = Ret us" using c(3) unlock(4) by simp
  from unlock_fields [OF this unlock(5)] obtain u l where
    u: "Some u \<in> set (c_Unlocks c)" "un_Lock u = Some l" "dl_Expiration dl = Lock_Expiration l"
      "dl_Amount dl = (case Lock_Amount l of None \<Rightarrow> 0 | Some x \<Rightarrow> x)" "dl_LockSecretHash dl = Lock_LockSecretHash l"
      "dl_MerkleProof dl = un_MerkleProof u" "dl_Signature dl = un_Signature u" .
  have content: "verifyContent env c (DelegatorAddress d) = Ret None" using c(1) by (simp add: requests_def)
  have "proofVerified env c delegator \<and> signedBy env (unlockMessage env l c) sig delegator"
    if "ut_Nonce (c_UpdateTransfer c) > 0"
    using verified_proof(1,3) [OF content that] u(1,2,7) unlock(1)
    by (force simp: unlockCall_def du unlockVerified_def)
  then show ?thesis
    using attested_commissioned [OF unlock(2) c(1)] unlock(1) u proof_fields(2) [of c] by (auto simp: unlockCall_def du)
qed (simp_all add: updateCall_def punishCall_def)

lemma mandated_punish:
  assumes "mandated env h (PunishObsoleteUnlock token delegator partner lockHash additionalHash sig)"
  shows "\<exists>c x. commissioned env h token partner delegator c \<and> Some x \<in> set (c_Punishes c) \<and>
     lockHash = pu_LockHash x \<and> additionalHash = pu_AdditionalHash x \<and> sig = pu_Signature x \<and>
     signedBy env (punishMessage env x c) sig (c_PartnerAddress c)"
  using assms
proof (cases rule: mandated.cases)
  case (punish d p)
  obtain c a x where e: "evidenceOf env h p c a x" using punish(3) by (auto simp: evidenced_def)
  obtain k where "d_Key d = BuildDelegateKey k (DelegatorAddress d)" using punish(2) by (rule attested_key)
  then have "a = DelegatorAddress d" using e punish(4) by (simp add: evidenceOf_def requests_def BuildDelegateKey_inject)
  then have c: "requests env h (DelegatorAddress d) (d_Key d) c" "Some x \<in> set (c_Punishes c)"
    using e punish(4) by (simp_all add: evidenceOf_def)
  have "punishVerified env c (Some x)" using c unfolding requests_def verifyContent_iff by blast
  moreover have "p = (newPunish (dp_DelegateKey p) x)\<lparr>dp_ID := dp_ID p\<rparr>" using e by (simp add: evidenceOf_def)
  then have "dp_LockHash p = pu_LockHash x" "dp_AdditionalHash p = pu_AdditionalHash x" "dp_Signature p = pu_Signature x"
    by (metis (no_types) newPunish_def delegatePunish.select_convs delegatePunish.update_convs(1) dp_LockHash_def
        dp_AdditionalHash_def HexToHash_String)+
  ultimately show ?thesis
    using attested_commissioned [OF punish(2) c(1)] c(2) punish(1) by (auto simp: punishCall_def punishVerified_def)
qed (simp_all add: updateCall_def unlockCall_def)

lemma mandated_secret:
  assumes "mandated env h (RegisterSecret s)"
  shows "\<exists>c a x. posted h a c \<and> verifyContent env c a = Ret None \<and> Some x \<in> set (c_Secrets c) \<and> s = se_Secret x \<and> s \<noteq> 0"
  using assms
proof (cases rule: mandated.cases)
  case (secret d ss ds)
  obtain c where c: "requests env h (DelegatorAddress d) (d_Key d) c" "GetDeleteSecrets c = Ret ss"
    using secret(2,3) by (auto simp: attested_def secretsBy_def)
  have content: "posted h (DelegatorAddress d) c" "verifyContent env c (DelegatorAddress d) = Ret None"
    using c(1) by (simp_all add: requests_def)
  obtain x where x: "Some x \<in> set (c_Secrets c)" "GetSecret ds = se_Secret x"
    using mapOutcome_in [OF c(2) [unfolded GetDeleteSecrets_def] secret(4)]
    by (auto simp: toDelegateSecret_def GetSecret_def split: option.splits)
  have "se_Secret x \<noteq> 0" using content(2) x(1) unfolding verifyContent_iff by force
  then show ?thesis using content x secret(1) by auto
qed (simp_all add: updateCall_def unlockCall_def punishCall_def)

subsection \<open>Properties\<close>

text \<open>
  C3. No transaction without a mandate.  Let \<open>h\<close> be all requests ever posted to the service, over restarts and whatever the database, the
  chain and the node did.  Every call the service ever sent executes a request in \<open>h\<close> that its delegator posted and that verified, and names the
  token and the partner of a verified request in \<open>h\<close> of the same delegator for the same channel.  A submitted balance proof, with both its signatures,
  is the one of the request, has a nonce above 0, and the signatures are the partner's and the delegator's; an unlock is a lock of the request,
  field for field and with the amount of the proof handed in with it, and if that proof was given (nonce above 0) the delegator signed the
  lock; a punish evidence is one of the request and signed by the partner; a registered secret is one of the request and not 0.
\<close>
theorem every_transaction_has_mandate:
  assumes "service_history env penv h (w, q)" "call \<in> set (txs w)"
  shows "case call of
       UpdateBalanceProofDelegate token partner delegator amount locksroot nonce extraHash closing nonClosing \<Rightarrow>
         \<exists>c u. commissioned env h token partner delegator c \<and> u = c_UpdateTransfer c \<and> ut_Nonce u > 0 \<and>
           nonce = word_of_int (ut_Nonce u) \<and> ut_TransferAmount u = Some amount \<and> locksroot = ut_Locksroot u \<and>
           extraHash = ut_ExtraHash u \<and> closing = ut_ClosingSignature u \<and> nonClosing = ut_NonClosingSignature u \<and>
           signedBy env (closingMessage env c) closing (c_PartnerAddress c) \<and>
           signedBy env (nonClosingMessage env c) nonClosing delegator \<and> c_PartnerAddress c \<noteq> delegator
     | UnlockDelegate token partner delegator transferAmount expiration amount secretHash merkleProof sig \<Rightarrow>
         \<exists>c u l. commissioned env h token partner delegator c \<and> Some u \<in> set (c_Unlocks c) \<and> un_Lock u = Some l \<and>
           transferAmount = (case ut_TransferAmount (c_UpdateTransfer c) of None \<Rightarrow> 0 | Some x \<Rightarrow> x) \<and>
           expiration = Lock_Expiration l \<and> amount = (case Lock_Amount l of None \<Rightarrow> 0 | Some x \<Rightarrow> x) \<and>
           secretHash = Lock_LockSecretHash l \<and> merkleProof = un_MerkleProof u \<and> sig = un_Signature u \<and>
           (ut_Nonce (c_UpdateTransfer c) > 0 \<longrightarrow> proofVerified env c delegator \<and> signedBy env (unlockMessage env l c) sig delegator)
     | PunishObsoleteUnlock token delegator partner lockHash additionalHash sig \<Rightarrow>
         \<exists>c x. commissioned env h token partner delegator c \<and> Some x \<in> set (c_Punishes c) \<and>
           lockHash = pu_LockHash x \<and> additionalHash = pu_AdditionalHash x \<and> sig = pu_Signature x \<and>
           signedBy env (punishMessage env x c) sig (c_PartnerAddress c)
     | RegisterSecret s \<Rightarrow>
         \<exists>c a x. posted h a c \<and> verifyContent env c a = Ret None \<and> Some x \<in> set (c_Secrets c) \<and> s = se_Secret x \<and> s \<noteq> 0"
proof -
  have "mandated env h call" using history_authorised [OF assms(1)] assms(2) by (simp add: authorised_def deeds_ok_def)
  then show ?thesis
    using mandated_update mandated_unlock mandated_punish mandated_secret
    by (cases call) (simp_all only: contractCall.case)
qed

text \<open>
  C5. Every stored delegation, and every one a goroutine works on, comes from requests in the history \<open>h\<close> that its delegator posted, for its channel, and
  that verified.  One of them gave its token, its partner and its opening block; one gave its proof and its locks
  together (and named its opening block, unless in debug mode), so that a proof with a nonce above 0 is signed by both participants of
  that request and each of its locks by the delegator; one gave its secrets.  No
  interleaving of updates, crashes, failing statements and status changes mixes the proof of one request with the locks of another.  (The service
  does not compare the partner an update names with the partner of the row.)
\<close>
theorem stored_delegations_are_signed:
  assumes "service_history env penv h (w, q)" "d \<in> set (tDelegate (store w)) \<union> subject ` set (goroutines w)"
  defines "own \<equiv> (\<lambda>c. posted h (DelegatorAddress d) c \<and> verifyContent env c (DelegatorAddress d) = Ret None \<and>
      d_Key d = BuildDelegateKey (c_ChannelIdentifier c) (DelegatorAddress d))"
  shows "(\<exists>c. own c \<and> TokenAddress d = c_TokenAddress c \<and> PartnerAddress d = c_PartnerAddress c \<and> d_OpenBlockNumber d = c_OpenBlockNumber c) \<and>
     (\<exists>c. own c \<and> (\<not> DebugMode (env_params env) \<longrightarrow> c_OpenBlockNumber c = d_OpenBlockNumber d) \<and>
        UpdateBalanceProof d = Ret (GetDelegateUpdateBalanceProof c) \<and> Unlocks d = GetDelegateUnlocks c \<and>
        (ut_Nonce (c_UpdateTransfer c) > 0 \<longrightarrow> proofVerified env c (DelegatorAddress d) \<and>
           (\<forall>p \<in> set (c_Unlocks c). unlockVerified env c (DelegatorAddress d) p))) \<and>
     (\<exists>c. own c \<and> Secrets d = GetDeleteSecrets c)"
proof -
  have own: "own c \<longleftrightarrow> requests env h (DelegatorAddress d) (d_Key d) c" for c by (simp add: own_def requests_def)
  have att: "attested env h d"
    using history_authorised [OF assms(1)] assms(2) by (auto simp: authorised_def tables_attested_def deeds_ok_def)
  obtain c where c: "requests env h (DelegatorAddress d) (d_Key d) c"
      "DebugMode (env_params env) \<or> d_OpenBlockNumber d = c_OpenBlockNumber c"
      "UpdateBalanceProof d = Ret (GetDelegateUpdateBalanceProof c)" "Unlocks d = GetDelegateUnlocks c"
    using att by (rule attested_proof)
  have "ut_Nonce (c_UpdateTransfer c) > 0 \<longrightarrow> proofVerified env c (DelegatorAddress d) \<and>
        (\<forall>p \<in> set (c_Unlocks c). unlockVerified env c (DelegatorAddress d) p)"
    using c(1) verified_proof(1,3) [of env c "DelegatorAddress d"] by (simp add: requests_def)
  with c have "\<exists>c. own c \<and> (\<not> DebugMode (env_params env) \<longrightarrow> c_OpenBlockNumber c = d_OpenBlockNumber d) \<and>
        UpdateBalanceProof d = Ret (GetDelegateUpdateBalanceProof c) \<and> Unlocks d = GetDelegateUnlocks c \<and>
        (ut_Nonce (c_UpdateTransfer c) > 0 \<longrightarrow> proofVerified env c (DelegatorAddress d) \<and>
           (\<forall>p \<in> set (c_Unlocks c). unlockVerified env c (DelegatorAddress d) p))"
    by (intro exI [of _ c]) (auto simp: own)
  with att show ?thesis by (auto simp: own attested_def proposed_def openedBy_def secretsBy_def)
qed

subsection \<open>Concrete application\<close>

text \<open>
  A service that charges nothing, and the chain that accepts every call: the goroutine of the accepted delegation submits its proof.
\<close>

definition freeParams :: params where
  "freeParams = initParams\<lparr>SmtUnlock := 0, SmtUpdateTransfer := 0, SmtPunish := 0, SmtSecret := 0\<rparr>"

lemma freeParams_ok [simp]: "fees_ok freeParams" "RevealTimeout freeParams = 30" "SmtUpdateTransfer freeParams = 0"
  by (simp_all add: freeParams_def fees_ok_def initParams_def)

lemma closed_chain [simp]:
  "env_submit (closedEnv p) n call = Inr 1" "env_wait (closedEnv p) n h = Inr True" "env_TokenNetwork quietEnv n t = None"
  by (simp_all add: closedEnv_def signingEnv_def quietEnv_def)

lemma closed_update_succeeds:
  assumes "doUpdateBalanceProof (closedEnv p) d du v = (Ret r, v')" "ce_blockNumber v \<noteq> None"
  shows "succeeded r"
  using assms
  by (auto simp: doUpdateBalanceProof_def NewDelegateExecuteRecord_def deferSave_def onTokenNetwork_def TokenNetwork_def
      executeTx_def submitTx_def WaitMined_def Let_def succeeded_def bindA_def)

text \<open>The started goroutine has the proof of \<open>signedRequest\<close>, no locks, and a fee of 0, which every account covers.\<close>

lemma submitted_state:
  obtains w q d where "service_reachable (closedEnv freeParams) (closedEnv freeParams) (w, q)"
    "updateCall d (GetDelegateUpdateBalanceProof signedRequest) \<in> set (txs w)" "DelegatorAddress d = 7"
proof -
  let ?e = "closedEnv freeParams" and ?du = "GetDelegateUpdateBalanceProof signedRequest"
  obtain w q d i where s: "service_reachable ?e ?e (w, q)" "i < length (goroutines w)"
    "goroutines w ! i = GoUpdateBalanceProofAndUnlocks d" "UpdateBalanceProof d = Ret ?du" "Unlocks d = Ret []" "DelegatorAddress d = 7"
    using running_state [OF freeParams_ok(1,2)] by metis
  let ?w = "w\<lparr>goroutines := take i (goroutines w) @ drop (Suc i) (goroutines w)\<rparr>"
  have sane: "sane ledger blockOk w" using reachable_booked [OF _ _ s(1)] by simp
  have d: "delegate_ok d" using sane s(2,3) nth_mem [OF s(2)] by (fastforce simp: sane_def)
  have inv: "billing_inv ?e ?w" using sane s(2) by (auto simp: billing_inv_def sane_def ledger_def)
  have acc: "0 \<le> AccountAvailable (accountOf 7 (store ?w))" "0 \<le> a_NeedSmt (accountOf 7 (store ?w))"
    using inv accountOf_solvent [of "store w" 7] by (auto simp: billing_inv_def solvent_def AccountAvailable_def nonneg_def)
  obtain r d' w' v v' where run: "doDelegateUpdateBalanceProof ?e d ?w = (Ret d', w')"
      "doUpdateBalanceProof ?e d ?du v = (Ret r, v')" "ce_blockNumber v = ce_blockNumber ?w"
      "succeeded r \<Longrightarrow> txs w' = txs ?w @ [updateCall d ?du] \<and> d' = d"
    using update_proof_paid [OF inv d _ s(4)] acc s(6) by (fastforce simp: signedRequest_parts)
  have "succeeded r" using closed_update_succeeds [OF run(2)] run(3) inv by (simp add: billing_inv_def)
  then have run: "doDelegateUpdateBalanceProof ?e d ?w = (Ret d, w')" "txs w' = txs w @ [updateCall d ?du]"
    using run(1,4) by auto
  have "runNth ?e i w = (Ret (), w')"
    using run(1) s(3-5) by (simp add: runNth_def doDelegateUnlocks_def)
  from service_reachable.step [OF s(1) step_goroutine [OF s(2) this]] have "service_reachable ?e ?e (w', q)"
    by (simp add: survives_def)
  then show ?thesis using run(2) s(6) by (intro that [of w' q d]) simp_all
qed

theorem every_transaction_has_mandate_witness:
  "\<exists>h w q token partner. service_history (closedEnv freeParams) (closedEnv freeParams) h (w, q) \<and>
     UpdateBalanceProofDelegate token partner 7 200 0 2 0 [8] [7] \<in> set (txs w) \<and>
     (\<exists>c. posted h 7 c \<and> c_PartnerAddress c \<noteq> 7 \<and>
        signedBy (closedEnv freeParams) (nonClosingMessage (closedEnv freeParams) c) [7] 7)"
proof -
  obtain w q d where s: "service_reachable (closedEnv freeParams) (closedEnv freeParams) (w, q)"
    "updateCall d (GetDelegateUpdateBalanceProof signedRequest) \<in> set (txs w)" "DelegatorAddress d = 7"
    by (rule submitted_state)
  obtain h where h: "service_history (closedEnv freeParams) (closedEnv freeParams) h (w, q)"
    using s(1) unfolding reachable_with_history by blast
  have call: "updateCall d (GetDelegateUpdateBalanceProof signedRequest) =
      UpdateBalanceProofDelegate (TokenAddress d) (PartnerAddress d) 7 200 0 2 0 [8] [7]"
    using s(3) by (simp add: updateCall_def proof_fields signedRequest_sel) (simp add: sampleRequest_def)
  from every_transaction_has_mandate [OF h s(2) [unfolded call]] obtain c where
    "posted h 7 c" "c_PartnerAddress c \<noteq> 7" "signedBy (closedEnv freeParams) (nonClosingMessage (closedEnv freeParams) c) [7] 7"
    by (auto simp: commissioned_def)
  with h s(2) [unfolded call] show ?thesis by metis
qed

theorem stored_delegations_are_signed_witness:
  "\<exists>h w q d c. service_history (closedEnv initParams) (closedEnv initParams) h (w, q) \<and> d \<in> subject ` set (goroutines w) \<and>
     posted h 7 c \<and> ut_Nonce (c_UpdateTransfer c) = 2 \<and> UpdateBalanceProof d = Ret (GetDelegateUpdateBalanceProof c) \<and>
     proofVerified (closedEnv initParams) c 7"
proof -
  obtain w q d i where s: "service_reachable (closedEnv initParams) (closedEnv initParams) (w, q)" "i < length (goroutines w)"
    "goroutines w ! i = GoUpdateBalanceProofAndUnlocks d" "UpdateBalanceProof d = Ret (GetDelegateUpdateBalanceProof signedRequest)"
    "DelegatorAddress d = 7"
    using running_state [OF init_fees] by metis
  obtain h where h: "service_history (closedEnv initParams) (closedEnv initParams) h (w, q)"
    using s(1) unfolding reachable_with_history by blast
  have d: "d \<in> subject ` set (goroutines w)" using nth_mem [OF s(2)] s(3) by (metis image_eqI subject.simps(2))
  then obtain c where "posted h 7 c" "UpdateBalanceProof d = Ret (GetDelegateUpdateBalanceProof c)"
      "ut_Nonce (c_UpdateTransfer c) > 0 \<longrightarrow> proofVerified (closedEnv initParams) c (DelegatorAddress d)"
    using stored_delegations_are_signed [OF h, of d] s(5) by auto
  moreover from this(2) have "ut_Nonce (c_UpdateTransfer c) = 2"
    using s(4) proof_fields(1) [of c] proof_fields(1) [of signedRequest] by (simp add: signedRequest_sel)
  ultimately show ?thesis using h s(5) d by (intro exI [of _ h] exI [of _ w] exI [of _ q] exI [of _ d] exI [of _ c]) simp
qed

end
