(* ===== verification/PM_Delivery.thy ===== *)
theory PM_Delivery
  imports PM_Authority
begin

text \<open>
  The whole way of a delegation: its point is due, the block starts its goroutine, the goroutine pays for the transaction and sends it.
  The log of the transactions only grows (an instance of \<open>row_invariant\<close>), so that the unlocks that follow do not hide the submitted proof.
\<close>

interpretation log: row_invariant "\<lambda>w. call \<in> set (txs w)" "\<lambda>_. True" "\<lambda>_ calls. call \<in> set calls" "\<lambda>_. True" "\<lambda>_. True"
    "\<lambda>_ _. True" "\<lambda>_. True" for call
  by unfold_locales auto

text \<open>The chain takes every transaction and mines it with success.\<close>

definition chain_accepts :: "env \<Rightarrow> bool" where
  "chain_accepts env \<longleftrightarrow> (\<forall>n call. \<exists>h. env_submit env n call = Inr h) \<and> (\<forall>n h. env_wait env n h = Inr True) \<and>
     (\<forall>n t. env_TokenNetwork env n t = None)"

lemma accepted_update_succeeds:
  assumes "chain_accepts env" "doUpdateBalanceProof env d du v = (Ret r, v')" "ce_blockNumber v \<noteq> None"
  shows "succeeded r"
proof -
  obtain h where "env_submit env n call = Inr (h n call)" for n call using assms(1) unfolding chain_accepts_def by metis
  then show ?thesis
    using assms
    by (auto simp: chain_accepts_def doUpdateBalanceProof_def NewDelegateExecuteRecord_def deferSave_def onTokenNetwork_def TokenNetwork_def
        executeTx_def submitTx_def WaitMined_def Let_def succeeded_def bindA_def split: option.splits prod.splits outcome.splits)
qed

lemma started_proof_submits:
  assumes "fees_ok (env_params env)" "no_faults env" "chain_accepts env" "service_reachable env env (w, q)"
    and i: "i < length (goroutines w)" "goroutines w ! i = GoUpdateBalanceProofAndUnlocks d"
    and du: "UpdateBalanceProof d = Ret du" "0 < du_Nonce du"
    and fee: "SmtUpdateTransfer (env_params env) \<le> AccountAvailable (accountOf (DelegatorAddress d) (store w))"
      "SmtUpdateTransfer (env_params env) \<le> a_NeedSmt (accountOf (DelegatorAddress d) (store w))"
  shows "\<exists>w'. runNth env i w = (Ret (), w') \<and> updateCall d du \<in> set (txs w')"
proof -
  let ?w = "w\<lparr>goroutines := take i (goroutines w) @ drop (Suc i) (goroutines w)\<rparr>"
  have sane: "sane ledger blockOk w" using reachable_booked [OF assms(1,2,4)] by simp
  have d: "delegate_ok d" using sane i nth_mem [OF i(1)] by (fastforce simp: sane_def)
  have inv: "billing_inv env ?w" using assms(2) sane i(1) by (auto simp: billing_inv_def sane_def ledger_def)
  have nonneg: "0 \<le> SmtUpdateTransfer (env_params env)" using assms(1) by (simp add: fees_ok_def)
  obtain r d' w1 v v' where run: "doDelegateUpdateBalanceProof env d ?w = (Ret d', w1)"
      "doUpdateBalanceProof env d du v = (Ret r, v')" "ce_blockNumber v = ce_blockNumber ?w"
      "succeeded r \<Longrightarrow> txs w1 = txs ?w @ [updateCall d du]"
    using update_proof_paid [OF inv d nonneg du] fee by fastforce
  have "succeeded r" using accepted_update_succeeds [OF assms(3) run(2)] run(3) inv by (simp add: billing_inv_def)
  then have sent: "updateCall d du \<in> set (txs w1)" using run(4) by simp
  obtain w' where w': "runNth env i w = (Ret (), w')" using returns(2) [OF assms(1,2,4) i(1)] by blast
  then have "bindA (doDelegateUnlocks env d') (\<lambda>_. returnA ()) w1 = (Ret (), w')"
    using run(1) i(2) by (simp add: runNth_def)
  moreover have "keeps (\<lambda>w. updateCall d du \<in> set (txs w)) (bindA (doDelegateUnlocks env d') (\<lambda>_. returnA ()))"
    by (intro keeps_bindA keeps_returnA log.unlocks) simp
  ultimately have "updateCall d du \<in> set (txs w')"
    using keepsD [where I = "\<lambda>w. updateCall d du \<in> set (txs w)", OF _ sent] by (metis snd_conv)
  with w' show ?thesis by blast
qed

subsection \<open>Properties\<close>

text \<open>
  C1. A delegation in state Init that has a balance proof (nonce above 0), and whose point is due, is carried out.  In a reachable state in which
  every point names a delegation, with fees that are not negative, when no statement fails and the chain accepts every transaction: the notification of a block \<open>n > 0\<close> starts its
  goroutine, if the point is in one of the blocks the notification handles.  These are all blocks since the last one handled, the skipped ones
  included; but after a start, when no block was handled yet, only \<open>n\<close> itself, so that a point in a block that passed while the process
  was down is not started.  When the account then covers the fee, running this goroutine submits the stored balance proof to the
  contract, and the process serves on.
\<close>
theorem due_proof_is_submitted:
  assumes "fees_ok (env_params env)" "no_faults env" "chain_accepts env" "service_reachable env env (w, q)"
    "\<forall>m \<in> set (tMonitor (store w)). dm_DelegateKey m \<noteq> []"
    "delegateBy k (store w) = Some d" "d_Status d = DelegateStatusInit" "UpdateBalanceProof d = Ret du" "0 < du_Nonce du"
    "0 < n" "in_int64 n" "dueIn k (if lastBlock w = 0 then {n} else {lastBlock w <.. n}) w"
  shows "\<exists>w1 i. handleStateChange env (BlockStateChange n) w = (Ret (), w1) \<and> i < length (goroutines w1) \<and>
     goroutines w1 ! i = GoUpdateBalanceProofAndUnlocks (d\<lparr>d_Status := DelegateStatusRunning\<rparr>) \<and>
     (SmtUpdateTransfer (env_params env) \<le> AccountAvailable (accountOf (DelegatorAddress d) (store w1)) \<and>
      SmtUpdateTransfer (env_params env) \<le> a_NeedSmt (accountOf (DelegatorAddress d) (store w1)) \<longrightarrow>
      (\<exists>w2. runNth env i w1 = (Ret (), w2) \<and> updateCall d du \<in> set (txs w2) \<and> service_reachable env env (w2, q)))"
proof -
  let ?d = "d\<lparr>d_Status := DelegateStatusRunning\<rparr>"
  have blocks: "set (handledBlocks (lastBlock w) n) = (if lastBlock w = 0 then {n} else {lastBlock w <.. n})"
    by (auto simp: handledBlocks_def)
  obtain w1 new where w1: "handleStateChange env (BlockStateChange n) w = (Ret (), w1)" "goroutines w1 = goroutines w @ new"
      "proofRuns k new = [GoUpdateBalanceProofAndUnlocks ?d]"
    using due_starts_at [OF assms(1,2,4-7,10,11)] blocks assms(12) by auto
  have "GoUpdateBalanceProofAndUnlocks ?d \<in> set (goroutines w1)"
    using w1(2,3) unfolding proofRuns_def by (metis Un_iff filter_is_subset list.set_intros(1) set_append subsetD)
  then obtain i where i: "i < length (goroutines w1)" "goroutines w1 ! i = GoUpdateBalanceProofAndUnlocks ?d"
    by (auto simp: in_set_conv_nth)
  have r1: "service_reachable env env (w1, q)"
    using service_reachable.step [OF assms(4) step_chain_event [OF w1(1)]] assms(10,11) by (simp add: survives_def blockOk_def)
  have same: "UpdateBalanceProof ?d = Ret du" "DelegatorAddress ?d = DelegatorAddress d" "updateCall ?d du = updateCall d du"
    using assms(8) by (simp_all add: UpdateBalanceProof_def DelegatorAddress_def updateCall_def TokenAddress_def PartnerAddress_def)
  have "\<exists>w2. runNth env i w1 = (Ret (), w2) \<and> updateCall d du \<in> set (txs w2) \<and> service_reachable env env (w2, q)"
    if covered: "SmtUpdateTransfer (env_params env) \<le> AccountAvailable (accountOf (DelegatorAddress d) (store w1))"
      "SmtUpdateTransfer (env_params env) \<le> a_NeedSmt (accountOf (DelegatorAddress d) (store w1))"
  proof -
    obtain w2 where w2: "runNth env i w1 = (Ret (), w2)" "updateCall d du \<in> set (txs w2)"
      using started_proof_submits [OF assms(1-3) r1 i same(1) assms(9), unfolded same(2,3), OF covered] by blast
    have "service_reachable env env (w2, q)"
      using service_reachable.step [OF r1 step_goroutine [OF i(1) w2(1)]] by (simp add: survives_def)
    with w2 show ?thesis by blast
  qed
  with w1(1) i show ?thesis by blast
qed

subsection \<open>Concrete application\<close>

text \<open>The signed request of a service without fees: due at block 970, submitted after the notification of block 1010.\<close>

theorem due_proof_is_submitted_witness:
  "\<exists>w q w1 i w2 d. service_reachable (closedEnv freeParams) (closedEnv freeParams) (w, q) \<and> lastBlock w = 900 \<and>
     handleStateChange (closedEnv freeParams) (BlockStateChange 1010) w = (Ret (), w1) \<and>
     runNth (closedEnv freeParams) i w1 = (Ret (), w2) \<and> updateCall d (GetDelegateUpdateBalanceProof signedRequest) \<in> set (txs w2)"
proof -
  let ?e = "closedEnv freeParams"
  obtain w q d where s: "service_reachable ?e ?e (w, q)" "lastBlock w = 900"
    "delegateBy (BuildDelegateKey 5 7) (store w) = Some d" "d_Status d = DelegateStatusInit"
    "UpdateBalanceProof d = Ret (GetDelegateUpdateBalanceProof signedRequest)"
    "dueIn (BuildDelegateKey 5 7) {900 <.. 1010} w" "\<forall>m \<in> set (tMonitor (store w)). dm_DelegateKey m \<noteq> []"
    using accepted_state [OF freeParams_ok(1,2)] by metis
  have chain: "chain_accepts ?e" by (simp add: chain_accepts_def)
  have pos: "0 < du_Nonce (GetDelegateUpdateBalanceProof signedRequest)" by (simp add: signedRequest_parts)
  have env: "fees_ok (env_params ?e)" "no_faults ?e" by simp_all
  have block: "(0 :: int) < 1010" "in_int64 1010" "dueIn (BuildDelegateKey 5 7) (if lastBlock w = 0 then {1010} else {lastBlock w <.. 1010}) w"
    using s(2,6) by (simp_all add: in_int64_def)
  note run = due_proof_is_submitted [OF env chain s(1,7,3-5) pos block]
  obtain w1 i where w1: "handleStateChange ?e (BlockStateChange 1010) w = (Ret (), w1)"
      "0 \<le> AccountAvailable (accountOf (DelegatorAddress d) (store w1)) \<and> 0 \<le> a_NeedSmt (accountOf (DelegatorAddress d) (store w1)) \<longrightarrow>
      (\<exists>w2. runNth ?e i w1 = (Ret (), w2) \<and> updateCall d (GetDelegateUpdateBalanceProof signedRequest) \<in> set (txs w2))"
    using run by fastforce
  have "service_reachable ?e ?e (w1, q)"
    using service_reachable.step [OF s(1) step_chain_event [OF w1(1)]] by (simp add: survives_def blockOk_def in_int64_def)
  from reachable_booked [OF env this] have "accounts_ok (store w1)" by (simp add: sane_def ledger_def)
  from accountOf_solvent [OF this, of "DelegatorAddress d"] w1(2) obtain w2 where
    "runNth ?e i w1 = (Ret (), w2)" "updateCall d (GetDelegateUpdateBalanceProof signedRequest) \<in> set (txs w2)"
    by (auto simp: AccountAvailable_def solvent_def)
  with s(1,2) w1(1) show ?thesis by blast
qed

end
