(* ===== verification/PM_Recovery.thy ===== *)
theory PM_Recovery
  imports PM_Rows
begin

text \<open>
  What is left of a delegation whose execution has begun: after a crash, and when a goroutine ends late.

  The stored status is the only memory of an execution: it is set to Running before the goroutine is started, and nothing sets it back.
  So a delegation is executed at most once, whatever happens; and one that was interrupted is not resumed.  A goroutine
  saves the whole row it was started with: what was stored since is lost, and a row that was deleted is there again.
\<close>

subsection \<open>A delegation that is no longer started\<close>

text \<open>\<open>spent k\<close>: the stored status of the delegation \<open>k\<close> starts no work, and no started goroutine submits its proof or its unlocks.\<close>

fun executes :: "byte list \<Rightarrow> goroutine \<Rightarrow> bool" where
  "executes k (GoUnlocks d) \<longleftrightarrow> d_Key d = k"
| "executes k (GoUpdateBalanceProofAndUnlocks d) \<longleftrightarrow> d_Key d = k"
| "executes k (GoPunishes d) \<longleftrightarrow> False"

definition idleRow :: "byte list \<Rightarrow> delegate \<Rightarrow> bool" where
  "idleRow k d \<longleftrightarrow> (d_Key d = k \<longrightarrow> idle (d_Status d))"

definition idleRows :: "byte list \<Rightarrow> modeldb \<Rightarrow> bool" where
  "idleRows k db \<longleftrightarrow> (\<forall>d \<in> set (tDelegate db). idleRow k d)"

definition unstarted :: "byte list \<Rightarrow> goroutine list \<Rightarrow> contractCall list \<Rightarrow> bool" where
  "unstarted k gs calls \<longleftrightarrow> (\<forall>g \<in> set gs. \<not> executes k g)"

definition spent :: "byte list \<Rightarrow> world \<Rightarrow> bool" where
  "spent k w \<longleftrightarrow> idleRows k (store w) \<and> unstarted k (goroutines w) (txs w)"

lemma idleRows_save: "idleRows k db \<Longrightarrow> idleRow k d \<Longrightarrow> idleRows k (saveDelegate d db)"
  using set_gorm_save [of blankList d_Key d "tDelegate db"] by (auto simp: idleRows_def saveDelegate_def)

interpretation recovery: row_invariant "spent k" "idleRows k" "unstarted k" "idleRow k" "\<lambda>_. True" "\<lambda>_ _. True" "\<lambda>_. True" for k
proof
  show "idleRows k (saveDelegate d db)" if "idleRows k db" "idleRow k d" for d db using that by (rule idleRows_save)
qed (auto simp: spent_def idleRows_def idleRow_def unstarted_def idle_def gorm_update_column_def split: if_splits)

text \<open>
  What holds of the rows whatever fails, in the chain, in the database or in a poll: they are well formed and have distinct keys, and so
  are the rows the goroutines hold.
\<close>

definition heldOk :: "goroutine list \<Rightarrow> contractCall list \<Rightarrow> bool" where
  "heldOk gs calls \<longleftrightarrow> (\<forall>g \<in> set gs. delegate_ok (subject g))"

definition rowsOk :: "world \<Rightarrow> bool" where
  "rowsOk w \<longleftrightarrow> delegates_ok (store w) \<and> heldOk (goroutines w) (txs w)"

lemma delegates_ok_update:
  assumes "delegates_ok db" "\<And>r. d_Key (f r) = d_Key r" "\<And>r. delegate_ok r \<Longrightarrow> delegate_ok (f r)"
  shows "delegates_ok (db\<lparr>tDelegate := gorm_update_column blankList d_Key k f (tDelegate db)\<rparr>)"
  using assms by (auto simp: delegates_ok_def gorm_update_column_def comp_def if_distrib cong: if_cong)

interpretation wellFormed: row_invariant rowsOk delegates_ok heldOk delegate_ok delegate_ok "\<lambda>_ _. True" "\<lambda>_. True"
proof
  show "delegates_ok db'" if "delegates_ok db" "\<exists>P. tDelegate db' = filter P (tDelegate db)" for db db'
    using that by (auto simp: delegates_ok_def distinct_map_filter)
  show "delegates_ok (saveDelegate d db)" if "delegates_ok db" "delegate_ok d" for d db using that by (rule delegates_ok_save)
  show "delegates_ok (db\<lparr>tDelegate := gorm_update_column blankList d_Key k (\<lambda>r. r\<lparr>d_Status := DelegateStatusRunning\<rparr>) (tDelegate db)\<rparr>)"
    if "delegates_ok db" for db k using that by (rule delegates_ok_update) simp_all
qed (auto simp: rowsOk_def heldOk_def delegates_ok_def)

lemma keeps_delegates_ok: "keeps (on_store delegates_ok) (Delegate env (Some (VerifyDelegate env)) path payload)"
proof -
  have "delegates_ok (saveMonitor m db)" if "delegates_ok db" for m db using that by (simp add: delegates_ok_def saveMonitor_def)
  then have "keeps (on_store delegates_ok) (updateDelegate env c a l x)" for c a l x
    by (intro keeps_updateDelegate [where rel = "\<lambda>_ _. True"] delegates_ok_save TrueI)
  then have "keeps (on_store delegates_ok) (ReceiveDelegate env c a)" for c a
    unfolding ReceiveDelegate_def
    by (intro keeps_rules keeps_appendDelegatePunish keeps_appendDelegateAnnounceDispose keeps_updateAccountSMT)
      (simp_all add: delegates_ok_def insertPunish_def insertDispose_def saveAccount_def)
  then show ?thesis unfolding Delegate_def option.case by (intro keeps_rules) (simp_all add: delegates_ok_def saveAccount_def)
qed

lemma rowsOk_step:
  assumes "service_step env penv (w, q) (w', q')" "rowsOk w"
  shows "rowsOk w'"
proof (rule wellFormed.step [OF assms])
  fix path payload
  let ?m = "Delegate env (Some (VerifyDelegate env)) path payload"
  have "keeps (on_process (\<lambda>_ gs. heldOk gs [])) ?m"
    unfolding Delegate_def option.case by (intro keeps_rules process_ReceiveDelegate)
  then show "rowsOk (snd (?m w))"
    using assms(2) keepsD [of "on_process (\<lambda>_ gs. heldOk gs [])" ?m w] keepsD [OF keeps_delegates_ok, of w env path payload]
    by (simp add: rowsOk_def heldOk_def on_process_def on_store_def)
qed

lemma reachable_rowsOk: "service_reachable env penv s \<Longrightarrow> rowsOk (fst s)"
proof (induction rule: service_reachable.induct)
  case (start w url)
  then show ?case by (simp add: rowsOk_def heldOk_def delegates_ok_def emptyDb_def)
next
  case (step s s')
  then show ?case using rowsOk_step by (cases s; cases s') fastforce
qed

text \<open>A request keeps the status of a stored delegation; only the first request of a delegation stores state Init.\<close>

definition storedIdle :: "byte list \<Rightarrow> modeldb \<Rightarrow> bool" where
  "storedIdle k db \<longleftrightarrow> delegates_ok db \<and> idleRows k db \<and> k \<in> d_Key ` set (tDelegate db)"

lemma storedIdle_other [simp]:
  "storedIdle k (insertPunish p db) = storedIdle k db" "storedIdle k (insertDispose a db) = storedIdle k db"
  "storedIdle k (saveMonitor m db) = storedIdle k db" "storedIdle k (saveAccount al db) = storedIdle k db"
  by (simp_all add: storedIdle_def idleRows_def delegates_ok_def insertPunish_def insertDispose_def saveMonitor_def saveAccount_def)

definition sameStatus :: "delegate \<Rightarrow> delegate \<Rightarrow> bool" where
  "sameStatus d e \<longleftrightarrow> d_Status d = d_Status e \<and> d_Key d = d_Key e"

lemma existingDelegate_status:
  assumes "existingDelegate env c l d w = (Ret (Inr d'), w')" "delegate_ok d"
  shows "sameStatus d' d"
  unfolding sameStatus_def
  using assms
  by (cases "GetDelegateUnlocks c";
      force simp: existingDelegate_def bindA_def Let_def SetUpdateBalanceProof_def SetUnlocks_def
        split: if_splits prod.splits outcome.splits option.splits sum.splits)

lemma storedIdle_save:
  assumes "storedIdle k db" "delegate_ok d"
    and same: "\<And>e. delegateBy (d_Key d) db = Some e \<Longrightarrow> sameStatus d e"
  shows "storedIdle k (saveDelegate d db)"
proof -
  have "idleRow k d"
  proof (cases "d_Key d = k")
    case True
    with assms(1) obtain e where e: "delegateBy (d_Key d) db = Some e"
      using rowBy_None [of d_Key "d_Key d" "tDelegate db"] by (cases "delegateBy (d_Key d) db") (auto simp: storedIdle_def)
    from rowBy_Some [OF this] assms(1) have "idleRow k e" by (simp add: storedIdle_def idleRows_def)
    with same [OF e] show ?thesis by (simp add: idleRow_def sameStatus_def)
  qed (simp add: idleRow_def)
  moreover have "delegateBy k (saveDelegate d db) \<noteq> None"
  proof -
    have "d_Key d \<noteq> []" using assms(2) by (simp add: delegate_ok_def)
    moreover have "delegateBy k db \<noteq> None"
      using assms(1) by (simp add: storedIdle_def rowBy_None)
    ultimately show ?thesis by (simp add: saveDelegate_def rowBy_gorm_save)
  qed
  then have "k \<in> d_Key ` set (tDelegate (saveDelegate d db))" by (simp add: rowBy_None)
  ultimately show ?thesis
    using assms(1,2) idleRows_save delegates_ok_save by (simp add: storedIdle_def)
qed

lemma keeps_storedIdle: "keeps (on_store (storedIdle k)) (Delegate env (Some (VerifyDelegate env)) path payload)"
proof -
  have "keeps (on_store (storedIdle k)) (updateDelegate env c a l x)" for c a l x
  proof (rule keeps_updateDelegate [where rel = sameStatus])
    show "storedIdle k (saveDelegate d db)"
      if "storedIdle k db" "delegate_ok d" "\<And>e. delegateBy (d_Key d) db = Some e \<Longrightarrow> sameStatus d e" for d db
      using that by (rule storedIdle_save)
  qed (simp_all add: existingDelegate_status sameStatus_def [of "_\<lparr>d_SecretsGob := _, d_NeedSMTStr := _\<rparr>"],
       simp_all add: storedIdle_def sameStatus_def)
  then have "keeps (on_store (storedIdle k)) (ReceiveDelegate env c a)" for c a
    unfolding ReceiveDelegate_def
    by (intro keeps_rules keeps_appendDelegatePunish keeps_appendDelegateAnnounceDispose keeps_updateAccountSMT) simp_all
  then show ?thesis unfolding Delegate_def option.case by (intro keeps_rules) simp_all
qed

lemma spent_step:
  assumes "service_step env penv (w, q) (w', q')" "delegates_ok (store w)" "spent k w" "delegateBy k (store w) \<noteq> None"
  shows "spent k w'"
proof (rule recovery.step [OF assms(1,3)])
  fix path payload
  let ?m = "Delegate env (Some (VerifyDelegate env)) path payload"
  have "storedIdle k (store w)" using assms(2-4) by (simp add: storedIdle_def spent_def rowBy_None)
  then have "storedIdle k (store (snd (?m w)))"
    using keepsD [OF keeps_storedIdle, of k w] by (simp add: on_store_def)
  moreover have "keeps (on_process (\<lambda>_ gs. unstarted k gs [])) ?m"
    unfolding Delegate_def option.case by (intro keeps_rules process_ReceiveDelegate)
  then have "unstarted k (goroutines (snd (?m w))) []"
    using assms(3) keepsD [of "on_process (\<lambda>_ gs. unstarted k gs [])" ?m w] by (simp add: on_process_def spent_def unstarted_def)
  ultimately show "spent k (snd (?m w))" by (simp add: spent_def storedIdle_def unstarted_def)
qed

text \<open>Steps after which the delegation is still stored: the channel has not ended.\<close>

definition stays :: "env \<Rightarrow> env \<Rightarrow> byte list \<Rightarrow> world \<times> query \<Rightarrow> world \<times> query \<Rightarrow> bool" where
  "stays env penv k s s' \<longleftrightarrow> service_step env penv s s' \<and> delegateBy k (store (fst s')) \<noteq> None"

lemma stays_spent:
  assumes "(stays env penv k)\<^sup>*\<^sup>* s s'" "rowsOk (fst s)" "spent k (fst s)" "delegateBy k (store (fst s)) \<noteq> None"
  shows "rowsOk (fst s') \<and> spent k (fst s') \<and> delegateBy k (store (fst s')) \<noteq> None"
  using assms(1)
proof (induction rule: rtranclp_induct)
  case base
  show ?case using assms by simp
next
  case (step s1 s2)
  obtain w1 q1 w2 q2 where s: "s1 = (w1, q1)" "s2 = (w2, q2)" by (cases s1; cases s2) auto
  with step.IH step.hyps(2) show ?case
    using spent_step [of env penv w1 q1 w2 q2 k] rowsOk_step [of env penv w1 q1 w2 q2] by (auto simp: stays_def rowsOk_def)
qed

subsection \<open>A goroutine that ends late\<close>

text \<open>What an action leaves behind, when it returns.\<close>

lemma bindA_Ret_elim:
  assumes "bindA m k w = (Ret y, w')"
  obtains x w1 where "m w = (Ret x, w1)" "k x w1 = (Ret y, w')"
  using assms by (auto simp: bindA_def split: prod.splits outcome.splits)

definition resultOf :: "delegate \<Rightarrow> delegate \<Rightarrow> bool" where
  "resultOf d d' \<longleftrightarrow> (\<exists>s e. d' = d\<lparr>d_Status := s, d_Error := e\<rparr>)"

lemma resultOf_simps [simp]: "resultOf d d" "resultOf d (d\<lparr>d_Status := s, d_Error := e\<rparr>)" "resultOf d (unlockResult x y d)"
proof -
  have "d\<lparr>d_Status := s\<rparr> = d\<lparr>d_Status := s, d_Error := d_Error d\<rparr>" "d = d\<lparr>d_Status := d_Status d, d_Error := d_Error d\<rparr>" for s
    by (cases d; simp)+
  then show "resultOf d d" "resultOf d (d\<lparr>d_Status := s, d_Error := e\<rparr>)" "resultOf d (unlockResult x y d)"
    unfolding resultOf_def unlockResult_def by (metis, blast, metis)
qed

lemma resultOf_trans: "resultOf d d' \<Longrightarrow> resultOf d' d'' \<Longrightarrow> resultOf d d''"
  by (auto simp: resultOf_def) (metis delegate.surjective delegate.update_convs)

lemma resultOf_same: "resultOf d d' \<Longrightarrow> d_Key d' = d_Key d \<and> Unlocks d' = Unlocks d \<and> d_OpenBlockNumber d' = d_OpenBlockNumber d"
  by (auto simp: resultOf_def Unlocks_def)

lemma UpdateObject_stores: "UpdateObject env d w = (Ret (), w') \<Longrightarrow> d_Key d \<noteq> [] \<Longrightarrow> delegateBy (d_Key d) (store w') = Some d"
  by (auto simp: UpdateObject_def bindA_def db_write_def saveDelegate_def rowBy_gorm_save split: option.splits)

lemma unlocks_store:
  assumes "doDelegateUnlocks env d w = (Ret d', w')" "Unlocks d = Ret us" "us \<noteq> []" "d_Key d \<noteq> []"
  shows "resultOf d d' \<and> delegateBy (d_Key d) (store w') = Some d'"
proof -
  have fail: "resultOf d d' \<and> delegateBy (d_Key d) (store w') = Some d'" if "failNoSmt env d e v = (Ret d', w')" for e v
    using that assms(4) by (auto simp: failNoSmt_def Let_def elim!: bindA_Ret_elim dest!: UpdateObject_stores)
  have fin: "delegateBy (d_Key d) (store w') = Some (unlockResult x y d)"
    if "UpdateObject env (unlockResult x y d) v = (Ret (), w')" for x y v
    using UpdateObject_stores [OF that] assms(4) resultOf_same [OF resultOf_simps(3), of x y d] by simp
  show ?thesis
    using assms(1-3) unfolding doDelegateUnlocks_def Let_def
    by (auto elim!: bindA_Ret_elim dest!: fail fin split: sum.splits option.splits prod.splits if_splits)
qed

lemma update_result:
  assumes "doDelegateUpdateBalanceProof env d w = (Ret d', w')"
  shows "resultOf d d'"
  using assms unfolding doDelegateUpdateBalanceProof_def failNoSmt_def Let_def
  by (auto elim!: bindA_Ret_elim split: option.splits if_splits)

lemma execution_stores:
  assumes "runGoroutine env g w = (Ret (), w')" "executes (d_Key d) g" "subject g = d" "Unlocks d = Ret us" "us \<noteq> []" "d_Key d \<noteq> []"
  obtains d' where "resultOf d d'" "delegateBy (d_Key d) (store w') = Some d'"
proof (cases g)
  case (GoUnlocks x)
  then show ?thesis using assms that unlocks_store by (fastforce elim: bindA_Ret_elim)
next
  case (GoUpdateBalanceProofAndUnlocks x)
  then obtain d1 w1 d2 where run: "doDelegateUpdateBalanceProof env d w = (Ret d1, w1)" "doDelegateUnlocks env d1 w1 = (Ret d2, w')"
    using assms(1,3) by (auto elim!: bindA_Ret_elim)
  note r = update_result [OF run(1)]
  show ?thesis
    using unlocks_store [OF run(2), of us] resultOf_same [OF r] resultOf_trans [OF r] assms(4-6) that by auto
next
  case (GoPunishes x)
  then show ?thesis using assms(2) by simp
qed

subsection \<open>Properties\<close>

text \<open>
  C7. An execution is begun at most once, and an interrupted one is not resumed.  In a reachable state let a delegation be stored in a state other
  than Init and finished-by-other, with no started goroutine that submits its proof or its unlocks: it was executed, or the
  process crashed after the state Running was stored.  Whatever events, goroutines, requests, polls and further crashes follow, and whatever
  statement of any of them fails (the answers to polls hold transfers with a key and an amount that is not negative): as long as the delegation
  is stored, its state starts no work again, and no goroutine is ever started that submits its proof or its unlocks.
\<close>
theorem begun_delegation_never_restarted:
  assumes "service_reachable env penv (w, q)"
    "delegateBy k (store w) = Some d" "d_Status d \<notin> {DelegateStatusInit, DelegateStatusSuccessFinishedByOther}"
    "\<forall>g \<in> set (goroutines w). \<not> executes k g" "(stays env penv k)\<^sup>*\<^sup>* (w, q) (w', q')"
  shows "\<exists>d'. delegateBy k (store w') = Some d' \<and> d_Status d' \<notin> {DelegateStatusInit, DelegateStatusSuccessFinishedByOther} \<and>
     (\<forall>g \<in> set (goroutines w'). \<not> executes k g)"
proof -
  have rows: "rowsOk w" using reachable_rowsOk [OF assms(1)] by simp
  then have ok: "delegates_ok (store w)" by (simp add: rowsOk_def)
  have "idleRow k e" if "e \<in> set (tDelegate (store w))" for e
  proof (cases "d_Key e = k")
    case True
    with that ok assms(2) have "e = d" using rowBy_unique [of d_Key "tDelegate (store w)" e] by (simp add: delegates_ok_def)
    with assms(3) show ?thesis by (simp add: idleRow_def idle_def)
  qed (simp add: idleRow_def)
  then have "spent k w" using assms(4) by (simp add: spent_def idleRows_def unstarted_def)
  with stays_spent [OF assms(5)] rows assms(2) have s: "spent k w'" "delegateBy k (store w') \<noteq> None" by simp_all
  then obtain d' where d': "delegateBy k (store w') = Some d'" by blast
  from rowBy_Some [OF this] s(1) have "idle (d_Status d')" by (simp add: spent_def idleRows_def idleRow_def)
  with d' s(1) show ?thesis by (simp add: idle_def spent_def unstarted_def)
qed

text \<open>
  C10. A goroutine that ends late brings its row back.  When, over well-formed rows, a goroutine that submits the proof or the unlocks of a delegation with at least one
  lock returns, whatever failed on its way, the row it was started with is stored again, with a new status: whatever was stored under the key when
  it ran is gone, the secrets of requests that were confirmed since as well as the deletion of the delegation at the end of its channel.  Outside
  debug mode, and when no statement fails, a delegation that was brought back so then refuses every request (without a nil part) for the channel
  opened again, whose opening block is another one.
\<close>
theorem late_goroutine_revives_row:
  assumes "rowsOk w" "delegate_ok d" "Unlocks d = Ret us" "us \<noteq> []"
    "g = GoUnlocks d \<or> g = GoUpdateBalanceProofAndUnlocks d" "runGoroutine env g w = (Ret (), w')"
  shows "\<exists>s e. delegateBy (d_Key d) (store w') = Some (d\<lparr>d_Status := s, d_Error := e\<rparr>) \<and>
     (no_faults env \<and> \<not> DebugMode (env_params env) \<longrightarrow>
        (\<forall>c. request_ok c \<and> c_ChannelIdentifier c = ChannelIdentifier d \<and> c_OpenBlockNumber c \<noteq> d_OpenBlockNumber d \<longrightarrow>
          (\<exists>w''. ReceiveDelegate env c (DelegatorAddress d) w' =
             (Ret (Inl (OpenBlockNumberNotEqual (d_OpenBlockNumber d) (c_OpenBlockNumber c))), w''))))"
proof -
  have g: "executes (d_Key d) g" "subject g = d" using assms(5) by auto
  obtain d' where d': "resultOf d d'" "delegateBy (d_Key d) (store w') = Some d'"
    using execution_stores [OF assms(6) g assms(3,4)] assms(2) by auto
  have "rowsOk w'"
    using keepsD [OF wellFormed.runs assms(1), of g env] assms(2,6) g(2) by simp
  then have "delegates_ok (store w')" by (simp add: rowsOk_def)
  moreover have "d_Key d = BuildDelegateKey (ChannelIdentifier d) (DelegatorAddress d)" using assms(2) by (simp add: delegate_ok_def)
  moreover have "d_OpenBlockNumber d' = d_OpenBlockNumber d" using resultOf_same [OF d'(1)] by simp
  ultimately have "\<exists>w''. ReceiveDelegate env c (DelegatorAddress d) w' =
      (Ret (Inl (OpenBlockNumberNotEqual (d_OpenBlockNumber d) (c_OpenBlockNumber c))), w'')"
    if "no_faults env" "\<not> DebugMode (env_params env)" "request_ok c" "c_ChannelIdentifier c = ChannelIdentifier d"
      "c_OpenBlockNumber c \<noteq> d_OpenBlockNumber d" for c
    using update_refused [OF that(1) _ that(3,2), of w' "DelegatorAddress d" d'] d'(2) that by fastforce
  with d' show ?thesis by (auto simp: resultOf_def)
qed

subsection \<open>Concrete applications\<close>

text \<open>The delegation that was started for block 970; then the process crashes, and crashes again.\<close>

theorem begun_delegation_never_restarted_witness:
  "\<exists>w q w' q' d'. service_reachable (closedEnv initParams) (closedEnv initParams) (w, q) \<and>
     (\<exists>d. GoUpdateBalanceProofAndUnlocks d \<in> set (goroutines w)) \<and>
     (stays (closedEnv initParams) (closedEnv initParams) (BuildDelegateKey 5 7))\<^sup>*\<^sup>* (restart w, NewSmtQuery (q_url q) 0) (w', q') \<and>
     delegateBy (BuildDelegateKey 5 7) (store w') = Some d' \<and> d_Status d' \<noteq> DelegateStatusInit \<and>
     (\<forall>g \<in> set (goroutines w'). \<not> executes (BuildDelegateKey 5 7) g)"
proof -
  let ?e = "closedEnv initParams" and ?k = "BuildDelegateKey 5 7"
  obtain w q d i where s: "service_reachable ?e ?e (w, q)" "i < length (goroutines w)"
    "goroutines w ! i = GoUpdateBalanceProofAndUnlocks d" "delegateBy ?k (store w) = Some d" "d_Status d = DelegateStatusRunning"
    using running_state [OF init_fees] by metis
  let ?s = "(restart w, NewSmtQuery (q_url q) 0)"
  have reach: "service_reachable ?e ?e ?s" by (rule service_reachable.step [OF s(1) step_crash])
  have row: "delegateBy ?k (store (restart w)) = Some d" "goroutines (restart w) = []" using s(4) by (simp_all add: restart_def)
  have again: "service_step ?e ?e ?s (restart (restart w), NewSmtQuery (q_url (snd ?s)) 0)"
    by (simp add: step_crash)
  then have run: "(stays ?e ?e ?k)\<^sup>*\<^sup>* ?s (restart (restart w), NewSmtQuery (q_url (snd ?s)) 0)"
    using row(1) by (intro r_into_rtranclp) (simp add: stays_def restart_def)
  have "\<exists>d'. delegateBy ?k (store (restart (restart w))) = Some d' \<and>
      d_Status d' \<notin> {DelegateStatusInit, DelegateStatusSuccessFinishedByOther} \<and>
      (\<forall>g \<in> set (goroutines (restart (restart w))). \<not> executes ?k g)"
    by (rule begun_delegation_never_restarted [OF reach row(1) _ _ run]) (simp_all add: s(5) row(2))
  moreover have "GoUpdateBalanceProofAndUnlocks d \<in> set (goroutines w)" using nth_mem [OF s(2)] s(3) by simp
  ultimately show ?thesis using s(1) run by blast
qed

text \<open>The channel has ended, nothing is stored; the goroutine finds no SMT, and its row is there again.\<close>

theorem late_goroutine_revives_row_witness:
  "\<exists>w' d' w''. tDelegate (store freshWorld) = [] \<and> runGoroutine quietEnv (GoUnlocks (sampleDelegate 5 7)) freshWorld = (Ret (), w') \<and>
     delegateBy (BuildDelegateKey 5 7) (store w') = Some d' \<and>
     ReceiveDelegate quietEnv (sampleRequest\<lparr>c_OpenBlockNumber := 4\<rparr>) 7 w' = (Ret (Inl (OpenBlockNumberNotEqual 3 4)), w'')"
proof -
  let ?d = "sampleDelegate 5 7" and ?c = "sampleRequest\<lparr>c_OpenBlockNumber := 4\<rparr>"
  have none: "AccountAvailable (accountOf 7 (store (tick freshWorld))) = 0"
    by (simp add: accountOf_def freshWorld_def emptyDb_def AccountAvailable_def newAccountRow_def toAccount_def)
  have acc: "accounts_ok (store freshWorld)" "rowsOk freshWorld"
    by (simp_all add: freshWorld_def emptyDb_def accounts_ok_def delegates_ok_def rowsOk_def heldOk_def)
  obtain e w1 where lock: "AccountLockSmt quietEnv 7 1 (tick freshWorld) = (Ret (Some e), w1)"
    using AccountLockSmt_ok [OF no_faults_quietEnv, of "tick freshWorld" 1 7] acc(1) none by simp
  then obtain w' where run: "runGoroutine quietEnv (GoUnlocks ?d) freshWorld = (Ret (), w')"
    using no_faults_quietEnv
    by (simp add: doDelegateUnlocks_def sampleDelegate_getters GetDelegateAnnounceDisposeListByDelegateKey_def failNoSmt_def Let_def
        gorm_where_def freshWorld_def emptyDb_def)
  note late = late_goroutine_revives_row [OF acc(2) sampleDelegate_ok sampleDelegate_getters(2) _ disjI1 [OF refl] run]
  have c: "request_ok ?c" "c_ChannelIdentifier ?c = ChannelIdentifier ?d" "c_OpenBlockNumber ?c \<noteq> d_OpenBlockNumber ?d"
    using sampleRequest_ok
    by (simp_all add: request_ok_def GetDelegateUnlocks_def GetDeleteSecrets_def sampleRequest_def sampleDelegate_def ChannelIdentifier_def)
  have "\<exists>s e. delegateBy (d_Key ?d) (store w') = Some (?d\<lparr>d_Status := s, d_Error := e\<rparr>)" using late by blast
  moreover have "\<exists>w''. ReceiveDelegate quietEnv ?c (DelegatorAddress ?d) w' =
      (Ret (Inl (OpenBlockNumberNotEqual (d_OpenBlockNumber ?d) (c_OpenBlockNumber ?c))), w'')" using late c no_faults_quietEnv fees_ok_quietEnv(2) by blast
  moreover have "d_OpenBlockNumber ?d = 3" by (simp add: sampleDelegate_def)
  ultimately have "\<exists>d'. delegateBy (BuildDelegateKey 5 7) (store w') = Some d'"
    "\<exists>w''. ReceiveDelegate quietEnv ?c 7 w' = (Ret (Inl (OpenBlockNumberNotEqual 3 4)), w'')"
    by (auto simp: sampleDelegate_getters)
  then show ?thesis using run by (auto simp: freshWorld_def emptyDb_def)
qed

end
