(* ===== verification/PM_Book.thy ===== *)
theory PM_Book
  imports PM_Service
begin

text \<open>
  An abstract account book and its refinement by the operations of \<open>models/account.go\<close> (and \<open>updateAccountSMT\<close> of
  \<open>models/service.go\<close>).  The book maps an address to four natural numbers; its operations are one line each and say when
  they are refused.  The contract \<open>refines\<close> is the simulation of one step; the interpretation discharges it for the database
  operations, and gives the simulation of every sequence of them.  Each operation is one step here; what happens when two of
  them interleave is shown for the deposit.
\<close>

subsection \<open>The book\<close>

record entry =
  received :: nat
  spent :: nat
  locked :: nat
  needed :: nat

type_synonym book = "Address \<Rightarrow> entry"

datatype booking =
    Deposit Address nat
  | LockFee Address nat
  | ReturnFee Address nat
  | SpendFee Address nat
  | SetNeed Address nat
  | ChangeNeed Address nat nat

fun holder :: "booking \<Rightarrow> Address" where
  "holder (Deposit a n) = a"
| "holder (LockFee a n) = a"
| "holder (ReturnFee a n) = a"
| "holder (SpendFee a n) = a"
| "holder (SetNeed a n) = a"
| "holder (ChangeNeed a old new) = a"

text \<open>The effect of a booking on its entry; \<open>None\<close> is a refusal.\<close>

fun booked :: "booking \<Rightarrow> entry \<Rightarrow> entry option" where
  "booked (Deposit a n) e = Some (e\<lparr>received := received e + n\<rparr>)"
| "booked (LockFee a n) e =
     (if spent e + locked e + n \<le> received e \<and> n \<le> needed e
      then Some (e\<lparr>locked := locked e + n, needed := needed e - n\<rparr>) else None)"
| "booked (ReturnFee a n) e = (if n \<le> locked e then Some (e\<lparr>locked := locked e - n\<rparr>) else None)"
| "booked (SpendFee a n) e = (if n \<le> locked e then Some (e\<lparr>locked := locked e - n, spent := spent e + n\<rparr>) else None)"
| "booked (SetNeed a n) e = Some (e\<lparr>needed := n\<rparr>)"
| "booked (ChangeNeed a old new) e =
     Some (e\<lparr>needed := (if old \<le> needed e + new then needed e + new - old else old - (needed e + new))\<rparr>)"

definition bookStep :: "booking \<Rightarrow> book \<Rightarrow> bool \<times> book" where
  "bookStep b B = (case booked b (B (holder b)) of Some e \<Rightarrow> (True, B(holder b := e)) | None \<Rightarrow> (False, B))"

subsection \<open>The same operations on the database\<close>

fun perform :: "env \<Rightarrow> booking \<Rightarrow> bool action" where
  "perform env (Deposit a n) = bindA (AccountAddSmt env a (int n)) (\<lambda>_. returnA True)"
| "perform env (LockFee a n) = bindA (AccountLockSmt env a (int n)) (\<lambda>err. returnA (err = None))"
| "perform env (ReturnFee a n) = bindA (AccountUnlockSmt env a (int n)) (\<lambda>err. returnA (err = None))"
| "perform env (SpendFee a n) = bindA (AccountUseSmt env a (int n)) (\<lambda>err. returnA (err = None))"
| "perform env (SetNeed a n) = bindA (accountUpdateNeedSmt env a (int n)) (\<lambda>_. returnA True)"
| "perform env (ChangeNeed a old new) = bindA (updateAccountSMT env a (int old) (int new)) (\<lambda>_. returnA True)"

definition entryOf :: "account \<Rightarrow> entry" where
  "entryOf a = \<lparr>received = nat (a_TotalReceivedSmt a), spent = nat (a_UsedSmt a), locked = nat (a_LockedSmt a),
     needed = nat (a_NeedSmt a)\<rparr>"

definition bookOf :: "modeldb \<Rightarrow> book" where
  "bookOf db a = entryOf (accountOf a db)"

subsection \<open>Refinement\<close>

text \<open>A list of operations in sequence, with the list of the answers.\<close>

fun specRun :: "('o \<Rightarrow> 'b \<Rightarrow> 'r \<times> 'b) \<Rightarrow> 'o list \<Rightarrow> 'b \<Rightarrow> 'r list \<times> 'b" where
  "specRun step [] B = ([], B)"
| "specRun step (x # xs) B = (let (r, B') = step x B; (rs, B'') = specRun step xs B' in (r # rs, B''))"

fun sequenceA :: "('o \<Rightarrow> ('s, 'r) act) \<Rightarrow> 'o list \<Rightarrow> ('s, 'r list) act" where
  "sequenceA f [] = returnA []"
| "sequenceA f (x # xs) = bindA (f x) (\<lambda>r. bindA (sequenceA f xs) (\<lambda>rs. returnA (r # rs)))"

locale refines =
  fixes run :: "'o \<Rightarrow> ('s, 'r) act" and step :: "'o \<Rightarrow> 'b \<Rightarrow> 'r \<times> 'b" and abst :: "'s \<Rightarrow> 'b" and inv :: "'s \<Rightarrow> bool"
  assumes simulates: "inv s \<Longrightarrow> \<exists>s'. run x s = (Ret (fst (step x (abst s))), s') \<and> abst s' = snd (step x (abst s)) \<and> inv s'"
begin

lemma sequence_simulates:
  "inv s \<Longrightarrow> \<exists>s'. sequenceA run xs s = (Ret (fst (specRun step xs (abst s))), s') \<and>
     abst s' = snd (specRun step xs (abst s)) \<and> inv s'"
proof (induction xs arbitrary: s)
  case Nil
  then show ?case by simp
next
  case (Cons x xs)
  obtain s1 where s1: "run x s = (Ret (fst (step x (abst s))), s1)" "abst s1 = snd (step x (abst s))" "inv s1"
    using simulates [OF Cons.prems] by blast
  from Cons.IH [OF s1(3)] s1(1,2) show ?case by (auto simp: case_prod_unfold Let_def)
qed

text \<open>Two operations that commute in the specification commute in the implementation.\<close>

lemma commute:
  assumes "inv s" "step x (snd (step y (abst s))) = (r, B)" "step y (snd (step x (abst s))) = (r', B)"
    "fst (step x (abst s)) = r" "fst (step y (abst s)) = r'"
  shows "\<exists>s1 s2. sequenceA run [x, y] s = (Ret [r, r'], s1) \<and> sequenceA run [y, x] s = (Ret [r', r], s2) \<and> abst s1 = abst s2"
  using sequence_simulates [OF assms(1), of "[x, y]"] sequence_simulates [OF assms(1), of "[y, x]"] assms(2-)
  by (auto simp: case_prod_unfold Let_def simp del: sequenceA.simps)

end

lemma otherThan_bookOf:
  assumes "otherThan addr w' = otherThan addr w"
  shows "bookOf (store w') = (bookOf (store w))(addr := entryOf (accountOf addr (store w')))"
proof
  fix a
  have "(if a = addr then None else Some (accountOf a (store w'))) = (if a = addr then None else Some (accountOf a (store w)))"
    using assms by (simp add: otherThan_def fun_eq_iff)
  then show "bookOf (store w') a = ((bookOf (store w))(addr := entryOf (accountOf addr (store w')))) a"
    by (simp add: bookOf_def split: if_splits)
qed

lemma needs_written:
  assumes "no_faults env" "accounts_ok (store w)"
  defines "a \<equiv> \<lambda>addr. accountOf addr (store w)"
  shows "\<exists>w'. accountUpdateNeedSmt env addr (int n) w = (Ret (), w') \<and> accounts_ok (store w') \<and>
     otherThan addr w' = otherThan addr w \<and> accountOf addr (store w') = (a addr)\<lparr>a_NeedSmt := int n\<rparr>"
    "\<exists>w'. updateAccountSMT env addr old new w = (Ret (), w') \<and> accounts_ok (store w') \<and>
     otherThan addr w' = otherThan addr w \<and>
     accountOf addr (store w') = (a addr)\<lparr>a_NeedSmt := \<bar>a_NeedSmt (a addr) + new - old\<bar>\<rparr>"
proof -
  have saved: "nonneg ((a addr)\<lparr>a_NeedSmt := k\<rparr>)" "solvent ((a addr)\<lparr>a_NeedSmt := k\<rparr>)" "a_Address ((a addr)\<lparr>a_NeedSmt := k\<rparr>) = word_bytes addr"
    if "0 \<le> k" for k
    using that accountOf_solvent [OF assms(2), of addr] by (simp_all add: a_def nonneg_def solvent_def)
  note writes = saved_account [OF saved assms(2), where n = "Suc (Suc (clock w))"]
  have used: "a_UsedSmt (a addr) \<le> a_TotalReceivedSmt (a addr)" using accountOf_used [OF assms(2)] by (simp add: a_def)
  show "\<exists>w'. accountUpdateNeedSmt env addr (int n) w = (Ret (), w') \<and> accounts_ok (store w') \<and>
     otherThan addr w' = otherThan addr w \<and> accountOf addr (store w') = (a addr)\<lparr>a_NeedSmt := int n\<rparr>"
    using writes [of "int n"] saved(1) [of "int n"] used assms(1,2) by (simp add: accountUpdateNeedSmt_def Let_def a_def)
  let ?k = "a_NeedSmt (a addr) + new - old"
  have abs: "toSerialization ((a addr)\<lparr>a_NeedSmt := ?k\<rparr>) = toSerialization ((a addr)\<lparr>a_NeedSmt := \<bar>?k\<bar>\<rparr>)"
    by (simp add: toSerialization_def BigInt_Bytes_def)
  have keep: "(a addr)\<lparr>a_NeedSmt := \<bar>a_NeedSmt (a addr)\<bar>\<rparr> = a addr" by (simp add: a_def)
  show "\<exists>w'. updateAccountSMT env addr old new w = (Ret (), w') \<and> accounts_ok (store w') \<and>
     otherThan addr w' = otherThan addr w \<and> accountOf addr (store w') = (a addr)\<lparr>a_NeedSmt := \<bar>?k\<bar>\<rparr>"
    using writes [of "\<bar>?k\<bar>"] abs keep assms(1,2)
    by (cases "old = new") (simp_all add: updateAccountSMT_def GetAccountInTx_eq Let_def a_def)
qed

lemma AccountAddSmt_other:
  assumes "no_faults env" "accounts_ok (store w)" "AccountAddSmt env addr (int n) w = (Ret (), w')"
  shows "accounts_ok (store w')"
    "bookOf (store w') = (bookOf (store w))(addr := (bookOf (store w) addr)\<lparr>received := received (bookOf (store w) addr) + n\<rparr>)"
  using AccountAddSmt_ok [OF assms(1,2), of "int n" addr] assms(3)
  by (auto simp: bookOf_def entryOf_def fun_eq_iff nat_add_distrib)

lemma bookOf_ints:
  "int (received (bookOf db a)) = a_TotalReceivedSmt (accountOf a db)" "int (spent (bookOf db a)) = a_UsedSmt (accountOf a db)"
  "int (locked (bookOf db a)) = a_LockedSmt (accountOf a db)" "int (needed (bookOf db a)) = a_NeedSmt (accountOf a db)"
  by (simp_all add: bookOf_def entryOf_def)

lemma bookOf_lock_guard:
  "spent (bookOf db a) + locked (bookOf db a) + n \<le> received (bookOf db a) \<longleftrightarrow> int n \<le> AccountAvailable (accountOf a db)"
  "n \<le> needed (bookOf db a) \<longleftrightarrow> int n \<le> a_NeedSmt (accountOf a db)"
  "n \<le> locked (bookOf db a) \<longleftrightarrow> int n \<le> a_LockedSmt (accountOf a db)"
  using bookOf_ints [of db a] by (auto simp: AccountAvailable_def)

text \<open>An operation that changes one account refines a booking on that account.\<close>

lemma perform_effect:
  assumes "no_faults env" "accounts_ok (store w)" "perform env b w = (Ret r, w')" "accounts_ok (store w')"
    "otherThan (holder b) w' = otherThan (holder b) w"
    "booked b (bookOf (store w) (holder b)) = (if r then Some (entryOf (accountOf (holder b) (store w'))) else None)"
    "\<not> r \<Longrightarrow> accountOf (holder b) (store w') = accountOf (holder b) (store w)"
  shows "\<exists>w'. perform env b w = (Ret (fst (bookStep b (bookOf (store w)))), w') \<and>
      bookOf (store w') = snd (bookStep b (bookOf (store w))) \<and> no_faults env \<and> accounts_ok (store w')"
proof -
  let ?e = "entryOf (accountOf (holder b) (store w'))"
  have book: "bookOf (store w') = (bookOf (store w))(holder b := ?e)" by (rule otherThan_bookOf [OF assms(5)])
  have "bookStep b (bookOf (store w)) = (r, bookOf (store w'))"
  proof (cases r)
    case True
    then show ?thesis using assms(6) book by (simp add: bookStep_def)
  next
    case False
    then have "?e = bookOf (store w) (holder b)" using assms(7) by (simp add: bookOf_def)
    then show ?thesis using assms(6) book False by (simp add: bookStep_def)
  qed
  then show ?thesis using assms(1,3,4) by simp
qed

interpretation accountBook: refines "perform env" bookStep "\<lambda>w. bookOf (store w)" "\<lambda>w. no_faults env \<and> accounts_ok (store w)" for env
proof
  fix w :: world and b assume inv: "no_faults env \<and> accounts_ok (store w)"
  then have ok: "no_faults env" "accounts_ok (store w)" by simp_all
  show "\<exists>w'. perform env b w = (Ret (fst (bookStep b (bookOf (store w)))), w') \<and>
      bookOf (store w') = snd (bookStep b (bookOf (store w))) \<and> no_faults env \<and> accounts_ok (store w')"
  proof (cases b)
    case (Deposit a n)
    obtain w' where "AccountAddSmt env a (int n) w = (Ret (), w')" using AccountAddSmt_ok [OF ok, of "int n" a] by auto
    with AccountAddSmt_other [OF ok this] Deposit ok(1) show ?thesis by (simp add: bookStep_def)
  next
    case (LockFee a n)
    obtain r w' where r: "AccountLockSmt env a (int n) w = (Ret r, w')" "accounts_ok (store w')" "otherThan a w' = otherThan a w"
      "r = None \<longleftrightarrow> int n \<le> AccountAvailable (accountOf a (store w)) \<and> int n \<le> a_NeedSmt (accountOf a (store w))"
      "accountOf a (store w') = (if r = None then (accountOf a (store w))\<lparr>a_LockedSmt := a_LockedSmt (accountOf a (store w)) + int n,
          a_NeedSmt := a_NeedSmt (accountOf a (store w)) - int n\<rparr> else accountOf a (store w))"
      using AccountLockSmt_effect [OF ok of_nat_0_le_iff, of a n] by blast
    have "booked b (bookOf (store w) (holder b)) = (if r = None then Some (entryOf (accountOf (holder b) (store w'))) else None)"
      using r(4,5) LockFee by (auto simp: bookOf_lock_guard) (auto simp: bookOf_def entryOf_def nat_add_distrib nat_diff_distrib)
    with r LockFee show ?thesis by (intro perform_effect [OF ok, of b "r = None" w']) auto
  next
    case (ReturnFee a n)
    obtain r w' where r: "AccountUnlockSmt env a (int n) w = (Ret r, w')" "accounts_ok (store w')" "otherThan a w' = otherThan a w"
      "r = None \<longleftrightarrow> int n \<le> a_LockedSmt (accountOf a (store w))"
      "accountOf a (store w') = (if r = None then (accountOf a (store w))\<lparr>a_LockedSmt := a_LockedSmt (accountOf a (store w)) - int n\<rparr>
         else accountOf a (store w))"
      using AccountUnlockSmt_effect [OF ok of_nat_0_le_iff, of a n] by blast
    have "booked b (bookOf (store w) (holder b)) = (if r = None then Some (entryOf (accountOf (holder b) (store w'))) else None)"
      using r(4,5) ReturnFee by (auto simp: bookOf_lock_guard) (auto simp: bookOf_def entryOf_def nat_diff_distrib)
    with r ReturnFee show ?thesis by (intro perform_effect [OF ok, of b "r = None" w']) auto
  next
    case (SpendFee a n)
    obtain r w' where r: "AccountUseSmt env a (int n) w = (Ret r, w')" "accounts_ok (store w')" "otherThan a w' = otherThan a w"
      "r = None \<longleftrightarrow> int n \<le> a_LockedSmt (accountOf a (store w))"
      "accountOf a (store w') = (if r = None then (accountOf a (store w))\<lparr>a_LockedSmt := a_LockedSmt (accountOf a (store w)) - int n,
          a_UsedSmt := a_UsedSmt (accountOf a (store w)) + int n\<rparr> else accountOf a (store w))"
      using AccountUseSmt_effect [OF ok of_nat_0_le_iff, of a n] by blast
    have "booked b (bookOf (store w) (holder b)) = (if r = None then Some (entryOf (accountOf (holder b) (store w'))) else None)"
      using r(4,5) SpendFee by (auto simp: bookOf_lock_guard) (auto simp: bookOf_def entryOf_def nat_add_distrib nat_diff_distrib)
    with r SpendFee show ?thesis by (intro perform_effect [OF ok, of b "r = None" w']) auto
  next
    case (SetNeed a n)
    from needs_written(1) [OF ok, of a n] obtain w' where
      "accountUpdateNeedSmt env a (int n) w = (Ret (), w')" "accounts_ok (store w')" "otherThan a w' = otherThan a w"
      "accountOf a (store w') = (accountOf a (store w))\<lparr>a_NeedSmt := int n\<rparr>" by blast
    with SetNeed show ?thesis
      by (intro perform_effect [OF ok, of b True w']) (auto simp: bookOf_def entryOf_def)
  next
    case (ChangeNeed a old new)
    from needs_written(2) [OF ok, of a "int old" "int new"] obtain w' where
      w': "updateAccountSMT env a (int old) (int new) w = (Ret (), w')" "accounts_ok (store w')" "otherThan a w' = otherThan a w"
      "accountOf a (store w') = (accountOf a (store w))\<lparr>a_NeedSmt := \<bar>a_NeedSmt (accountOf a (store w)) + int new - int old\<bar>\<rparr>" by blast
    have "nat \<bar>a_NeedSmt (accountOf a (store w)) + int new - int old\<bar> = (if old \<le> needed (bookOf (store w) a) + new
        then needed (bookOf (store w) a) + new - old else old - (needed (bookOf (store w) a) + new))"
      unfolding bookOf_ints(4) [of "store w" a, symmetric] by auto
    then have "booked b (bookOf (store w) (holder b)) = Some (entryOf (accountOf (holder b) (store w')))"
      using w'(4) ChangeNeed by (simp add: bookOf_def entryOf_def)
    with w' ChangeNeed show ?thesis by (intro perform_effect [OF ok, of b True w']) simp_all
  qed
qed

subsection \<open>Properties\<close>

text \<open>
  C17. The accounts refine the book: any sequence of deposits, locks, returns, spendings and changes of the need, run on the
  database when no statement fails, answers exactly as the book does (which operations are refused), and leaves in the
  database exactly the four numbers of the book, for every address.
\<close>
theorem accounts_refine_book:
  assumes "no_faults env" "accounts_ok (store w)"
  shows "\<exists>w'. sequenceA (perform env) bs w = (Ret (fst (specRun bookStep bs (bookOf (store w)))), w') \<and>
     bookOf (store w') = snd (specRun bookStep bs (bookOf (store w))) \<and> accounts_ok (store w')"
  using accountBook.sequence_simulates [of env w bs] assms by blast

theorem accounts_refine_book_witness:
  "\<exists>w'. sequenceA (perform quietEnv) [LockFee 7 15, Deposit 7 5, LockFee 7 6, SpendFee 7 10, ReturnFee 7 5, LockFee 7 6] accountWorld
       = (Ret [True, True, False, True, True, False], w') \<and>
     bookOf (store w') 7 = \<lparr>received = 25, spent = 10, locked = 0, needed = 5\<rparr>"
proof -
  have "bookOf (store accountWorld) 7 = \<lparr>received = 20, spent = 0, locked = 0, needed = 20\<rparr>"
    by (simp add: bookOf_def) (simp add: entryOf_def sampleAccount_def)
  then show ?thesis
    using accounts_refine_book [OF no_faults_quietEnv accountWorld_ok, of "[LockFee 7 15, Deposit 7 5, LockFee 7 6, SpendFee 7 10, ReturnFee 7 5, LockFee 7 6]"]
    by (auto simp: bookStep_def simp del: sequenceA.simps)
qed

text \<open>
  Operations on different accounts commute: in either order they give the same answers and the same numbers in
  every account.
\<close>
lemma different_accounts_commute:
  assumes "no_faults env" "accounts_ok (store w)" "holder x \<noteq> holder y"
  shows "\<exists>r r' w1 w2. sequenceA (perform env) [x, y] w = (Ret [r, r'], w1) \<and> sequenceA (perform env) [y, x] w = (Ret [r', r], w2) \<and>
     bookOf (store w1) = bookOf (store w2)"
proof -
  let ?B = "bookOf (store w)"
  have "bookStep x (snd (bookStep y ?B)) = (fst (bookStep x ?B), snd (bookStep x (snd (bookStep y ?B))))"
    "bookStep y (snd (bookStep x ?B)) = (fst (bookStep y ?B), snd (bookStep x (snd (bookStep y ?B))))"
    using assms(3) by (auto simp: bookStep_def fun_upd_twist split: option.split)
  from accountBook.commute [OF _ this refl refl] assms(1,2) show ?thesis by blast
qed

lemma different_accounts_commute_witness:
  "\<exists>r r' w1 w2. sequenceA (perform quietEnv) [Deposit 8 3, LockFee 7 15] accountWorld = (Ret [r, r'], w1) \<and>
     sequenceA (perform quietEnv) [LockFee 7 15, Deposit 8 3] accountWorld = (Ret [r', r], w2) \<and> bookOf (store w1) = bookOf (store w2)"
  using different_accounts_commute [OF no_faults_quietEnv accountWorld_ok, of "Deposit 8 3" "LockFee 7 15"] by simp

text \<open>\<open>AccountLockSmt\<close> after its read: what a goroutine still has to do when another one runs in between.\<close>

definition lockAfterRead :: "env \<Rightarrow> int \<Rightarrow> account \<Rightarrow> error option action" where
  "lockAfterRead env amount a =
     (let av = AccountAvailable a in
     if av < amount then returnA (Some (BalanceNotEnough av amount))
     else if a_NeedSmt a < amount then returnA (Some (NeedSmtSmaller (a_NeedSmt a) amount))
     else
       let a' = a\<lparr>a_LockedSmt := a_LockedSmt a + amount, a_NeedSmt := a_NeedSmt a - amount\<rparr> in
       bindA (accountSanity a') (\<lambda>_.
       db_write env (saveAccount (toSerialization a'))))"

lemma AccountLockSmt_split: "AccountLockSmt env addr amount = bindA (AccountGetAccount env addr) (lockAfterRead env amount)"
  by (simp add: AccountLockSmt_def lockAfterRead_def [abs_def])

text \<open>
  A deposit that arrives while a lock is between its read and its write is lost, when no statement fails: \<open>AccountLockSmt\<close> is a read
  followed by the write of the whole row; when the deposit of the same account runs in between, it returns normally, and the
  write then puts the old total back.  The lock succeeds as well.
\<close>
lemma concurrent_deposit_lost:
  fixes addr :: Address
  assumes "no_faults env" "accounts_ok (store w)" "0 \<le> fee" "0 < n"
    "fee \<le> AccountAvailable (accountOf addr (store w))" "fee \<le> a_NeedSmt (accountOf addr (store w))"
  shows "AccountLockSmt env addr fee = bindA (AccountGetAccount env addr) (lockAfterRead env fee) \<and>
    (\<exists>w'. bindA (AccountGetAccount env addr) (\<lambda>a. bindA (AccountAddSmt env addr n) (\<lambda>_. lockAfterRead env fee a)) w = (Ret None, w') \<and>
     a_TotalReceivedSmt (accountOf addr (store w')) = a_TotalReceivedSmt (accountOf addr (store w)) \<and>
     a_LockedSmt (accountOf addr (store w')) = a_LockedSmt (accountOf addr (store w)) + fee)"
proof -
  let ?a = "accountOf addr (store w)"
  let ?a' = "?a\<lparr>a_LockedSmt := a_LockedSmt ?a + fee, a_NeedSmt := a_NeedSmt ?a - fee\<rparr>"
  have row: "nonneg ?a'" "solvent ?a'" "a_Address ?a' = word_bytes addr"
    using assms(3,5,6) by (auto simp: nonneg_def solvent_def AccountAvailable_def)
  obtain w1 where w1: "AccountAddSmt env addr n (tick w) = (Ret (), w1)" "accounts_ok (store w1)"
    using AccountAddSmt_ok [OF assms(1), of "tick w" n addr] assms(2,4) by auto
  have "lockAfterRead env fee ?a w1 = (Ret None, w1\<lparr>clock := Suc (clock w1), store := saveAccount (toSerialization ?a') (store w1)\<rparr>)"
    using assms(1,5,6) row(1) accountOf_used [OF assms(2), of addr] by (simp add: lockAfterRead_def Let_def)
  with w1(1) saved_account(2) [OF row w1(2), of "Suc (clock w1)"] assms(1,2) show ?thesis
    by (simp add: AccountLockSmt_split)
qed

lemma concurrent_deposit_lost_witness:
  "\<exists>w'. bindA (AccountGetAccount quietEnv 7) (\<lambda>a. bindA (AccountAddSmt quietEnv 7 100) (\<lambda>_. lockAfterRead quietEnv 5 a)) accountWorld = (Ret None, w') \<and>
     a_TotalReceivedSmt (accountOf 7 (store w')) = 20"
  using concurrent_deposit_lost [OF no_faults_quietEnv accountWorld_ok, of 5 100 7] by (auto simp: sampleAccount_def AccountAvailable_def)

end
