(* ===== verification/PM_Interleave.thy ===== *)
theory PM_Interleave
  imports PM_Book
begin

text \<open>
  The operations on accounts, statement by statement.  The goroutines of \<open>chainservice/events.go\<close>, the handlers and the poll run
  them without a lock, so that the database sees their statements in any order.  A \<open>thread\<close> is an operation of the book
  between two statements, with the account it has read; \<open>statement\<close> is its next statement and what it computes from the answer.

  The locale \<open>isolated\<close> is the contract of steps that touch one part of the state only; the interpretation shows it for threads of
  different accounts.  Operations on different accounts then behave as in sequence, in every order of their statements;
  operations on one account do not.
\<close>

subsection \<open>Interleaving\<close>

text \<open>The thread whose turn it is makes one step.\<close>

fun interleave :: "('t \<Rightarrow> 's \<Rightarrow> 't \<times> 's) \<Rightarrow> nat list \<Rightarrow> 't list \<Rightarrow> 's \<Rightarrow> 't list \<times> 's" where
  "interleave step [] ts s = (ts, s)"
| "interleave step (i # turns) ts s =
     (if i < length ts then (case step (ts ! i) s of (t, s') \<Rightarrow> interleave step turns (ts[i := t]) s')
      else interleave step turns ts s)"

fun alone :: "('t \<Rightarrow> 's \<Rightarrow> 't \<times> 's) \<Rightarrow> nat \<Rightarrow> 't \<Rightarrow> 's \<Rightarrow> 't \<times> 's" where
  "alone step 0 t s = (t, s)"
| "alone step (Suc n) t s = (case step t s of (t', s') \<Rightarrow> alone step n t' s')"

locale isolated =
  fixes step :: "'t \<Rightarrow> 's \<Rightarrow> 't \<times> 's" and key :: "'t \<Rightarrow> 'k" and view :: "'k \<Rightarrow> 's \<Rightarrow> 'v"
    and good :: "'t \<Rightarrow> bool" and inv :: "'s \<Rightarrow> bool"
  assumes stays: "inv s \<Longrightarrow> good t \<Longrightarrow> key (fst (step t s)) = key t \<and> good (fst (step t s)) \<and> inv (snd (step t s))"
    and own: "inv s \<Longrightarrow> inv v \<Longrightarrow> good t \<Longrightarrow> view (key t) v = view (key t) s \<Longrightarrow>
      fst (step t v) = fst (step t s) \<and> view (key t) (snd (step t v)) = view (key t) (snd (step t s))"
    and other: "inv s \<Longrightarrow> good t \<Longrightarrow> k \<noteq> key t \<Longrightarrow> view k (snd (step t s)) = view k s"
begin

lemma projection:
  assumes "inv s" "\<forall>t \<in> set ts. good t" "distinct (map key ts)" "interleave step turns ts s = (ts', s')"
  shows "length ts' = length ts \<and> inv s' \<and> (\<forall>k. k \<notin> key ` set ts \<longrightarrow> view k s' = view k s) \<and>
     (\<forall>i v. i < length ts \<and> inv v \<and> view (key (ts ! i)) v = view (key (ts ! i)) s \<longrightarrow>
        ts' ! i = fst (alone step (count_list turns i) (ts ! i) v) \<and>
        view (key (ts ! i)) s' = view (key (ts ! i)) (snd (alone step (count_list turns i) (ts ! i) v)))"
  using assms
proof (induction turns arbitrary: ts s)
  case (Cons j turns)
  show ?case
  proof (cases "j < length ts")
    case False
    with Cons.prems(4) have "interleave step turns ts s = (ts', s')" by simp
    from Cons.IH [OF Cons.prems(1-3) this] False show ?thesis by auto
  next
    case j: True
    obtain t s1 where st: "step (ts ! j) s = (t, s1)" by fastforce
    let ?ts = "ts[j := t]"
    have gj: "good (ts ! j)" using Cons.prems(2) j by simp
    have t: "key t = key (ts ! j)" "good t" "inv s1" using stays [OF Cons.prems(1) gj] st by simp_all
    have keys: "map key ?ts = map key ts" using t(1) by (simp add: map_update list_update_same_conv j)
    then have kset: "key ` set ?ts = key ` set ts" by (metis set_map)
    have good: "\<forall>t \<in> set ?ts. good t" using Cons.prems(2) t(2) by (auto dest: set_update_subset_insert [THEN subsetD])
    have run: "interleave step turns ?ts s1 = (ts', s')" using Cons.prems(4) j st by simp
    have dist: "distinct (map key ?ts)" using Cons.prems(3) keys by simp
    note IH = Cons.IH [OF t(3) good dist run]
    have later: "ts' ! i = fst (alone step (count_list turns i) (?ts ! i) v)"
        "view (key (?ts ! i)) s' = view (key (?ts ! i)) (snd (alone step (count_list turns i) (?ts ! i) v))"
      if "i < length ts" "inv v" "view (key (?ts ! i)) v = view (key (?ts ! i)) s1" for i v
      using IH that by auto
    have away: "view k s1 = view k s" if "k \<noteq> key (ts ! j)" for k
      using other [OF Cons.prems(1) gj that] st by simp
    have keyi: "key (?ts ! i) = key (ts ! i)" if "i < length ts" for i
      using that t(1) by (cases "i = j") simp_all
    have one: "ts' ! i = fst (alone step (count_list (j # turns) i) (ts ! i) v) \<and>
        view (key (ts ! i)) s' = view (key (ts ! i)) (snd (alone step (count_list (j # turns) i) (ts ! i) v))"
      if i: "i < length ts" and v: "inv v" "view (key (ts ! i)) v = view (key (ts ! i)) s" for i v
    proof (cases "i = j")
      case True
      obtain t' v1 where sv: "step (ts ! i) v = (t', v1)" by fastforce
      have "t' = t" "view (key (ts ! i)) v1 = view (key (ts ! i)) s1"
        using own [OF Cons.prems(1) v(1) gj] v(2) True st sv by simp_all
      moreover have "inv v1" using stays [OF v(1) gj] sv True by simp
      ultimately show ?thesis using later [of i v1] i True sv t(1) by simp
    next
      case False
      then have "key (ts ! i) \<noteq> key (ts ! j)" using Cons.prems(3) i j by (simp add: distinct_conv_nth)
      with v(2) away have "view (key (?ts ! i)) v = view (key (?ts ! i)) s1" using keyi [OF i] by simp
      with later [OF i v(1)] False keyi [OF i] show ?thesis by simp
    qed
    have "key (ts ! j) \<in> key ` set ts" using j by simp
    then have rest: "view k s' = view k s" if "k \<notin> key ` set ts" for k
      using IH that away [of k] kset by metis
    show ?thesis using IH one rest by simp
  qed
qed auto

end

subsection \<open>The account operations\<close>

datatype thread =
    Called booking
  | Creating Address nat
  | WritingTotal Address account
  | WritingRow Address bool account
  | Answered Address bool
  | Panicked Address string

fun threadHolder :: "thread \<Rightarrow> Address" where
  "threadHolder (Called b) = holder b"
| "threadHolder (Creating a n) = a"
| "threadHolder (WritingTotal a x) = a"
| "threadHolder (WritingRow a p x) = a"
| "threadHolder (Answered a r) = a"
| "threadHolder (Panicked a msg) = a"

text \<open>What \<open>AccountAddSmt\<close> computes from the row it has found or created.\<close>

definition addTo :: "Address \<Rightarrow> nat \<Rightarrow> accountSerialization \<Rightarrow> thread action" where
  "addTo a n al =
     (let x = toAccount al; x' = x\<lparr>a_TotalReceivedSmt := a_TotalReceivedSmt x + int n\<rparr> in
      bindA (accountSanity x') (\<lambda>_. returnA (WritingTotal a x')))"

text \<open>The last but one argument of \<open>WritingRow\<close> says whether a failing write is a panic.  A change of the need is one step: it is in a transaction.\<close>

fun statement :: "env \<Rightarrow> thread \<Rightarrow> thread action" where
  "statement env (Called (Deposit a n)) =
     bindA (findAccount env a) (\<lambda>r.
     case r of Inl ErrRecordNotFound \<Rightarrow> returnA (Creating a n) | Inl _ \<Rightarrow> addTo a n (newAccountRow a) | Inr al \<Rightarrow> addTo a n al)"
| "statement env (Called (LockFee a n)) =
     bindA (AccountGetAccount env a) (\<lambda>x.
     if AccountAvailable x < int n \<or> a_NeedSmt x < int n then returnA (Answered a False) else
     let x' = x\<lparr>a_LockedSmt := a_LockedSmt x + int n, a_NeedSmt := a_NeedSmt x - int n\<rparr> in
     bindA (accountSanity x') (\<lambda>_. returnA (WritingRow a False x')))"
| "statement env (Called (ReturnFee a n)) =
     bindA (AccountGetAccount env a) (\<lambda>x.
     if a_LockedSmt x < int n then returnA (Answered a False) else
     let x' = x\<lparr>a_LockedSmt := a_LockedSmt x - int n\<rparr> in
     bindA (accountSanity x') (\<lambda>_. returnA (WritingRow a False x')))"
| "statement env (Called (SpendFee a n)) =
     bindA (AccountGetAccount env a) (\<lambda>x.
     if a_LockedSmt x < int n then returnA (Answered a False) else
     let x' = x\<lparr>a_LockedSmt := a_LockedSmt x - int n, a_UsedSmt := a_UsedSmt x + int n\<rparr> in
     bindA (accountSanity x') (\<lambda>_. returnA (WritingRow a False x')))"
| "statement env (Called (SetNeed a n)) =
     bindA (AccountGetAccount env a) (\<lambda>x.
     let x' = x\<lparr>a_NeedSmt := int n\<rparr> in
     bindA (accountSanity x') (\<lambda>_. returnA (WritingRow a True x')))"
| "statement env (Called (ChangeNeed a old new)) =
     bindA (updateAccountSMT env a (int old) (int new)) (\<lambda>_. returnA (Answered a True))"
| "statement env (Creating a n) =
     bindA (db_write env (saveAccount (newAccountRow a))) (\<lambda>_. addTo a n (newAccountRow a))"
| "statement env (WritingTotal a x) =
     (let al' = toSerialization x in
      bindA (db_write env (\<lambda>db. db\<lparr>tAccount :=
              gorm_update_column blankList al_Address (al_Address al')
                (\<lambda>row. row\<lparr>al_TotalReceivedSmtBytes := al_TotalReceivedSmtBytes al'\<rparr>) (tAccount db)\<rparr>)) (\<lambda>err.
      case err of None \<Rightarrow> returnA (Answered a True) | Some e \<Rightarrow> panicA (''save account err '' @ errText e)))"
| "statement env (WritingRow a p x) =
     bindA (db_write env (saveAccount (toSerialization x))) (\<lambda>err.
     case err of None \<Rightarrow> returnA (Answered a True)
     | Some e \<Rightarrow> if p then panicA (''save account err '' @ errText e) else returnA (Answered a False))"
| "statement env (Answered a r) = returnA (Answered a r)"
| "statement env (Panicked a msg) = returnA (Panicked a msg)"

definition settled :: "Address \<Rightarrow> thread outcome \<times> world \<Rightarrow> thread \<times> world" where
  "settled a x = (case x of (Ret t, w) \<Rightarrow> (t, w) | (Panic msg, w) \<Rightarrow> (Panicked a msg, w))"

definition threadStep :: "env \<Rightarrow> thread \<Rightarrow> world \<Rightarrow> thread \<times> world" where
  "threadStep env t w = settled (threadHolder t) (statement env t w)"

subsection \<open>One thread alone\<close>

lemma finished_stays [simp]:
  "threadStep env (Answered a r) w = (Answered a r, w)" "threadStep env (Panicked a msg) w = (Panicked a msg, w)"
  "alone (threadStep env) n (Answered a r) w = (Answered a r, w)" "alone (threadStep env) n (Panicked a msg) w = (Panicked a msg, w)"
proof -
  show *: "threadStep env (Answered a r) w = (Answered a r, w)" "threadStep env (Panicked a msg) w = (Panicked a msg, w)"
    by (simp_all add: threadStep_def settled_def)
  show "alone (threadStep env) n (Answered a r) w = (Answered a r, w)" "alone (threadStep env) n (Panicked a msg) w = (Panicked a msg, w)"
    by (induction n) (simp_all add: *)
qed

lemma accountSanity_cases:
  obtains "\<And>w. accountSanity a w = (Ret (), w)" | msg where "\<And>w. accountSanity a w = (Panic msg, w)"
  unfolding accountSanity_def by (cases "a_TotalReceivedSmt a < 0"; cases "a_UsedSmt a < 0"; cases "a_LockedSmt a < 0";
    cases "a_NeedSmt a < 0"; cases "a_UsedSmt a > a_TotalReceivedSmt a") auto

lemma addTo_cases:
  "addTo a n al w =
     (case accountSanity ((toAccount al)\<lparr>a_TotalReceivedSmt := a_TotalReceivedSmt (toAccount al) + int n\<rparr>) w of
        (Ret _, w') \<Rightarrow> (Ret (WritingTotal a ((toAccount al)\<lparr>a_TotalReceivedSmt := a_TotalReceivedSmt (toAccount al) + int n\<rparr>)), w')
      | (Panic msg, w') \<Rightarrow> (Panic msg, w'))"
  by (simp add: addTo_def Let_def bindA_def split: outcome.split prod.split)

text \<open>The second half of \<open>AccountAddSmt\<close>, from the row on.\<close>

definition addRest :: "env \<Rightarrow> nat \<Rightarrow> accountSerialization \<Rightarrow> unit action" where
  "addRest env n al =
     (let a = toAccount al; a' = a\<lparr>a_TotalReceivedSmt := a_TotalReceivedSmt a + int n\<rparr> in
     bindA (accountSanity a') (\<lambda>_.
     let al' = toSerialization a' in
     bindA (db_write env (\<lambda>db. db\<lparr>tAccount :=
              gorm_update_column blankList al_Address (al_Address al')
                (\<lambda>row. row\<lparr>al_TotalReceivedSmtBytes := al_TotalReceivedSmtBytes al'\<rparr>) (tAccount db)\<rparr>)) (\<lambda>err.
     case err of None \<Rightarrow> returnA () | Some e \<Rightarrow> panicA (''save account err '' @ errText e))))"

lemma AccountAddSmt_rest:
  "AccountAddSmt env a (int n) = bindA (findAccount env a) (\<lambda>r. case r of
     Inl ErrRecordNotFound \<Rightarrow> bindA (db_write env (saveAccount (newAccountRow a))) (\<lambda>_. addRest env n (newAccountRow a))
   | Inl _ \<Rightarrow> addRest env n (newAccountRow a)
   | Inr al \<Rightarrow> addRest env n al)"
  by (auto simp: AccountAddSmt_def addRest_def bindA_def fun_eq_iff Let_def split: outcome.split prod.split sum.split error.split)

lemma addTo_then_write:
  "(case settled a (addTo a n al w) of (t, w') \<Rightarrow> alone (threadStep env) (Suc k) t w') =
   settled a (bindA (addRest env n al) (\<lambda>_. returnA (Answered a True)) w)"
proof -
  let ?x = "(toAccount al)\<lparr>a_TotalReceivedSmt := a_TotalReceivedSmt (toAccount al) + int n\<rparr>"
  show ?thesis
    by (cases rule: accountSanity_cases [of ?x])
      (simp_all add: addTo_cases addRest_def Let_def bindA_def threadStep_def settled_def db_write_def split: option.split)
qed

lemma settled_answer:
  "settled a (bindA f (\<lambda>_. returnA (Answered a True)) w) =
     (case bindA f (\<lambda>_. returnA True) w of (Ret r, w') \<Rightarrow> (Answered a r, w') | (Panic msg, w') \<Rightarrow> (Panicked a msg, w'))"
  by (simp add: settled_def bindA_def split: outcome.split prod.split)

lemma alone_three:
  "alone step 3 t s = (case step t s of (t', s') \<Rightarrow> alone step (Suc 1) t' s')"
  "alone step 3 t s = (case step t s of (t', s') \<Rightarrow> case step t' s' of (t2, s2) \<Rightarrow> alone step (Suc 0) t2 s2)"
  by (simp_all add: numeral_3_eq_3 split: prod.split)

lemma findAccount_Ret: obtains r where "findAccount env a w = (Ret r, tick w)"
  by (cases "env_fault env (clock w)") (simp_all add: findAccount_def db_query_def)

lemma db_write_Ret: obtains err w' where "db_write env f w = (Ret err, w')"
  by (cases "env_fault env (clock w)") (simp_all add: db_write_def)

lemmas threadStep_simps = threadStep_def settled_def bindA_def db_write_def db_query_def Let_def numeral_3_eq_3

lemma alone_perform:
  "alone (threadStep env) 3 (Called b) w =
     (case perform env b w of (Ret r, w') \<Rightarrow> (Answered (holder b) r, w') | (Panic msg, w') \<Rightarrow> (Panicked (holder b) msg, w'))"
proof (cases b)
  case (Deposit a n)
  obtain r where r: "findAccount env a w = (Ret r, tick w)" by (rule findAccount_Ret)
  obtain err w2 where w2: "db_write env (saveAccount (newAccountRow a)) (tick w) = (Ret err, w2)"
    by (rule db_write_Ret)
  have found: ?thesis if "threadStep env (Called b) w = settled a (addTo a n al (tick w))"
      "perform env b w = bindA (addRest env n al) (\<lambda>_. returnA True) (tick w)" for al
    unfolding alone_three(1) that addTo_then_write settled_answer unfolding Deposit holder.simps by (rule refl)
  consider "r = Inl ErrRecordNotFound" | e where "r = Inl e" "e \<noteq> ErrRecordNotFound" | al where "r = Inr al" by (cases r) auto
  then show ?thesis
  proof cases
    case 1
    then have "threadStep env (Called b) w = (Creating a n, tick w)"
      "threadStep env (Creating a n) (tick w) = settled a (addTo a n (newAccountRow a) w2)"
      "perform env b w = bindA (addRest env n (newAccountRow a)) (\<lambda>_. returnA True) w2"
      using r w2 Deposit by (simp_all add: threadStep_def settled_def bindA_def AccountAddSmt_rest)
    then show ?thesis
      unfolding alone_three(2) by (simp only: prod.case addTo_then_write settled_answer) (simp only: Deposit holder.simps)
  next
    case (2 e)
    then have "threadStep env (Called b) w = settled a (addTo a n (newAccountRow a) (tick w))"
      "perform env b w = bindA (addRest env n (newAccountRow a)) (\<lambda>_. returnA True) (tick w)"
      using r Deposit by (simp_all add: threadStep_def bindA_def AccountAddSmt_rest split: error.split)
    then show ?thesis by (rule found)
  next
    case (3 al)
    then have "threadStep env (Called b) w = settled a (addTo a n al (tick w))"
      "perform env b w = bindA (addRest env n al) (\<lambda>_. returnA True) (tick w)"
      using r Deposit by (simp_all add: threadStep_def bindA_def AccountAddSmt_rest)
    then show ?thesis by (rule found)
  qed
next
  case (LockFee a n)
  then show ?thesis
    by (auto simp: threadStep_simps AccountLockSmt_def split: outcome.splits prod.splits option.splits)
next
  case (ReturnFee a n)
  then show ?thesis
    by (auto simp: threadStep_simps AccountUnlockSmt_def split: outcome.splits prod.splits option.splits)
next
  case (SpendFee a n)
  then show ?thesis
    by (auto simp: threadStep_simps AccountUseSmt_def split: outcome.splits prod.splits option.splits)
next
  case (SetNeed a n)
  then show ?thesis
    by (auto simp: threadStep_simps accountUpdateNeedSmt_def split: outcome.splits prod.splits option.splits)
next
  case (ChangeNeed a old new)
  then show ?thesis
    by (auto simp: threadStep_simps split: outcome.splits prod.splits)
qed

subsection \<open>Threads of different accounts\<close>

definition threadsMay :: "env \<Rightarrow> world \<Rightarrow> bool" where
  "threadsMay env w \<longleftrightarrow> no_faults env \<and> distinct (map al_Address (tAccount (store w)))"

fun goodThread :: "thread \<Rightarrow> bool" where
  "goodThread (WritingTotal a x) \<longleftrightarrow> a_Address x = word_bytes a"
| "goodThread (WritingRow a p x) \<longleftrightarrow> a_Address x = word_bytes a"
| "goodThread _ \<longleftrightarrow> True"

definition checked :: "Address \<Rightarrow> account \<Rightarrow> thread \<Rightarrow> thread" where
  "checked a x t = (case fst (accountSanity x freshWorld) of Ret _ \<Rightarrow> t | Panic msg \<Rightarrow> Panicked a msg)"

lemma checked_holder [simp]: "threadHolder t = a \<Longrightarrow> threadHolder (checked a x t) = a"
  by (simp add: checked_def split: outcome.split)

lemma checked_good [simp]: "goodThread t \<Longrightarrow> goodThread (checked a x t)"
  by (simp add: checked_def split: outcome.split)

lemma settled_checked [simp]: "settled a (bindA (accountSanity x) (\<lambda>_. returnA t) w) = (checked a x t, w)"
  by (cases rule: accountSanity_cases [of x]) (simp_all add: settled_def bindA_def checked_def)

definition deposited :: "nat \<Rightarrow> accountSerialization \<Rightarrow> account" where
  "deposited n al = (toAccount al)\<lparr>a_TotalReceivedSmt := a_TotalReceivedSmt (toAccount al) + int n\<rparr>"

lemma settled_addTo [simp]: "settled a (addTo a n al w) = (checked a (deposited n al) (WritingTotal a (deposited n al)), w)"
  by (simp add: addTo_def Let_def deposited_def)

lemma settled_Ret [simp]: "settled a (Ret t, w) = (t, w)"
  by (simp add: settled_def)

lemma settled_bind [simp]: "f w = (Ret x, w') \<Longrightarrow> settled a (bindA f k w) = settled a (k x w')"
  by (simp add: bindA_def)

lemma threadsMay_reads:
  assumes "threadsMay env w"
  shows "findAccount env a w = (Ret (case accountBy (word_bytes a) (store w) of None \<Rightarrow> Inl ErrRecordNotFound | Some al \<Rightarrow> Inr al), tick w)"
    "AccountGetAccount env a w = (Ret (accountOf a (store w)), tick w)"
proof -
  show *: "findAccount env a w = (Ret (case accountBy (word_bytes a) (store w) of None \<Rightarrow> Inl ErrRecordNotFound | Some al \<Rightarrow> Inr al), tick w)"
    using assms by (simp add: findAccount_def gorm_find_where_key threadsMay_def)
  show "AccountGetAccount env a w = (Ret (accountOf a (store w)), tick w)"
    by (simp add: AccountGetAccount_def * accountOf_def split: option.split)
qed

definition needChanged :: "nat \<Rightarrow> nat \<Rightarrow> account \<Rightarrow> account" where
  "needChanged old new x = x\<lparr>a_NeedSmt := a_NeedSmt x + int new - int old\<rparr>"

text \<open>Every step, when no statement fails.\<close>

lemma threadStep_forms:
  assumes "threadsMay env w"
  defines "x \<equiv> \<lambda>a. accountOf a (store w)"
  shows "threadStep env (Called (Deposit a n)) w = (case accountBy (word_bytes a) (store w) of
       None \<Rightarrow> Creating a n | Some al \<Rightarrow> checked a (deposited n al) (WritingTotal a (deposited n al)), tick w)"
    "threadStep env (Called (LockFee a n)) w = (if AccountAvailable (x a) < int n \<or> a_NeedSmt (x a) < int n then Answered a False else
       let x' = (x a)\<lparr>a_LockedSmt := a_LockedSmt (x a) + int n, a_NeedSmt := a_NeedSmt (x a) - int n\<rparr> in checked a x' (WritingRow a False x'), tick w)"
    "threadStep env (Called (ReturnFee a n)) w = (if a_LockedSmt (x a) < int n then Answered a False else
       let x' = (x a)\<lparr>a_LockedSmt := a_LockedSmt (x a) - int n\<rparr> in checked a x' (WritingRow a False x'), tick w)"
    "threadStep env (Called (SpendFee a n)) w = (if a_LockedSmt (x a) < int n then Answered a False else
       let x' = (x a)\<lparr>a_LockedSmt := a_LockedSmt (x a) - int n, a_UsedSmt := a_UsedSmt (x a) + int n\<rparr> in checked a x' (WritingRow a False x'), tick w)"
    "threadStep env (Called (SetNeed a n)) w = (let x' = (x a)\<lparr>a_NeedSmt := int n\<rparr> in checked a x' (WritingRow a True x'), tick w)"
    "threadStep env (Called (ChangeNeed a old new)) w = (Answered a True, if old = new then w else
       w\<lparr>clock := Suc (Suc (clock w)), store := saveAccount (toSerialization (needChanged old new (x a))) (store w)\<rparr>)"
    "threadStep env (Creating a n) w = (checked a (deposited n (newAccountRow a)) (WritingTotal a (deposited n (newAccountRow a))),
       (tick w)\<lparr>store := saveAccount (newAccountRow a) (store w)\<rparr>)"
    "threadStep env (WritingTotal a y) w = (Answered a True, (tick w)\<lparr>store := (store w)\<lparr>tAccount :=
       gorm_update_column blankList al_Address (a_Address y)
         (\<lambda>row. row\<lparr>al_TotalReceivedSmtBytes := al_TotalReceivedSmtBytes (toSerialization y)\<rparr>) (tAccount (store w))\<rparr>\<rparr>)"
    "threadStep env (WritingRow a p y) w = (Answered a True, (tick w)\<lparr>store := saveAccount (toSerialization y) (store w)\<rparr>)"
  using assms(1) unfolding threadsMay_def
  by (simp_all add: threadStep_def threadsMay_reads [OF assms(1)] Let_def x_def updateAccountSMT_def GetAccountInTx_eq needChanged_def
      split: option.split)

lemma holder_cases:
  obtains (deposit) a n where "t = Called (Deposit a n)" | (lock) a n where "t = Called (LockFee a n)"
    | (return) a n where "t = Called (ReturnFee a n)" | (spend) a n where "t = Called (SpendFee a n)"
    | (set) a n where "t = Called (SetNeed a n)" | (change) a old new where "t = Called (ChangeNeed a old new)"
    | (creating) a n where "t = Creating a n" | (total) a y where "t = WritingTotal a y" | (row) a p y where "t = WritingRow a p y"
    | (answered) a r where "t = Answered a r" | (panicked) a msg where "t = Panicked a msg"
  by (cases t; cases "case t of Called b \<Rightarrow> b") auto

lemma saveAccount_row:
  "al_Address r = word_bytes a \<Longrightarrow> accountBy k (saveAccount r db) = (if k = word_bytes a then Some r else accountBy k db)" for a :: Address
  by (simp add: saveAccount_def rowBy_gorm_save)

lemma saveAccount_distinct:
  "distinct (map al_Address (tAccount db)) \<Longrightarrow> al_Address r = word_bytes a \<Longrightarrow> distinct (map al_Address (tAccount (saveAccount r db)))" for a :: Address
  by (simp add: saveAccount_def distinct_gorm_save)

interpretation accountThreads: isolated "threadStep env" threadHolder "\<lambda>a w. accountBy (word_bytes a) (store w)" goodThread "threadsMay env" for env
proof
  fix w :: world and t assume w: "threadsMay env w" and t: "goodThread t"
  note forms = threadStep_forms [OF w]
  show "threadHolder (fst (threadStep env t w)) = threadHolder t \<and> goodThread (fst (threadStep env t w)) \<and> threadsMay env (snd (threadStep env t w))"
    using t w by (cases t rule: holder_cases)
      (auto simp: forms Let_def needChanged_def threadsMay_def deposited_def saveAccount_distinct map_pk_gorm_update_column
        dest!: rowBy_Some split: option.split)
next
  fix w v :: world and t assume w: "threadsMay env w" and v: "threadsMay env v" and t: "goodThread t"
    and eq: "accountBy (word_bytes (threadHolder t)) (store v) = accountBy (word_bytes (threadHolder t)) (store w)"
  have acc: "accountOf (threadHolder t) (store v) = accountOf (threadHolder t) (store w)" using eq by (simp add: accountOf_def)
  show "fst (threadStep env t v) = fst (threadStep env t w) \<and>
      accountBy (word_bytes (threadHolder t)) (store (snd (threadStep env t v))) = accountBy (word_bytes (threadHolder t)) (store (snd (threadStep env t w)))"
    using t eq acc by (cases t rule: holder_cases)
      (simp_all add: threadStep_forms [OF w] threadStep_forms [OF v] Let_def needChanged_def saveAccount_row rowBy_gorm_update_column)
next
  fix w :: world and t k assume w: "threadsMay env w" and t: "goodThread t" and k: "k \<noteq> threadHolder t"
  then have "word_bytes k \<noteq> word_bytes (threadHolder t)" by (simp add: word_bytes_inject)
  then show "accountBy (word_bytes k) (store (snd (threadStep env t w))) = accountBy (word_bytes k) (store w)"
    using t by (cases t rule: holder_cases)
      (simp_all add: threadStep_forms [OF w] Let_def needChanged_def saveAccount_row rowBy_gorm_update_column)
qed

lemma alone_add: "alone step (m + n) t s = (case alone step m t s of (t', s') \<Rightarrow> alone step n t' s')"
  by (induction m arbitrary: t s) (simp_all split: prod.split)

lemma booked_alone:
  assumes "no_faults env" "accounts_ok (store w)" "3 \<le> n"
  shows "\<exists>w'. alone (threadStep env) n (Called b) w = (Answered (holder b) (fst (bookStep b (bookOf (store w)))), w') \<and>
     bookOf (store w') = snd (bookStep b (bookOf (store w)))"
proof -
  obtain k where n: "n = 3 + k" using assms(3) le_Suc_ex by blast
  obtain w' where "perform env b w = (Ret (fst (bookStep b (bookOf (store w)))), w')" "bookOf (store w') = snd (bookStep b (bookOf (store w)))"
    using accountBook.simulates [of env w b] assms(1,2) by blast
  then show ?thesis unfolding n alone_add alone_perform by simp
qed

lemma bookStep_local:
  "B' (holder b) = B (holder b) \<Longrightarrow> fst (bookStep b B') = fst (bookStep b B) \<and> snd (bookStep b B') (holder b) = snd (bookStep b B) (holder b)"
  "a \<noteq> holder b \<Longrightarrow> snd (bookStep b B) a = B a"
  by (simp_all add: bookStep_def split: option.split)

text \<open>In the book, bookings of different accounts do not see each other.\<close>

lemma specRun_distinct:
  "distinct (map holder bs) \<Longrightarrow>
     fst (specRun bookStep bs B) = map (\<lambda>b. fst (bookStep b B)) bs \<and>
     (\<forall>b \<in> set bs. snd (specRun bookStep bs B) (holder b) = snd (bookStep b B) (holder b)) \<and>
     (\<forall>a. a \<notin> holder ` set bs \<longrightarrow> snd (specRun bookStep bs B) a = B a)"
proof (induction bs arbitrary: B)
  case (Cons b bs)
  let ?B = "snd (bookStep b B)"
  have IH: "fst (specRun bookStep bs ?B) = map (\<lambda>b. fst (bookStep b ?B)) bs"
    "\<forall>b \<in> set bs. snd (specRun bookStep bs ?B) (holder b) = snd (bookStep b ?B) (holder b)"
    "\<forall>a. a \<notin> holder ` set bs \<longrightarrow> snd (specRun bookStep bs ?B) a = ?B a"
    using Cons.IH [of ?B] Cons.prems by simp_all
  have new: "holder b \<notin> holder ` set bs" using Cons.prems by simp
  then have "holder c \<noteq> holder b" if "c \<in> set bs" for c using that by (metis image_eqI)
  then have other: "?B (holder c) = B (holder c)" if "c \<in> set bs" for c using that bookStep_local(2) by blast
  have "fst (bookStep c ?B) = fst (bookStep c B)" "snd (bookStep c ?B) (holder c) = snd (bookStep c B) (holder c)" if "c \<in> set bs" for c
    using bookStep_local(1) [of ?B c B] other [OF that] by simp_all
  then show ?case
    using new IH bookStep_local(2) [of _ b B] by (auto simp: case_prod_unfold Let_def)
qed simp

text \<open>What one of several threads of different accounts gives.\<close>

lemma thread_among_others:
  assumes "no_faults env" "accounts_ok (store w)" "distinct (map holder bs)" "\<forall>i < length bs. 3 \<le> count_list turns i"
    and "interleave (threadStep env) turns (map Called bs) w = (ts, w2)"
  defines "B \<equiv> bookOf (store w)"
  shows "length ts = length bs" "a \<notin> holder ` set bs \<Longrightarrow> bookOf (store w2) a = B a"
    "i < length bs \<Longrightarrow> ts ! i = Answered (holder (bs ! i)) (fst (bookStep (bs ! i) B))"
    "i < length bs \<Longrightarrow> bookOf (store w2) (holder (bs ! i)) = snd (bookStep (bs ! i) B) (holder (bs ! i))"
proof -
  have w: "threadsMay env w" using assms(1,2) by (simp add: threadsMay_def accounts_ok_def)
  have "\<forall>t \<in> set (map Called bs). goodThread t" "distinct (map threadHolder (map Called bs))" using assms(3) by (simp_all add: comp_def)
  note proj = accountThreads.projection [OF w this assms(5)]
  show "length ts = length bs" using proj by simp
  show "bookOf (store w2) a = B a" if "a \<notin> holder ` set bs"
  proof -
    have "a \<notin> threadHolder ` set (map Called bs)" using that by (auto simp: image_iff)
    then have "accountBy (word_bytes a) (store w2) = accountBy (word_bytes a) (store w)" using proj by blast
    then show ?thesis by (simp add: B_def bookOf_def accountOf_def)
  qed
  assume i: "i < length bs"
  with assms(4) have "3 \<le> count_list turns i" by blast
  from booked_alone [OF assms(1,2) this, of "bs ! i"] obtain v where
    v: "alone (threadStep env) (count_list turns i) (Called (bs ! i)) w = (Answered (holder (bs ! i)) (fst (bookStep (bs ! i) B)), v)"
      "bookOf (store v) = snd (bookStep (bs ! i) B)" unfolding B_def by blast
  have here: "ts ! i = fst (alone (threadStep env) (count_list turns i) (Called (bs ! i)) w)"
    "accountBy (word_bytes (holder (bs ! i))) (store w2) =
       accountBy (word_bytes (holder (bs ! i))) (store (snd (alone (threadStep env) (count_list turns i) (Called (bs ! i)) w)))"
    using proj i w by auto
  show "ts ! i = Answered (holder (bs ! i)) (fst (bookStep (bs ! i) B))" using here(1) v(1) by simp
  have "accountBy (word_bytes (holder (bs ! i))) (store w2) = accountBy (word_bytes (holder (bs ! i))) (store v)" using here(2) v(1) by simp
  then have "bookOf (store w2) (holder (bs ! i)) = bookOf (store v) (holder (bs ! i))" by (simp add: bookOf_def accountOf_def)
  then show "bookOf (store w2) (holder (bs ! i)) = snd (bookStep (bs ! i) B) (holder (bs ! i))" using v(2) by simp
qed

text \<open>The four kinds of statements on one account, when no statement fails.\<close>

lemma checked_ok: "nonneg x \<Longrightarrow> a_UsedSmt x \<le> a_TotalReceivedSmt x \<Longrightarrow> checked a x t = t"
  by (simp add: checked_def)

definition onFile :: "Address \<Rightarrow> account \<Rightarrow> env \<Rightarrow> world \<Rightarrow> bool" where
  "onFile a x env w \<longleftrightarrow> threadsMay env w \<and> accountBy (word_bytes a) (store w) \<noteq> None \<and> accountOf a (store w) = x"

lemma onFile_nonneg: "onFile a x env w \<Longrightarrow> nonneg x \<and> a_Address x = word_bytes a"
  by (auto simp: onFile_def nonneg_def)

lemma reads_on_file:
  assumes "onFile a x env w" "a_UsedSmt x \<le> a_TotalReceivedSmt x"
  shows "\<exists>w'. threadStep env (Called (Deposit a n)) w = (WritingTotal a (x\<lparr>a_TotalReceivedSmt := a_TotalReceivedSmt x + int n\<rparr>), w') \<and> onFile a x env w'"
    "int n \<le> AccountAvailable x \<Longrightarrow> int n \<le> a_NeedSmt x \<Longrightarrow>
     \<exists>w'. threadStep env (Called (LockFee a n)) w =
       (WritingRow a False (x\<lparr>a_LockedSmt := a_LockedSmt x + int n, a_NeedSmt := a_NeedSmt x - int n\<rparr>), w') \<and> onFile a x env w'"
proof -
  have w: "threadsMay env w" "accountOf a (store w) = x" using assms(1) by (simp_all add: onFile_def)
  obtain al where al: "accountBy (word_bytes a) (store w) = Some al" using assms(1) by (auto simp: onFile_def)
  with w(2) have "toAccount al = x" by (simp add: accountOf_def)
  moreover have "onFile a x env (tick w)" using assms(1) by (simp add: onFile_def threadsMay_def)
  moreover note onFile_nonneg [OF assms(1)] assms(2)
  ultimately show "\<exists>w'. threadStep env (Called (Deposit a n)) w = (WritingTotal a (x\<lparr>a_TotalReceivedSmt := a_TotalReceivedSmt x + int n\<rparr>), w') \<and> onFile a x env w'"
    "int n \<le> AccountAvailable x \<Longrightarrow> int n \<le> a_NeedSmt x \<Longrightarrow>
     \<exists>w'. threadStep env (Called (LockFee a n)) w =
       (WritingRow a False (x\<lparr>a_LockedSmt := a_LockedSmt x + int n, a_NeedSmt := a_NeedSmt x - int n\<rparr>), w') \<and> onFile a x env w'"
    by (simp_all add: threadStep_forms [OF w(1)] al w(2) deposited_def Let_def checked_ok nonneg_def)
qed

lemma writes_on_file:
  assumes "onFile a x env w" "nonneg y" "a_Address y = word_bytes a"
  shows "\<exists>w'. threadStep env (WritingRow a p y) w = (Answered a True, w') \<and> onFile a y env w'"
    "\<exists>w'. threadStep env (WritingTotal a y) w = (Answered a True, w') \<and> onFile a (x\<lparr>a_TotalReceivedSmt := a_TotalReceivedSmt y\<rparr>) env w'"
proof -
  have w: "threadsMay env w" using assms(1) by (simp add: onFile_def)
  then show "\<exists>w'. threadStep env (WritingRow a p y) w = (Answered a True, w') \<and> onFile a y env w'"
    using assms(2,3) by (auto simp: threadStep_forms onFile_def threadsMay_def saveAccount_row saveAccount_distinct accountOf_def)
  obtain al where al: "accountBy (word_bytes a) (store w) = Some al" using assms(1) by (auto simp: onFile_def)
  then have "toAccount al = x" using assms(1) by (simp add: onFile_def accountOf_def)
  then have "toAccount (al\<lparr>al_TotalReceivedSmtBytes := al_TotalReceivedSmtBytes (toSerialization y)\<rparr>) = x\<lparr>a_TotalReceivedSmt := a_TotalReceivedSmt y\<rparr>"
    using assms(2) by (auto simp: toAccount_def toSerialization_def SetBytes_Bytes nonneg_def)
  then show "\<exists>w'. threadStep env (WritingTotal a y) w = (Answered a True, w') \<and> onFile a (x\<lparr>a_TotalReceivedSmt := a_TotalReceivedSmt y\<rparr>) env w'"
    using w al assms(3)
    by (auto simp: threadStep_forms onFile_def threadsMay_def rowBy_gorm_update_column map_pk_gorm_update_column accountOf_def)
qed

subsection \<open>Properties\<close>

text \<open>
  The statements of an operation, one after the other with nothing in between, are the operation (\<open>alone_perform\<close>).  Operations that
  run one after the other, in any number and order, never overdraw an account.
\<close>

lemma sequence_not_overdrawn:
  assumes "no_faults env" "accounts_ok (store w)"
  shows "\<exists>rs w'. sequenceA (perform env) bs w = (Ret rs, w') \<and> 0 \<le> AccountAvailable (accountOf a (store w'))"
proof -
  obtain rs w' where run: "sequenceA (perform env) bs w = (Ret rs, w')" "accounts_ok (store w')"
    using accountBook.sequence_simulates [of env w bs] assms by blast
  from accountOf_solvent [OF run(2), of a] have "0 \<le> AccountAvailable (accountOf a (store w'))"
    by (simp add: solvent_def AccountAvailable_def)
  with run(1) show ?thesis by blast
qed

text \<open>
  C18. Operations on different accounts are isolated, although nothing locks them: run by any number of goroutines whose statements reach the
  database in any order, when no statement fails and every one gets its turns, each gives the answer, and all
  together leave the accounts, that they have when they run one after the other.
\<close>
theorem different_accounts_serialize:
  assumes "no_faults env" "accounts_ok (store w)" "distinct (map holder bs)" "\<forall>i < length bs. 3 \<le> count_list turns i"
  shows "\<exists>rs w1 w2. sequenceA (perform env) bs w = (Ret rs, w1) \<and>
     interleave (threadStep env) turns (map Called bs) w = (map2 Answered (map holder bs) rs, w2) \<and>
     bookOf (store w2) = bookOf (store w1)"
proof -
  let ?B = "bookOf (store w)"
  obtain ts w2 where run: "interleave (threadStep env) turns (map Called bs) w = (ts, w2)" by fastforce
  note threads = thread_among_others [OF assms run]
  note spec = specRun_distinct [OF assms(3), of ?B]
  obtain w1 where seq: "sequenceA (perform env) bs w = (Ret (fst (specRun bookStep bs ?B)), w1)" "bookOf (store w1) = snd (specRun bookStep bs ?B)"
    using accountBook.sequence_simulates [of env w bs] assms(1,2) by blast
  have "ts = map2 Answered (map holder bs) (fst (specRun bookStep bs ?B))"
    using threads(1,3) spec by (intro nth_equalityI) simp_all
  moreover have "bookOf (store w2) a = snd (specRun bookStep bs ?B) a" for a
  proof (cases "a \<in> holder ` set bs")
    case True
    then obtain i where "i < length bs" "a = holder (bs ! i)" by (auto simp: in_set_conv_nth)
    with threads(4) spec show ?thesis by simp
  next
    case False
    with threads(2) spec show ?thesis by simp
  qed
  then have "bookOf (store w2) = bookOf (store w1)" using seq(2) by (simp add: fun_eq_iff)
  ultimately show ?thesis using run seq(1) by auto
qed

text \<open>
  C20. Operations on one account are not isolated.  Two deposits, the second after the end of the first, and two locks of fees, interleaved as
  given: all four succeed, each on an account that could afford it, but the account is then overdrawn, more is locked than was
  paid.  One after the other no list of operations overdraws it: not these four in any order, nor any others.  The first lock writes back the total it had read
  before the first deposit, the second deposit starts from that total, and the second lock was granted on the money of the first deposit.
\<close>
theorem race_overdraws_account:
  fixes a :: Address
  assumes "no_faults env" "accounts_ok (store w)" "accountBy (word_bytes a) (store w) \<noteq> None"
  defines "x \<equiv> accountOf a (store w)"
  assumes "int m1 \<le> AccountAvailable x" "int m1 \<le> a_NeedSmt x"
    and "int m2 \<le> AccountAvailable x + int n1" "int m2 \<le> a_NeedSmt x" "AccountAvailable x + int n2 < int m2"
  shows "\<exists>w'. interleave (threadStep env) [0, 1, 1, 2, 0, 3, 2, 3]
       [Called (LockFee a m1), Called (Deposit a n1), Called (LockFee a m2), Called (Deposit a n2)] w
       = ([Answered a True, Answered a True, Answered a True, Answered a True], w') \<and>
     AccountAvailable (accountOf a (store w')) = AccountAvailable x + int n2 - int m2 \<and> AccountAvailable (accountOf a (store w')) < 0 \<and>
     (\<forall>bs. \<exists>rs v. sequenceA (perform env) bs w = (Ret rs, v) \<and> 0 \<le> AccountAvailable (accountOf a (store v)))"
proof -
  let ?lock = "\<lambda>(y :: account) m. y\<lparr>a_LockedSmt := a_LockedSmt y + int m, a_NeedSmt := a_NeedSmt y - int m\<rparr>"
  let ?paid = "x\<lparr>a_TotalReceivedSmt := a_TotalReceivedSmt x + int n1\<rparr>"
  have row: "onFile a x env w" using assms(1-3) by (simp add: onFile_def x_def threadsMay_def accounts_ok_def)
  note sel = onFile_nonneg [OF row]
  have used: "a_UsedSmt x \<le> a_TotalReceivedSmt x" using accountOf_used [OF assms(2)] by (simp add: x_def)
  have ok: "nonneg (?lock x m1)" "nonneg (?lock ?paid m2)" "nonneg ?paid" using sel assms(6,8) by (auto simp: nonneg_def)
  obtain w1 where w1: "threadStep env (Called (LockFee a m1)) w = (WritingRow a False (?lock x m1), w1)" "onFile a x env w1"
    using reads_on_file(2) [OF row used assms(5,6)] by blast
  obtain w2 where w2: "threadStep env (Called (Deposit a n1)) w1 = (WritingTotal a ?paid, w2)" "onFile a x env w2"
    using reads_on_file(1) [OF w1(2) used] by blast
  obtain w3 where w3: "threadStep env (WritingTotal a ?paid) w2 = (Answered a True, w3)" "onFile a ?paid env w3"
    using writes_on_file(2) [OF w2(2) ok(3)] sel by auto
  obtain w4 where w4: "threadStep env (Called (LockFee a m2)) w3 = (WritingRow a False (?lock ?paid m2), w4)" "onFile a ?paid env w4"
    using reads_on_file(2) [OF w3(2), of m2] used assms(7,8) by (auto simp: AccountAvailable_def)
  obtain w5 where w5: "threadStep env (WritingRow a False (?lock x m1)) w4 = (Answered a True, w5)" "onFile a (?lock x m1) env w5"
    using writes_on_file(1) [OF w4(2) ok(1)] sel by auto
  obtain w6 where w6: "threadStep env (Called (Deposit a n2)) w5 =
      (WritingTotal a ((?lock x m1)\<lparr>a_TotalReceivedSmt := a_TotalReceivedSmt x + int n2\<rparr>), w6)" "onFile a (?lock x m1) env w6"
    using reads_on_file(1) [OF w5(2), of n2] used by auto
  obtain w7 where w7: "threadStep env (WritingRow a False (?lock ?paid m2)) w6 = (Answered a True, w7)" "onFile a (?lock ?paid m2) env w7"
    using writes_on_file(1) [OF w6(2) ok(2)] sel by auto
  obtain w8 where w8: "threadStep env (WritingTotal a ((?lock x m1)\<lparr>a_TotalReceivedSmt := a_TotalReceivedSmt x + int n2\<rparr>)) w7 = (Answered a True, w8)"
      "onFile a ((?lock ?paid m2)\<lparr>a_TotalReceivedSmt := a_TotalReceivedSmt x + int n2\<rparr>) env w8"
    using writes_on_file(2) [OF w7(2), of "(?lock x m1)\<lparr>a_TotalReceivedSmt := a_TotalReceivedSmt x + int n2\<rparr>"] ok(1) sel by (auto simp: nonneg_def)
  have "AccountAvailable (accountOf a (store w8)) = AccountAvailable x + int n2 - int m2"
    using w8(2) by (simp add: onFile_def AccountAvailable_def)
  then show ?thesis using w1(1) w2(1) w3(1) w4(1) w5(1) w6(1) w7(1) w8(1) assms(9) sequence_not_overdrawn [OF assms(1,2)] by simp
qed

theorem different_accounts_serialize_witness:
  "\<exists>w'. interleave (threadStep quietEnv) [0, 1, 1, 0, 1, 0] (map Called [LockFee 7 15, Deposit 8 3]) accountWorld
       = ([Answered 7 True, Answered 8 True], w') \<and> bookOf (store w') 7 = \<lparr>received = 20, spent = 0, locked = 15, needed = 5\<rparr>"
proof -
  have book: "bookOf (store accountWorld) 7 = \<lparr>received = 20, spent = 0, locked = 0, needed = 20\<rparr>"
    by (simp add: bookOf_def) (simp add: entryOf_def sampleAccount_def)
  have turns: "\<forall>i < length [LockFee 7 15, Deposit 8 3]. 3 \<le> count_list [0, 1, 1, 0, 1, 0 :: nat] i" by (auto simp: less_Suc_eq)
  obtain w1 where "sequenceA (perform quietEnv) [LockFee 7 15, Deposit 8 3] accountWorld = (Ret [True, True], w1)"
      "bookOf (store w1) 7 = \<lparr>received = 20, spent = 0, locked = 15, needed = 5\<rparr>"
    using accountBook.sequence_simulates [of quietEnv accountWorld "[LockFee 7 15, Deposit 8 3]"] no_faults_quietEnv accountWorld_ok book
    by (auto simp: bookStep_def simp del: sequenceA.simps)
  then show ?thesis
    using different_accounts_serialize [OF no_faults_quietEnv accountWorld_ok, of "[LockFee 7 15, Deposit 8 3]" "[0, 1, 1, 0, 1, 0]"] turns
    by (auto simp del: sequenceA.simps interleave.simps)
qed

theorem race_overdraws_account_witness:
  "\<exists>w'. interleave (threadStep quietEnv) [0, 1, 1, 2, 0, 3, 2, 3]
       [Called (LockFee 7 1), Called (Deposit 7 5), Called (LockFee 7 20), Called (Deposit 7 2)]
       (accountWorld\<lparr>store := saveAccount (toSerialization (sampleAccount\<lparr>a_UsedSmt := 5\<rparr>)) (store accountWorld)\<rparr>)
       = ([Answered 7 True, Answered 7 True, Answered 7 True, Answered 7 True], w') \<and> AccountAvailable (accountOf 7 (store w')) = -3"
proof -
  let ?a = "sampleAccount\<lparr>a_UsedSmt := 5\<rparr>"
  let ?w = "accountWorld\<lparr>store := saveAccount (toSerialization ?a) (store accountWorld)\<rparr>"
  have a: "nonneg ?a" "solvent ?a" "a_Address ?a = word_bytes (7 :: Address)" by (simp_all add: nonneg_def solvent_def sampleAccount_def)
  note saved = saved_account [OF a accountWorld_ok, of "clock accountWorld"]
  have w: "accounts_ok (store ?w)" "accountOf 7 (store ?w) = ?a" using saved(2,3) by simp_all
  have row: "accountBy (word_bytes (7 :: Address)) (store ?w) \<noteq> None" using a(3) by (simp add: saveAccount_row)
  have "AccountAvailable ?a = 15" "a_NeedSmt ?a = 20" by (simp_all add: sampleAccount_def AccountAvailable_def)
  with race_overdraws_account [OF no_faults_quietEnv w(1) row, of 1 20 5 2] show ?thesis unfolding w(2) by auto
qed

end
