(* ===== verification/PM_Race.thy ===== *)
theory PM_Race
  imports PM_Interleave
begin

text \<open>
  How much the missing lock costs.  \<open>PM_Interleave\<close> shows that two deposits and two locks of fees on one account can overdraw it.  Here
  is the other half: two deposits are needed.  Any number of concurrent operations with at most one deposit per
  account, in any order of their statements and at every moment, leaves no account overdrawn.

  The locale \<open>annotated\<close> is the proof rule: every thread has an annotation for the point it has reached, over the shared state and a ghost
  value, and a step of one thread keeps the annotations of all threads that are no rivals of it.  The ghost value for the accounts is the set of the
  totals that were ever read or written.
\<close>

subsection \<open>Annotated threads\<close>

locale annotated =
  fixes step :: "'t \<Rightarrow> 's \<Rightarrow> 't \<times> 's" and shared :: "'g \<Rightarrow> 's \<Rightarrow> bool" and ann :: "'g \<Rightarrow> 't \<Rightarrow> bool" and rivals :: "'t \<Rightarrow> 't \<Rightarrow> bool"
  assumes annotated_step: "shared g s \<Longrightarrow> ann g t \<Longrightarrow> \<exists>g'. shared g' (snd (step t s)) \<and> ann g' (fst (step t s)) \<and>
      (\<forall>u. ann g u \<longrightarrow> \<not> rivals t u \<longrightarrow> ann g' u)"
    and no_new_rivals: "shared g s \<Longrightarrow> ann g t \<Longrightarrow> rivals (fst (step t s)) u \<Longrightarrow> rivals t u"
    and rivals_sym: "rivals t u \<Longrightarrow> rivals u t"
begin

lemma annotated_interleave:
  assumes "shared g s" "\<forall>t \<in> set ts. ann g t" "\<forall>i < length ts. \<forall>j < length ts. i \<noteq> j \<longrightarrow> \<not> rivals (ts ! i) (ts ! j)"
    and "interleave step turns ts s = (ts', s')"
  shows "\<exists>g'. shared g' s' \<and> (\<forall>t \<in> set ts'. ann g' t)"
  using assms
proof (induction turns arbitrary: g ts s)
  case (Cons k turns)
  show ?case
  proof (cases "k < length ts")
    case False
    with Cons.prems(4) have "interleave step turns ts s = (ts', s')" by simp
    from Cons.IH [OF Cons.prems(1-3) this] show ?thesis .
  next
    case True
    obtain t s1 where st: "step (ts ! k) s = (t, s1)" by fastforce
    have k: "ann g (ts ! k)" using Cons.prems(2) True by simp
    from annotated_step [OF Cons.prems(1) k] st obtain g' where
      g': "shared g' s1" "ann g' t" "\<And>u. ann g u \<Longrightarrow> \<not> rivals (ts ! k) u \<Longrightarrow> ann g' u" by auto
    have less: "rivals (ts ! k) u" if "rivals t u" for u using no_new_rivals [OF Cons.prems(1) k, of u] st that by simp
    have alone: "\<not> rivals (ts[k := t] ! i) (ts[k := t] ! j)" if "i < length ts" "j < length ts" "i \<noteq> j" for i j
      using that Cons.prems(3) less rivals_sym by (metis nth_list_update_eq nth_list_update_neq)
    have "ann g' (ts[k := t] ! i)" if "i < length ts" for i
      using that g'(2,3) Cons.prems(2,3) True by (cases "i = k") auto
    then have "\<forall>u \<in> set (ts[k := t]). ann g' u" by (simp add: all_set_conv_all_nth)
    moreover have "interleave step turns (ts[k := t]) s1 = (ts', s')" using Cons.prems(4) True st by simp
    ultimately show ?thesis using Cons.IH [OF g'(1)] alone by simp
  qed
qed auto

end

subsection \<open>Annotations of the account operations\<close>

type_synonym totals = "Address \<Rightarrow> int set"

text \<open>The account a thread has still to credit.\<close>

fun depositing :: "thread \<Rightarrow> Address option" where
  "depositing (Called (Deposit a n)) = Some a"
| "depositing (Creating a n) = Some a"
| "depositing (WritingTotal a x) = Some a"
| "depositing _ = None"

definition rivalDeposits :: "thread \<Rightarrow> thread \<Rightarrow> bool" where
  "rivalDeposits t u \<longleftrightarrow> depositing t \<noteq> None \<and> depositing t = depositing u"

text \<open>
  Before its deposit a thread relies on a total that nobody has changed, after reading it on one that is at least
  every other; a row that is to be written is solvent, with a total that was read.  \<open>frozen\<close> are the accounts without a deposit.
\<close>

fun depositAnn :: "totals \<Rightarrow> thread \<Rightarrow> bool" where
  "depositAnn T (Called (Deposit a n)) \<longleftrightarrow> (\<exists>x. T a \<subseteq> {x})"
| "depositAnn T (Creating a n) \<longleftrightarrow> T a \<subseteq> {0}"
| "depositAnn T (WritingTotal a x) \<longleftrightarrow> (\<forall>y \<in> T a. y \<le> a_TotalReceivedSmt x)"
| "depositAnn T (WritingRow a p x) \<longleftrightarrow> nonneg x \<and> solvent x \<and> a_TotalReceivedSmt x \<in> T a"
| "depositAnn T _ \<longleftrightarrow> True"

definition threadAnn :: "Address set \<Rightarrow> totals \<Rightarrow> thread \<Rightarrow> bool" where
  "threadAnn frozen T t \<longleftrightarrow> goodThread t \<and> depositAnn T t \<and> (\<forall>a \<in> frozen. depositing t \<noteq> Some a)"

definition totalsAre :: "env \<Rightarrow> Address set \<Rightarrow> (Address \<Rightarrow> int) \<Rightarrow> totals \<Rightarrow> world \<Rightarrow> bool" where
  "totalsAre env frozen t0 T w \<longleftrightarrow> no_faults env \<and> accounts_ok (store w) \<and>
     (\<forall>a. a_TotalReceivedSmt (accountOf a (store w)) \<in> T a \<and> (\<forall>x \<in> T a. 0 \<le> x)) \<and> (\<forall>a \<in> frozen. T a = {t0 a})"

lemma totalsAre_clock [simp]: "totalsAre env F t0 T (w\<lparr>clock := n\<rparr>) = totalsAre env F t0 T w"
  by (simp add: totalsAre_def)

lemma totalsAre_may: "totalsAre env F t0 T w \<Longrightarrow> threadsMay env w"
  by (simp add: totalsAre_def threadsMay_def accounts_ok_def)

text \<open>Writing back a row that is annotated.\<close>

lemma totalsAre_save:
  assumes "totalsAre env F t0 T w" "nonneg x" "solvent x" "a_Address x = word_bytes a" "a_TotalReceivedSmt x \<in> T a"
  shows "totalsAre env F t0 T (w\<lparr>clock := n, store := saveAccount (toSerialization x) (store w)\<rparr>)"
  using assms accounts_ok_save [of "store w" x] accountOf_save [OF assms(2,4), of _ "store w"]
  by (auto simp: totalsAre_def)

lemma accountOf_changed_need:
  "toSerialization (needChanged old new x) = toSerialization ((needChanged old new x)\<lparr>a_NeedSmt := \<bar>a_NeedSmt x + int new - int old\<bar>\<rparr>)"
  by (simp add: toSerialization_def needChanged_def BigInt_Bytes_def)

lemma totalsAre_need:
  assumes "totalsAre env F t0 T w"
  shows "totalsAre env F t0 T (w\<lparr>clock := n, store := saveAccount (toSerialization (needChanged old new (accountOf a (store w)))) (store w)\<rparr>)"
  unfolding accountOf_changed_need
  using assms accountOf_solvent [of "store w" a]
  by (intro totalsAre_save [OF assms, where a = a]) (auto simp: totalsAre_def needChanged_def nonneg_def solvent_def)

lemma totalsAre_new:
  assumes "totalsAre env F t0 T w" "0 \<in> T a"
  shows "totalsAre env F t0 T (w\<lparr>clock := n, store := saveAccount (newAccountRow a) (store w)\<rparr>)"
proof -
  let ?x = "\<lparr>a_Address = word_bytes a, a_TotalReceivedSmt = 0, a_UsedSmt = 0, a_LockedSmt = 0, a_NeedSmt = 0\<rparr>"
  have "newAccountRow a = toSerialization ?x" by (simp add: newAccountRow_def toSerialization_def BigInt_Bytes_def)
  moreover have "nonneg ?x" "solvent ?x" by (simp_all add: nonneg_def solvent_def)
  ultimately show ?thesis using totalsAre_save [OF assms(1), of ?x a] assms(2) by simp
qed

text \<open>The deposit: the total of the row becomes the largest of all.\<close>

lemma totalsAre_total:
  assumes "totalsAre env F t0 T w" "a_Address x = word_bytes a" "\<forall>y \<in> T a. y \<le> a_TotalReceivedSmt x" "a \<notin> F"
  shows "totalsAre env F t0 (T(a := insert (a_TotalReceivedSmt x) (T a))) (w\<lparr>clock := n, store := (store w)\<lparr>tAccount :=
       gorm_update_column blankList al_Address (a_Address x)
         (\<lambda>row. row\<lparr>al_TotalReceivedSmtBytes := al_TotalReceivedSmtBytes (toSerialization x)\<rparr>) (tAccount (store w))\<rparr>\<rparr>)"
proof -
  let ?f = "\<lambda>row. row\<lparr>al_TotalReceivedSmtBytes := al_TotalReceivedSmtBytes (toSerialization x)\<rparr>"
  let ?db = "(store w)\<lparr>tAccount := gorm_update_column blankList al_Address (word_bytes a) ?f (tAccount (store w))\<rparr>"
  have "a_TotalReceivedSmt (accountOf a (store w)) \<in> T a" using assms(1) by (simp add: totalsAre_def)
  then have le: "a_TotalReceivedSmt (accountOf a (store w)) \<le> a_TotalReceivedSmt x" using assms(3) by simp
  have total: "a_TotalReceivedSmt (accountOf a (store w)) \<le> a_TotalReceivedSmt x" "0 \<le> a_TotalReceivedSmt x"
    using le accountOf_sel(1) [of a "store w"] by linarith+
  have acc: "toAccount (?f al) = (toAccount al)\<lparr>a_TotalReceivedSmt := a_TotalReceivedSmt x\<rparr>" for al
    using total(2) by (simp add: toAccount_def toSerialization_def SetBytes_Bytes)
  have ok: "accounts_ok (store w)" using assms(1) by (simp add: totalsAre_def)
  have dist: "distinct (map al_Address (tAccount (store w)))" using ok by (simp add: accounts_ok_def)
  have "solvent (toAccount (?f al))" if "al \<in> set (tAccount (store w))" "al_Address al = word_bytes a" for al
  proof -
    have "accountOf a (store w) = toAccount al"
      using rowBy_unique [OF dist that(1)] that(2) by (simp add: accountOf_def)
    moreover have "solvent (toAccount al)" using ok that(1) by (simp add: accounts_ok_def)
    ultimately show ?thesis using total(1) unfolding acc by (simp add: solvent_def)
  qed
  then have "accounts_ok ?db"
    using ok by (auto simp: accounts_ok_def map_pk_gorm_update_column) (auto simp: gorm_update_column_def)
  moreover have "accountOf b ?db = (if b = a \<and> accountBy (word_bytes a) (store w) \<noteq> None
      then (accountOf a (store w))\<lparr>a_TotalReceivedSmt := a_TotalReceivedSmt x\<rparr> else accountOf b (store w))" for b
    by (auto simp: accountOf_def rowBy_gorm_update_column word_bytes_inject acc)
  ultimately show ?thesis using assms total(2) by (auto simp: totalsAre_def)
qed

text \<open>Reading: the account read is solvent, and what is computed from it is annotated unless the thread panics.\<close>

lemma threadAnn_checked: "threadAnn F T t \<Longrightarrow> threadHolder t = a \<Longrightarrow> threadAnn F T (checked a x t)"
  by (auto simp: threadAnn_def checked_def split: outcome.split)

lemma threadAnn_row:
  assumes "totalsAre env F t0 T w" "nonneg x" "solvent x" "a_Address x = word_bytes a"
    "a_TotalReceivedSmt x = a_TotalReceivedSmt (accountOf a (store w))"
  shows "threadAnn F T (checked a x (WritingRow a p x))"
  using assms by (intro threadAnn_checked) (simp_all add: threadAnn_def totalsAre_def)

lemma threadAnn_deposit:
  assumes "T a \<subseteq> {a_TotalReceivedSmt (toAccount al)}" "al_Address al = word_bytes a" "a \<notin> F"
  shows "threadAnn F T (checked a (deposited n al) (WritingTotal a (deposited n al)))"
  using assms by (intro threadAnn_checked) (auto simp: threadAnn_def deposited_def)

text \<open>One step, of any thread.\<close>

lemma race_step:
  assumes w: "totalsAre env F t0 T w" and t: "threadAnn F T t"
  shows "\<exists>T'. totalsAre env F t0 T' (snd (threadStep env t w)) \<and> threadAnn F T' (fst (threadStep env t w)) \<and>
     (\<forall>u. threadAnn F T u \<longrightarrow> \<not> rivalDeposits t u \<longrightarrow> threadAnn F T' u)"
proof -
  note forms = threadStep_forms [OF totalsAre_may [OF w]]
  have sol: "solvent (accountOf a (store w))" "a_TotalReceivedSmt (accountOf a (store w)) \<in> T a" for a
    using w accountOf_solvent by (auto simp: totalsAre_def)
  have same: ?thesis if "totalsAre env F t0 T (snd (threadStep env t w))" "threadAnn F T (fst (threadStep env t w))"
    using that by (intro exI [of _ T]) simp
  have computed: ?thesis
    if "threadStep env t w = (if refused then Answered a False else checked a x (WritingRow a p x), tick w)"
      "\<not> refused \<Longrightarrow> nonneg x \<and> solvent x" "a_Address x = word_bytes a"
      "a_TotalReceivedSmt x = a_TotalReceivedSmt (accountOf a (store w))" for refused a x p
  proof (rule same)
    show "totalsAre env F t0 T (snd (threadStep env t w))" using that(1) w by simp
    show "threadAnn F T (fst (threadStep env t w))"
      using that threadAnn_row [OF w] by (cases refused) (simp_all add: threadAnn_def)
  qed
  show ?thesis
  proof (cases t rule: holder_cases)
    case (deposit a n)
    then obtain x where x: "T a \<subseteq> {x}" "a \<notin> F" using t by (auto simp: threadAnn_def)
    then have all: "T a \<subseteq> {a_TotalReceivedSmt (accountOf a (store w))}" using sol(2) by blast
    show ?thesis
    proof (rule same)
      show "totalsAre env F t0 T (snd (threadStep env t w))" using w by (simp add: deposit forms)
      show "threadAnn F T (fst (threadStep env t w))"
      proof (cases "accountBy (word_bytes a) (store w)")
        case None
        with all have "T a \<subseteq> {0}" by (simp add: accountOf_def toAccount_def newAccountRow_def)
        with None x(2) show ?thesis by (auto simp: deposit forms threadAnn_def)
      next
        case (Some al)
        with all x(2) rowBy_Some [OF Some] show ?thesis
          by (auto simp: deposit forms accountOf_def intro: threadAnn_deposit)
      qed
    qed
  next
    case (lock a n)
    show ?thesis
      by (rule computed [OF forms(2) [of a n, folded lock, unfolded Let_def]])
        (use sol(1) [of a] in \<open>auto simp: AccountAvailable_def nonneg_def solvent_def\<close>)
  next
    case (return a n)
    show ?thesis
      by (rule computed [OF forms(3) [of a n, folded return, unfolded Let_def]])
        (use sol(1) [of a] in \<open>auto simp: nonneg_def solvent_def\<close>)
  next
    case (spend a n)
    show ?thesis
      by (rule computed [OF forms(4) [of a n, folded spend, unfolded Let_def]])
        (use sol(1) [of a] in \<open>auto simp: nonneg_def solvent_def\<close>)
  next
    case (set a n)
    have "threadStep env t w = (if False then Answered a False else checked a ((accountOf a (store w))\<lparr>a_NeedSmt := int n\<rparr>)
        (WritingRow a True ((accountOf a (store w))\<lparr>a_NeedSmt := int n\<rparr>)), tick w)"
      by (simp add: set forms Let_def)
    from computed [OF this] show ?thesis using sol(1) [of a] by (simp add: nonneg_def solvent_def)
  next
    case (change a old new)
    show ?thesis
      using w totalsAre_need [OF w] by (intro same) (simp_all add: change forms threadAnn_def)
  next
    case (creating a n)
    have zero: "T a \<subseteq> {0}" "a \<notin> F" using t by (auto simp: creating threadAnn_def)
    have "0 \<in> T a" using subset_singletonD [OF zero(1)] sol(2) [of a] by auto
    moreover have "a_TotalReceivedSmt (toAccount (newAccountRow a)) = 0" by (simp add: toAccount_def newAccountRow_def)
    ultimately show ?thesis
      using zero totalsAre_new [OF w] threadAnn_deposit [of T a "newAccountRow a" F n]
      by (intro same) (simp_all add: creating forms)
  next
    case (total a y)
    let ?T = "T(a := insert (a_TotalReceivedSmt y) (T a))"
    have y: "a_Address y = word_bytes a" "\<forall>z \<in> T a. z \<le> a_TotalReceivedSmt y" "a \<notin> F"
      using t by (auto simp: total threadAnn_def)
    have "threadAnn F ?T u" if "threadAnn F T u" "\<not> rivalDeposits t u" for u
      using that by (cases u rule: holder_cases) (auto simp: total threadAnn_def rivalDeposits_def)
    then show ?thesis
      using totalsAre_total [OF w y] by (intro exI [of _ ?T]) (simp add: total forms threadAnn_def)
  next
    case (row a p y)
    then show ?thesis
      using t totalsAre_save [OF w] by (intro same) (simp_all add: forms threadAnn_def)
  next
    case (answered a r)
    then show ?thesis using w by (intro same) (simp_all add: threadAnn_def)
  next
    case (panicked a msg)
    then show ?thesis using w by (intro same) (simp_all add: threadAnn_def)
  qed
qed

lemma still_depositing:
  assumes "totalsAre env F t0 T w" "depositing (fst (threadStep env t w)) = Some a"
  shows "depositing t = Some a"
proof -
  have checked: "depositing (checked b x v) = Some a \<Longrightarrow> depositing v = Some a" for b x v
    by (simp add: checked_def split: outcome.splits)
  show ?thesis
    using assms(2) by (cases t rule: holder_cases)
      (auto simp: threadStep_forms [OF totalsAre_may [OF assms(1)]] Let_def dest!: checked split: if_splits option.splits)
qed

interpretation accountRace: annotated "threadStep env" "totalsAre env F t0" "threadAnn F" rivalDeposits for env F t0
proof
  show "rivalDeposits t u" if riv: "totalsAre env F t0 T w" "rivalDeposits (fst (threadStep env t w)) u" for T w t u
  proof -
    obtain a where "depositing (fst (threadStep env t w)) = Some a" "depositing u = Some a"
      using riv(2) unfolding rivalDeposits_def by (metis not_None_eq)
    with still_depositing [OF riv(1), of t a] show ?thesis by (simp add: rivalDeposits_def)
  qed
qed (simp add: race_step, metis rivalDeposits_def)

subsection \<open>Property\<close>

lemma filter_once:
  assumes "length (filter P xs) \<le> 1" "i < length xs" "j < length xs" "P (xs ! i)" "P (xs ! j)"
  shows "i = j"
proof -
  have "card {i. i < length xs \<and> P (xs ! i)} \<le> Suc 0" using assms(1) by (simp add: length_filter_conv_card)
  with assms(2-) show ?thesis by (simp add: card_le_Suc0_iff_eq)
qed

text \<open>
  C19. It takes two deposits.  Concurrent operations on accounts, whatever their number and in every order of their statements, leave no account
  overdrawn at any moment, when no statement fails and at most one of them for each account is a deposit; and the total of an
  account without a deposit does not change.
\<close>
theorem single_deposits_keep_solvency:
  assumes "no_faults env" "accounts_ok (store w)" "\<forall>a. length (filter (\<lambda>b. \<exists>n. b = Deposit a n) bs) \<le> 1"
    and "interleave (threadStep env) turns (map Called bs) w = (ts, w')"
  shows "(\<forall>a. a_UsedSmt (accountOf a (store w')) + a_LockedSmt (accountOf a (store w')) \<le> a_TotalReceivedSmt (accountOf a (store w'))) \<and>
     (\<forall>a. (\<forall>n. Deposit a n \<notin> set bs) \<longrightarrow> a_TotalReceivedSmt (accountOf a (store w')) = a_TotalReceivedSmt (accountOf a (store w)))"
proof -
  define t0 where "t0 a = a_TotalReceivedSmt (accountOf a (store w))" for a
  let ?F = "{a. \<forall>n. Deposit a n \<notin> set bs}" and ?T = "\<lambda>a. {t0 a}"
  have start: "totalsAre env ?F t0 ?T w" using assms(1,2) by (simp add: totalsAre_def t0_def)
  have dep: "depositing (Called b) = Some a \<longleftrightarrow> (\<exists>n. b = Deposit a n)" for b a by (cases b) auto
  have ann: "threadAnn ?F ?T (Called b)" if b: "b \<in> set bs" for b
    by (cases b) (use b in \<open>auto simp: threadAnn_def\<close>)
  have "i = j" if ij: "i < length bs" "j < length bs" "rivalDeposits (Called (bs ! i)) (Called (bs ! j))" for i j
  proof -
    obtain a where "\<exists>n. bs ! i = Deposit a n" "\<exists>n. bs ! j = Deposit a n"
      using ij(3) dep unfolding rivalDeposits_def by (metis not_None_eq)
    with filter_once [where P = "\<lambda>b. \<exists>n. b = Deposit a n"] assms(3) ij(1,2) show ?thesis by blast
  qed
  with accountRace.annotated_interleave [OF start _ _ assms(4)] ann obtain T where "totalsAre env ?F t0 T w'" by fastforce
  then have "accounts_ok (store w')" "\<forall>a. a_TotalReceivedSmt (accountOf a (store w')) \<in> T a" "\<forall>a \<in> ?F. T a = {t0 a}"
    by (auto simp: totalsAre_def)
  then show ?thesis using accountOf_solvent [of "store w'"] by (fastforce simp: solvent_def t0_def)
qed

theorem single_deposits_keep_solvency_witness:
  "\<exists>ts w'. interleave (threadStep quietEnv) [0, 1, 1, 2, 0, 2] (map Called [LockFee 7 15, Deposit 7 3, LockFee 7 8]) accountWorld = (ts, w') \<and>
     a_UsedSmt (accountOf 7 (store w')) + a_LockedSmt (accountOf 7 (store w')) \<le> a_TotalReceivedSmt (accountOf 7 (store w'))"
proof -
  obtain ts w' where run: "interleave (threadStep quietEnv) [0, 1, 1, 2, 0, 2] (map Called [LockFee 7 15, Deposit 7 3, LockFee 7 8]) accountWorld = (ts, w')"
    by fastforce
  with single_deposits_keep_solvency [OF no_faults_quietEnv accountWorld_ok _ run] show ?thesis by simp
qed

end
