(* ===== verification/PM_Path.thy ===== *)
theory PM_Path
  imports PM_Prelude
begin

text \<open>
  Go's \<open>filepath.Clean\<close> and \<open>filepath.Join\<close> on Unix, with which the service computes the places of its files.

  A path is processed element by element with a stack; the lemmas show that the result has no empty element, no dot, no separator
  at its end and dots-dots only in front, and that cleaning is idempotent.
\<close>

subsection \<open>Elements of a path\<close>

fun splitPath :: "string \<Rightarrow> string list" where
  "splitPath [] = [[]]"
| "splitPath (c # cs) =
     (if c = CHR ''/'' then [] # splitPath cs
      else (case splitPath cs of [] \<Rightarrow> [[c]] | e # es \<Rightarrow> (c # e) # es))"

fun joinPath :: "string list \<Rightarrow> string" where
  "joinPath [] = []"
| "joinPath [e] = e"
| "joinPath (e # es) = e @ CHR ''/'' # joinPath es"

text \<open>One element of the path; the stack has the last kept element on top.\<close>

definition pushElem :: "bool \<Rightarrow> string \<Rightarrow> string list \<Rightarrow> string list" where
  "pushElem rooted e stack =
     (if e = [] \<or> e = ''.'' then stack
      else if e = ''..'' then
        (case stack of
           [] \<Rightarrow> if rooted then [] else [''..'']
         | prev # below \<Rightarrow> if prev = ''..'' then e # stack else below)
      else e # stack)"

definition cleanElems :: "bool \<Rightarrow> string list \<Rightarrow> string list" where
  "cleanElems rooted es = rev (fold (pushElem rooted) es [])"

definition isRooted :: "string \<Rightarrow> bool" where
  "isRooted p \<longleftrightarrow> (case p of c # _ \<Rightarrow> c = CHR ''/'' | [] \<Rightarrow> False)"

definition Clean :: "string \<Rightarrow> string" where
  "Clean p =
     (let es = cleanElems (isRooted p) (splitPath p) in
      if isRooted p then CHR ''/'' # joinPath es else if es = [] then ''.'' else joinPath es)"

definition Join :: "string list \<Rightarrow> string" where
  "Join es = (case dropWhile (\<lambda>e. e = []) es of [] \<Rightarrow> [] | es' \<Rightarrow> Clean (joinPath es'))"

subsection \<open>Lemmas\<close>

text \<open>What can be left on the stack.\<close>

definition plain :: "string \<Rightarrow> bool" where
  "plain e \<longleftrightarrow> e \<noteq> [] \<and> e \<noteq> ''.'' \<and> CHR ''/'' \<notin> set e"

fun stackOk :: "bool \<Rightarrow> string list \<Rightarrow> bool" where
  "stackOk rooted [] = True"
| "stackOk rooted (e # es) \<longleftrightarrow> plain e \<and> stackOk rooted es \<and> (e = ''..'' \<longrightarrow> \<not> rooted \<and> set es \<subseteq> {''..''})"

lemma splitPath_noSlash: "e \<in> set (splitPath p) \<Longrightarrow> CHR ''/'' \<notin> set e"
proof (induction p arbitrary: e)
  case (Cons c cs)
  then show ?case by (cases "splitPath cs") (auto split: if_splits)
qed simp

lemma pushElem_ok: "stackOk rooted st \<Longrightarrow> CHR ''/'' \<notin> set e \<Longrightarrow> stackOk rooted (pushElem rooted e st)"
  by (cases st) (auto simp: pushElem_def plain_def)

lemma fold_pushElem_ok:
  "stackOk rooted st \<Longrightarrow> \<forall>e \<in> set es. CHR ''/'' \<notin> set e \<Longrightarrow> stackOk rooted (fold (pushElem rooted) es st)"
  by (induction es arbitrary: st) (simp_all add: pushElem_ok)

lemma stackOk_suffix: "stackOk rooted (xs @ ys) \<Longrightarrow> stackOk rooted ys"
  by (induction xs) auto

lemma pushElem_id: "stackOk rooted (e # st) \<Longrightarrow> pushElem rooted e st = e # st"
  by (cases st) (auto simp: pushElem_def plain_def)

lemma fold_pushElem_id: "stackOk rooted (rev es @ st) \<Longrightarrow> fold (pushElem rooted) es st = rev es @ st"
proof (induction es arbitrary: st)
  case (Cons e es)
  have app: "rev (e # es) @ st = rev es @ (e # st)" by simp
  have "pushElem rooted e st = e # st"
    by (rule pushElem_id, rule stackOk_suffix) (rule Cons.prems [unfolded app])
  with Cons.IH [OF Cons.prems [unfolded app]] show ?case by simp
qed simp

lemma cleanElems_ok: "stackOk rooted (rev (cleanElems rooted (splitPath p)))"
  by (auto simp: cleanElems_def intro!: fold_pushElem_ok dest: splitPath_noSlash)

lemma cleanElems_id: "stackOk rooted (rev es) \<Longrightarrow> cleanElems rooted es = es"
  using fold_pushElem_id [of rooted es "[]"] by (simp add: cleanElems_def)

lemma splitPath_element: "CHR ''/'' \<notin> set e \<Longrightarrow> splitPath e = [e]"
  by (induction e) auto

lemma splitPath_append: "CHR ''/'' \<notin> set e \<Longrightarrow> splitPath (e @ CHR ''/'' # p) = e # splitPath p"
  by (induction e) auto

lemma splitPath_join: "es \<noteq> [] \<Longrightarrow> \<forall>e \<in> set es. CHR ''/'' \<notin> set e \<Longrightarrow> splitPath (joinPath es) = es"
  by (induction es rule: joinPath.induct) (auto simp: splitPath_element splitPath_append)

lemma stackOk_elem: "stackOk rooted st \<Longrightarrow> e \<in> set st \<Longrightarrow> plain e \<and> (rooted \<longrightarrow> e \<noteq> ''..'')"
  by (induction st) auto

lemma isRooted_join: "es \<noteq> [] \<Longrightarrow> \<forall>e \<in> set es. plain e \<Longrightarrow> \<not> isRooted (joinPath es)"
  by (cases es rule: joinPath.cases) (auto simp: isRooted_def plain_def neq_Nil_conv split: list.splits)

lemma cleanElems_Nil: "cleanElems rooted ([] # es) = cleanElems rooted es"
  by (simp add: cleanElems_def pushElem_def)

subsection \<open>Properties\<close>

text \<open>
  Cleaning a path twice is cleaning it once, and a cleaned path has no empty element and no dot, and none of
  its elements is a dot-dot if it is rooted.
\<close>
lemma Clean_idempotent:
  "Clean (Clean p) = Clean p \<and>
   (isRooted p \<longrightarrow> isRooted (Clean p) \<and> ''..'' \<notin> set (splitPath (Clean p)) \<and> ''.'' \<notin> set (splitPath (Clean p)))"
proof -
  define es where "es = cleanElems (isRooted p) (splitPath p)"
  have ok: "stackOk (isRooted p) (rev es)" unfolding es_def by (rule cleanElems_ok)
  have plain: "\<forall>e \<in> set es. plain e \<and> (isRooted p \<longrightarrow> e \<noteq> ''..'')" using stackOk_elem [OF ok] by simp
  then have noSlash: "\<forall>e \<in> set es. CHR ''/'' \<notin> set e" by (simp add: plain_def)
  show ?thesis
  proof (cases "isRooted p")
    case True
    have split: "splitPath (CHR ''/'' # joinPath es) = [] # (if es = [] then [[]] else es)"
      using splitPath_join [OF _ noSlash] by auto
    then have again: "cleanElems True (splitPath (CHR ''/'' # joinPath es)) = es"
      using cleanElems_id [OF ok] True by (auto simp: cleanElems_Nil cleanElems_def pushElem_def)
    have clean: "Clean p = CHR ''/'' # joinPath es" using True by (simp add: Clean_def es_def)
    have rooted: "isRooted (CHR ''/'' # joinPath es)" by (simp add: isRooted_def)
    then have "Clean (Clean p) = Clean p" unfolding clean by (simp only: Clean_def Let_def again if_True)
    moreover have "''..'' \<notin> set (splitPath (Clean p))" "''.'' \<notin> set (splitPath (Clean p))"
      unfolding clean split using plain True by (auto simp: plain_def)
    ultimately show ?thesis using rooted clean by simp
  next
    case False
    show ?thesis
    proof (cases "es = []")
      case True
      then have "Clean p = ''.''" using False by (simp add: Clean_def es_def)
      moreover have "Clean ''.'' = ''.''" by code_simp
      ultimately show ?thesis using False by simp
    next
      case ne: False
      have "cleanElems False (splitPath (joinPath es)) = es"
        using splitPath_join [OF ne noSlash] cleanElems_id [OF ok] False by simp
      then have "Clean (joinPath es) = joinPath es" using isRooted_join [OF ne] plain ne by (simp add: Clean_def)
      moreover have "Clean p = joinPath es" using ne False by (simp add: Clean_def es_def)
      ultimately show ?thesis using False by simp
    qed
  qed
qed

lemma Clean_idempotent_witness:
  "Clean ''/data//a/./b/../../../x/'' = ''/x'' \<and> Clean (Clean ''../../a/..'') = ''../..'' \<and> Clean (Clean ''/../..'') = ''/''"
proof -
  have "Clean ''/data//a/./b/../../../x/'' = ''/x''" "Clean ''../../a/..'' = ''../..''" "Clean ''/../..'' = ''/''" by code_simp+
  with Clean_idempotent [of "''../../a/..''"] Clean_idempotent [of "''/../..''"] show ?thesis by simp
qed

end
