(* ===== verification/PM_Debug.thy ===== *)
theory PM_Debug
  imports PM_Path PM_Types
begin

text \<open>
  \<open>internal/debug/api.go\<close>, \<open>flags.go\<close> and \<open>trace.go\<close>: the debug handler with its two recordings (CPU profile and
  execution trace), the other profiles, and the setting up of logging and profiling from the command line.

  The state \<open>dbg\<close> is the handler, the runtime's switches and the files this package has opened; \<open>dbgEnv\<close> is the operating system and the
  log library.  The runtime can also record for a client of the pprof server, which bypasses the handler.  The lemmas show that for every order of
  calls and failures the open files are exactly the ones the handler is recording to, and what ends a recording.
\<close>

subsection \<open>State\<close>

datatype writer =
    HandlerFile nat
  | HttpClient

record glog =
  g_output :: "string option"
  g_verbosity :: int
  g_vmodule :: string
  g_backtrace :: string

record dbg =
  cpuW :: "nat option"
  cpuFile :: string
  traceW :: "nat option"
  traceFile :: string
  glogger :: "glog option"
  logRoot :: bool
  logOrigins :: bool
  rt_cpu :: "writer option"
  rt_trace :: "writer option"
  rt_blockRate :: int
  rt_memRate :: int
  rt_gcPercent :: int
  rt_traceback :: string
  os_open :: "(nat \<times> string) list"
  os_next :: nat
  pprofServers :: "string list"

text \<open>The answers of the outside may depend on how many files were opened before.\<close>

record dbgEnv =
  os_HOME :: string
  os_userHome :: "string option"
  os_createErr :: "nat \<Rightarrow> string \<Rightarrow> string option"
  os_writeErr :: "nat \<Rightarrow> string \<Rightarrow> string option"
  log_fileErr :: "string \<Rightarrow> string option"
  log_vmoduleErr :: "string \<Rightarrow> string option"
  log_backtraceErr :: "string \<Rightarrow> string option"

type_synonym 'a debugAction = "(dbg, 'a) act"

definition expandHome :: "dbgEnv \<Rightarrow> string \<Rightarrow> string" where
  "expandHome env p =
     (let p = (if take 2 p = ''~/'' \<or> take 2 p = [CHR ''~'', CHR 0x5C] then
                 let home = os_HOME env;
                     home = (if home = [] then case os_userHome env of Some h \<Rightarrow> h | None \<Rightarrow> home else home) in
                 if home \<noteq> [] then home @ drop 1 p else p
               else p) in
      Clean p)"

definition os_Create :: "dbgEnv \<Rightarrow> string \<Rightarrow> (string + nat) debugAction" where
  "os_Create env path s =
     (case os_createErr env (os_next s) path of
        Some e \<Rightarrow> (Ret (Inl e), s\<lparr>os_next := Suc (os_next s)\<rparr>)
      | None \<Rightarrow> (Ret (Inr (os_next s)), s\<lparr>os_next := Suc (os_next s), os_open := os_open s @ [(os_next s, path)]\<rparr>))"

definition file_Close :: "nat \<Rightarrow> unit debugAction" where
  "file_Close f = modifyA (\<lambda>s. s\<lparr>os_open := filter (\<lambda>x. fst x \<noteq> f) (os_open s)\<rparr>)"

subsection \<open>The runtime's recorders\<close>

definition pprof_StartCPUProfile :: "writer \<Rightarrow> string option debugAction" where
  "pprof_StartCPUProfile w s =
     (if rt_cpu s \<noteq> None then (Ret (Some ''cpu profiling already in use''), s)
      else (Ret None, s\<lparr>rt_cpu := Some w\<rparr>))"

definition pprof_StopCPUProfile :: "unit debugAction" where
  "pprof_StopCPUProfile = modifyA (\<lambda>s. s\<lparr>rt_cpu := None\<rparr>)"

definition trace_Start :: "writer \<Rightarrow> string option debugAction" where
  "trace_Start w s =
     (if rt_trace s \<noteq> None then (Ret (Some ''tracing is already enabled''), s)
      else (Ret None, s\<lparr>rt_trace := Some w\<rparr>))"

definition trace_Stop :: "unit debugAction" where
  "trace_Stop = modifyA (\<lambda>s. s\<lparr>rt_trace := None\<rparr>)"

subsection \<open>The handler\<close>

definition StartCPUProfile :: "dbgEnv \<Rightarrow> string \<Rightarrow> string option debugAction" where
  "StartCPUProfile env file =
     bindA (getsA cpuW) (\<lambda>w.
     if w \<noteq> None then returnA (Some ''CPU profiling already in progress'') else
     bindA (os_Create env (expandHome env file)) (\<lambda>r.
     case r of Inl err \<Rightarrow> returnA (Some err) | Inr f \<Rightarrow>
     bindA (pprof_StartCPUProfile (HandlerFile f)) (\<lambda>err.
     case err of Some e \<Rightarrow> bindA (file_Close f) (\<lambda>_. returnA (Some e)) | None \<Rightarrow>
     bindA (modifyA (\<lambda>s. s\<lparr>cpuW := Some f, cpuFile := file\<rparr>)) (\<lambda>_. returnA None))))"

definition StopCPUProfile :: "string option debugAction" where
  "StopCPUProfile =
     bindA pprof_StopCPUProfile (\<lambda>_.
     bindA (getsA cpuW) (\<lambda>w.
     case w of None \<Rightarrow> returnA (Some ''CPU profiling not in progress'') | Some f \<Rightarrow>
     bindA (file_Close f) (\<lambda>_.
     bindA (modifyA (\<lambda>s. s\<lparr>cpuW := None, cpuFile := ''''\<rparr>)) (\<lambda>_. returnA None))))"

definition StartGoTrace :: "dbgEnv \<Rightarrow> string \<Rightarrow> string option debugAction" where
  "StartGoTrace env file =
     bindA (getsA traceW) (\<lambda>w.
     if w \<noteq> None then returnA (Some ''trace already in progress'') else
     bindA (os_Create env (expandHome env file)) (\<lambda>r.
     case r of Inl err \<Rightarrow> returnA (Some err) | Inr f \<Rightarrow>
     bindA (trace_Start (HandlerFile f)) (\<lambda>err.
     case err of Some e \<Rightarrow> bindA (file_Close f) (\<lambda>_. returnA (Some e)) | None \<Rightarrow>
     bindA (modifyA (\<lambda>s. s\<lparr>traceW := Some f, traceFile := file\<rparr>)) (\<lambda>_. returnA None))))"

definition StopGoTrace :: "string option debugAction" where
  "StopGoTrace =
     bindA trace_Stop (\<lambda>_.
     bindA (getsA traceW) (\<lambda>w.
     case w of None \<Rightarrow> returnA (Some ''trace not in progress'') | Some f \<Rightarrow>
     bindA (file_Close f) (\<lambda>_.
     bindA (modifyA (\<lambda>s. s\<lparr>traceW := None, traceFile := ''''\<rparr>)) (\<lambda>_. returnA None))))"

text \<open>\<open>during\<close> is what other goroutines do while the function sleeps.\<close>

definition CPUProfile :: "dbgEnv \<Rightarrow> string \<Rightarrow> unit debugAction \<Rightarrow> string option debugAction" where
  "CPUProfile env file during =
     bindA (StartCPUProfile env file) (\<lambda>err.
     case err of Some e \<Rightarrow> returnA (Some e) | None \<Rightarrow>
     bindA during (\<lambda>_. bindA StopCPUProfile (\<lambda>_. returnA None)))"

definition GoTrace :: "dbgEnv \<Rightarrow> string \<Rightarrow> unit debugAction \<Rightarrow> string option debugAction" where
  "GoTrace env file during =
     bindA (StartGoTrace env file) (\<lambda>err.
     case err of Some e \<Rightarrow> returnA (Some e) | None \<Rightarrow>
     bindA during (\<lambda>_. bindA StopGoTrace (\<lambda>_. returnA None)))"

definition writeProfile :: "dbgEnv \<Rightarrow> string \<Rightarrow> string \<Rightarrow> string option debugAction" where
  "writeProfile env name file =
     bindA (os_Create env (expandHome env file)) (\<lambda>r.
     case r of Inl err \<Rightarrow> returnA (Some err) | Inr f \<Rightarrow>
     bindA (file_Close f) (\<lambda>_. returnA (os_writeErr env f name)))"

definition SetBlockProfileRate :: "int \<Rightarrow> unit debugAction" where
  "SetBlockProfileRate rate = modifyA (\<lambda>s. s\<lparr>rt_blockRate := rate\<rparr>)"

definition BlockProfile :: "dbgEnv \<Rightarrow> string \<Rightarrow> unit debugAction \<Rightarrow> string option debugAction" where
  "BlockProfile env file during =
     bindA (SetBlockProfileRate 1) (\<lambda>_.
     bindA during (\<lambda>_.
     bindA (writeProfile env ''block'' file) (\<lambda>err.
     bindA (SetBlockProfileRate 0) (\<lambda>_. returnA err))))"

definition WriteBlockProfile :: "dbgEnv \<Rightarrow> string \<Rightarrow> string option debugAction" where
  "WriteBlockProfile env file = writeProfile env ''block'' file"

definition WriteMemProfile :: "dbgEnv \<Rightarrow> string \<Rightarrow> string option debugAction" where
  "WriteMemProfile env file = writeProfile env ''heap'' file"

text \<open>The runtime stores every negative percentage as -1 (no collection).\<close>

definition SetGCPercent :: "int \<Rightarrow> int debugAction" where
  "SetGCPercent v =
     bindA (getsA rt_gcPercent) (\<lambda>old.
     bindA (modifyA (\<lambda>s. s\<lparr>rt_gcPercent := (if v < 0 then -1 else v)\<rparr>)) (\<lambda>_. returnA old))"

definition LoudPanic :: "string \<Rightarrow> unit debugAction" where
  "LoudPanic x = bindA (modifyA (\<lambda>s. s\<lparr>rt_traceback := ''all''\<rparr>)) (\<lambda>_. panicA x)"

text \<open>The log handler is a pointer that \<open>Setup\<close> sets; before that its methods dereference nil.\<close>

definition withGlogger :: "(glog \<Rightarrow> glog) \<Rightarrow> unit debugAction" where
  "withGlogger f =
     bindA (getsA glogger) (\<lambda>g.
     case g of None \<Rightarrow> panicA nilDeref | Some g \<Rightarrow> modifyA (\<lambda>s. s\<lparr>glogger := Some (f g)\<rparr>))"

definition Verbosity :: "int \<Rightarrow> unit debugAction" where
  "Verbosity level = withGlogger (\<lambda>g. g\<lparr>g_verbosity := level\<rparr>)"

definition Vmodule :: "dbgEnv \<Rightarrow> string \<Rightarrow> string option debugAction" where
  "Vmodule env pattern =
     (case log_vmoduleErr env pattern of Some err \<Rightarrow> returnA (Some err)
      | None \<Rightarrow> bindA (withGlogger (\<lambda>g. g\<lparr>g_vmodule := pattern\<rparr>)) (\<lambda>_. returnA None))"

definition BacktraceAt :: "dbgEnv \<Rightarrow> string \<Rightarrow> string option debugAction" where
  "BacktraceAt env location =
     (case log_backtraceErr env location of Some err \<Rightarrow> returnA (Some err)
      | None \<Rightarrow> bindA (withGlogger (\<lambda>g. g\<lparr>g_backtrace := location\<rparr>)) (\<lambda>_. returnA None))"

subsection \<open>Setting up from the command line\<close>

record debugFlags =
  verbosityFlag :: int
  vmoduleFlag :: string
  backtraceAtFlag :: string
  debugFlag :: bool
  pprofFlag :: bool
  pprofAddrFlag :: string
  pprofPortFlag :: int
  memprofilerateFlag :: int
  blockprofilerateFlag :: int
  cpuprofileFlag :: string
  traceFlag :: string
  logFileFlag :: string

text \<open>The values of the flags that are not given; the argument is the runtime's own memory profiling rate.\<close>

definition defaultFlags :: "int \<Rightarrow> debugFlags" where
  "defaultFlags memProfileRate =
     \<lparr>verbosityFlag = 3, vmoduleFlag = '''', backtraceAtFlag = '''', debugFlag = False, pprofFlag = False,
      pprofAddrFlag = ''127.0.0.1'', pprofPortFlag = 6060, memprofilerateFlag = memProfileRate,
      blockprofilerateFlag = 0, cpuprofileFlag = '''', traceFlag = '''', logFileFlag = ''''\<rparr>"

definition NewGlogHandler :: "string option \<Rightarrow> glog" where
  "NewGlogHandler out = \<lparr>g_output = out, g_verbosity = 0, g_vmodule = '''', g_backtrace = ''''\<rparr>"

text \<open>The handler writes to the log file, or to the standard error stream (\<open>None\<close>).\<close>

definition openLog :: "dbgEnv \<Rightarrow> debugFlags \<Rightarrow> string option debugAction" where
  "openLog env fl =
     (if logFileFlag fl \<noteq> [] then
        (case log_fileErr env (logFileFlag fl) of Some err \<Rightarrow> returnA (Some err)
         | None \<Rightarrow> bindA (modifyA (\<lambda>s. s\<lparr>glogger := Some (NewGlogHandler (Some (logFileFlag fl)))\<rparr>)) (\<lambda>_. returnA None))
      else bindA (modifyA (\<lambda>s. s\<lparr>glogger := Some (NewGlogHandler None)\<rparr>)) (\<lambda>_. returnA None))"

definition Setup :: "dbgEnv \<Rightarrow> debugFlags \<Rightarrow> string option debugAction" where
  "Setup env fl =
     bindA (openLog env fl) (\<lambda>err.
     case err of Some e \<Rightarrow> returnA (Some e) | None \<Rightarrow>
     bindA (modifyA (\<lambda>s. s\<lparr>logOrigins := debugFlag fl\<rparr>)) (\<lambda>_.
     bindA (Verbosity (verbosityFlag fl)) (\<lambda>_.
     bindA (Vmodule env (vmoduleFlag fl)) (\<lambda>err.
     case err of Some e \<Rightarrow> returnA (Some e) | None \<Rightarrow>
     bindA (BacktraceAt env (backtraceAtFlag fl)) (\<lambda>_.
     bindA (modifyA (\<lambda>s. s\<lparr>logRoot := True, rt_memRate := memprofilerateFlag fl\<rparr>)) (\<lambda>_.
     bindA (SetBlockProfileRate (blockprofilerateFlag fl)) (\<lambda>_.
     bindA (if traceFlag fl \<noteq> [] then StartGoTrace env (traceFlag fl) else returnA None) (\<lambda>err.
     case err of Some e \<Rightarrow> returnA (Some e) | None \<Rightarrow>
     bindA (if cpuprofileFlag fl \<noteq> [] then StartCPUProfile env (cpuprofileFlag fl) else returnA None) (\<lambda>err.
     case err of Some e \<Rightarrow> returnA (Some e) | None \<Rightarrow>
     bindA (if pprofFlag fl
            then modifyA (\<lambda>s. s\<lparr>pprofServers := pprofServers s @ [pprofAddrFlag fl @ '':'' @ BigInt_String (pprofPortFlag fl)]\<rparr>)
            else returnA ()) (\<lambda>_.
     returnA None))))))))))"

definition debug_Exit :: "unit debugAction" where
  "debug_Exit = bindA StopCPUProfile (\<lambda>_. bindA StopGoTrace (\<lambda>_. returnA ()))"

subsection \<open>All calls\<close>

text \<open>
  Everything that can happen to the state: calls of the handler, set-up and exit, and the requests of a client of the
  pprof server, which uses the runtime's recorders directly.  A call that sleeps carries what happens meanwhile.
\<close>

datatype debugCall =
    CallStartCPU string
  | CallStopCPU
  | CallStartTrace string
  | CallStopTrace
  | CallCPUProfile string "debugCall list"
  | CallGoTrace string "debugCall list"
  | CallBlockProfile string "debugCall list"
  | CallWriteBlock string
  | CallWriteMem string
  | CallBlockRate int
  | CallGCPercent int
  | CallLoudPanic string
  | CallVerbosity int
  | CallVmodule string
  | CallBacktraceAt string
  | CallSetup debugFlags
  | CallExit
  | HttpStartCPU
  | HttpStopCPU
  | HttpStartTrace
  | HttpStopTrace

fun debugCallA :: "dbgEnv \<Rightarrow> debugCall \<Rightarrow> unit debugAction" where
  "debugCallA env (CallStartCPU file) = bindA (StartCPUProfile env file) (\<lambda>_. returnA ())"
| "debugCallA env CallStopCPU = bindA StopCPUProfile (\<lambda>_. returnA ())"
| "debugCallA env (CallStartTrace file) = bindA (StartGoTrace env file) (\<lambda>_. returnA ())"
| "debugCallA env CallStopTrace = bindA StopGoTrace (\<lambda>_. returnA ())"
| "debugCallA env (CallCPUProfile file cs) = bindA (CPUProfile env file (foreachA (debugCallA env) cs)) (\<lambda>_. returnA ())"
| "debugCallA env (CallGoTrace file cs) = bindA (GoTrace env file (foreachA (debugCallA env) cs)) (\<lambda>_. returnA ())"
| "debugCallA env (CallBlockProfile file cs) = bindA (BlockProfile env file (foreachA (debugCallA env) cs)) (\<lambda>_. returnA ())"
| "debugCallA env (CallWriteBlock file) = bindA (WriteBlockProfile env file) (\<lambda>_. returnA ())"
| "debugCallA env (CallWriteMem file) = bindA (WriteMemProfile env file) (\<lambda>_. returnA ())"
| "debugCallA env (CallBlockRate rate) = SetBlockProfileRate rate"
| "debugCallA env (CallGCPercent v) = bindA (SetGCPercent v) (\<lambda>_. returnA ())"
| "debugCallA env (CallLoudPanic x) = LoudPanic x"
| "debugCallA env (CallVerbosity level) = Verbosity level"
| "debugCallA env (CallVmodule p) = bindA (Vmodule env p) (\<lambda>_. returnA ())"
| "debugCallA env (CallBacktraceAt l) = bindA (BacktraceAt env l) (\<lambda>_. returnA ())"
| "debugCallA env (CallSetup fl) = bindA (Setup env fl) (\<lambda>_. returnA ())"
| "debugCallA env CallExit = debug_Exit"
| "debugCallA env HttpStartCPU = bindA (pprof_StartCPUProfile HttpClient) (\<lambda>_. returnA ())"
| "debugCallA env HttpStopCPU = pprof_StopCPUProfile"
| "debugCallA env HttpStartTrace = bindA (trace_Start HttpClient) (\<lambda>_. returnA ())"
| "debugCallA env HttpStopTrace = trace_Stop"

subsection \<open>Lemmas\<close>

text \<open>
  The open files are the ones the handler records to, and the runtime writes to no other file: not to one that is closed.
\<close>

definition handlerOk :: "dbgEnv \<Rightarrow> dbg \<Rightarrow> bool" where
  "handlerOk env s \<longleftrightarrow>
     set (os_open s) = (\<lambda>f. (f, expandHome env (cpuFile s))) ` set_option (cpuW s) \<union>
       (\<lambda>f. (f, expandHome env (traceFile s))) ` set_option (traceW s) \<and>
     distinct (map fst (os_open s)) \<and> (\<forall>x \<in> set (os_open s). fst x < os_next s) \<and>
     (cpuW s \<noteq> None \<longrightarrow> cpuW s \<noteq> traceW s) \<and>
     (\<forall>f. rt_cpu s = Some (HandlerFile f) \<longrightarrow> cpuW s = Some f) \<and>
     (\<forall>f. rt_trace s = Some (HandlerFile f) \<longrightarrow> traceW s = Some f)"

lemma handlerOk_simps [simp]:
  "handlerOk env (s\<lparr>glogger := g\<rparr>) = handlerOk env s" "handlerOk env (s\<lparr>logRoot := b\<rparr>) = handlerOk env s"
  "handlerOk env (s\<lparr>logOrigins := b\<rparr>) = handlerOk env s" "handlerOk env (s\<lparr>rt_blockRate := n\<rparr>) = handlerOk env s"
  "handlerOk env (s\<lparr>rt_memRate := n\<rparr>) = handlerOk env s" "handlerOk env (s\<lparr>pprofServers := l\<rparr>) = handlerOk env s"
  "handlerOk env (s\<lparr>rt_gcPercent := n\<rparr>) = handlerOk env s" "handlerOk env (s\<lparr>rt_traceback := t\<rparr>) = handlerOk env s"
  by (simp_all add: handlerOk_def)

lemma handlerOk_next: "handlerOk env s \<Longrightarrow> handlerOk env (s\<lparr>os_next := Suc (os_next s)\<rparr>)"
  by (auto simp: handlerOk_def less_Suc_eq)

lemma filter_fresh: "\<forall>x \<in> set xs. fst x < n \<Longrightarrow> filter (\<lambda>x. fst x \<noteq> n) xs = xs" for n :: nat
  by (auto simp: filter_id_conv)

lemma fresh_not_open: "handlerOk env s \<Longrightarrow> filter (\<lambda>x. fst x \<noteq> os_next s) (os_open s) = os_open s"
  by (simp add: handlerOk_def filter_fresh)

lemma filter_closed:
  assumes "handlerOk env s"
  shows "cpuW s = Some f \<Longrightarrow> set (filter (\<lambda>x. fst x \<noteq> f) (os_open s)) = (\<lambda>g. (g, expandHome env (traceFile s))) ` set_option (traceW s)"
    "traceW s = Some f \<Longrightarrow> set (filter (\<lambda>x. fst x \<noteq> f) (os_open s)) = (\<lambda>g. (g, expandHome env (cpuFile s))) ` set_option (cpuW s)"
  using assms by (auto simp: handlerOk_def)

lemmas recorder_defs = pprof_StartCPUProfile_def pprof_StopCPUProfile_def trace_Start_def trace_Stop_def
  os_Create_def file_Close_def bindA_def

lemma keeps_StartCPUProfile: "keeps (handlerOk env) (StartCPUProfile env file)"
proof (rule keepsI)
  fix s assume s: "handlerOk env s"
  show "handlerOk env (snd (StartCPUProfile env file s))"
  proof (cases "cpuW s = None \<and> os_createErr env (os_next s) (expandHome env file) = None \<and> rt_cpu s = None")
    case True
    have "\<forall>x \<in> set (os_open s). fst x < os_next s" using s by (simp add: handlerOk_def)
    moreover have "traceW s \<noteq> Some (os_next s)" using s by (force simp: handlerOk_def)
    ultimately show ?thesis
      using s True by (auto simp: StartCPUProfile_def recorder_defs) (auto simp: handlerOk_def)
  next
    case False
    then show ?thesis
      using s handlerOk_next [OF s] fresh_not_open [OF s]
      by (auto simp: StartCPUProfile_def recorder_defs split: option.splits)
  qed
qed

lemma keeps_StartGoTrace: "keeps (handlerOk env) (StartGoTrace env file)"
proof (rule keepsI)
  fix s assume s: "handlerOk env s"
  show "handlerOk env (snd (StartGoTrace env file s))"
  proof (cases "traceW s = None \<and> os_createErr env (os_next s) (expandHome env file) = None \<and> rt_trace s = None")
    case True
    have "\<forall>x \<in> set (os_open s). fst x < os_next s" using s by (simp add: handlerOk_def)
    moreover have "cpuW s \<noteq> Some (os_next s)" using s by (force simp: handlerOk_def)
    ultimately show ?thesis
      using s True by (auto simp: StartGoTrace_def recorder_defs) (auto simp: handlerOk_def)
  next
    case False
    then show ?thesis
      using s handlerOk_next [OF s] fresh_not_open [OF s]
      by (auto simp: StartGoTrace_def recorder_defs split: option.splits)
  qed
qed

lemma StopCPUProfile_run:
  "StopCPUProfile s = (case cpuW s of
     None \<Rightarrow> (Ret (Some ''CPU profiling not in progress''), s\<lparr>rt_cpu := None\<rparr>)
   | Some f \<Rightarrow> (Ret None, s\<lparr>cpuW := None, cpuFile := '''', rt_cpu := None, os_open := filter (\<lambda>x. fst x \<noteq> f) (os_open s)\<rparr>))"
  by (simp add: StopCPUProfile_def recorder_defs split: option.split)

lemma StopGoTrace_run:
  "StopGoTrace s = (case traceW s of
     None \<Rightarrow> (Ret (Some ''trace not in progress''), s\<lparr>rt_trace := None\<rparr>)
   | Some f \<Rightarrow> (Ret None, s\<lparr>traceW := None, traceFile := '''', rt_trace := None, os_open := filter (\<lambda>x. fst x \<noteq> f) (os_open s)\<rparr>))"
  by (simp add: StopGoTrace_def recorder_defs split: option.split)

lemma handlerOk_off [simp]:
  "handlerOk env s \<Longrightarrow> handlerOk env (s\<lparr>rt_cpu := None\<rparr>)" "handlerOk env s \<Longrightarrow> handlerOk env (s\<lparr>rt_trace := None\<rparr>)"
  by (simp_all add: handlerOk_def)

lemma keeps_StopCPUProfile: "keeps (handlerOk env) StopCPUProfile"
proof (rule keepsI)
  fix s assume s: "handlerOk env s"
  show "handlerOk env (snd (StopCPUProfile s))"
  proof (cases "cpuW s")
    case (Some f)
    then show ?thesis
      using filter_closed(1) [OF s Some] s by (auto simp: StopCPUProfile_run handlerOk_def distinct_map_filter)
  qed (use s in \<open>simp add: StopCPUProfile_run\<close>)
qed

lemma keeps_StopGoTrace: "keeps (handlerOk env) StopGoTrace"
proof (rule keepsI)
  fix s assume s: "handlerOk env s"
  show "handlerOk env (snd (StopGoTrace s))"
  proof (cases "traceW s")
    case (Some f)
    then show ?thesis
      using filter_closed(2) [OF s Some] s by (auto simp: StopGoTrace_run handlerOk_def distinct_map_filter)
  qed (use s in \<open>simp add: StopGoTrace_run\<close>)
qed

lemma keeps_writeProfile: "keeps (handlerOk env) (writeProfile env name file)"
proof (rule keepsI)
  fix s assume s: "handlerOk env s"
  from handlerOk_next [OF s] fresh_not_open [OF s] show "handlerOk env (snd (writeProfile env name file s))"
    by (simp add: writeProfile_def recorder_defs split: option.split)
qed

lemma keeps_modify_handler: "(\<And>s. handlerOk env (f s) = handlerOk env s) \<Longrightarrow> keeps (handlerOk env) (modifyA f)"
  by (rule keepsI) simp

lemma keeps_withGlogger: "keeps (handlerOk env) (withGlogger f)"
  unfolding withGlogger_def by (intro keeps_rules keeps_modify_handler) simp

lemmas keeps_handler = keeps_StartCPUProfile keeps_StopCPUProfile keeps_StartGoTrace keeps_StopGoTrace keeps_writeProfile
  keeps_withGlogger keeps_modify_handler

lemma keeps_Setup: "keeps (handlerOk env) (Setup env fl)"
  unfolding Setup_def openLog_def Verbosity_def Vmodule_def BacktraceAt_def SetBlockProfileRate_def
  by (intro keeps_rules keeps_handler) simp_all

lemma keeps_profiles:
  assumes "keeps (handlerOk env) during"
  shows "keeps (handlerOk env) (CPUProfile env file during)" "keeps (handlerOk env) (GoTrace env file during)"
    "keeps (handlerOk env) (BlockProfile env file during)"
  unfolding CPUProfile_def GoTrace_def BlockProfile_def SetBlockProfileRate_def
  by (intro keeps_rules keeps_handler assms; simp)+

lemma keeps_settings:
  "keeps (handlerOk env) (WriteBlockProfile env file)" "keeps (handlerOk env) (WriteMemProfile env file)"
  "keeps (handlerOk env) (SetBlockProfileRate n)" "keeps (handlerOk env) (Verbosity n)" "keeps (handlerOk env) (Vmodule env p)"
  "keeps (handlerOk env) (BacktraceAt env l)" "keeps (handlerOk env) debug_Exit"
  "keeps (handlerOk env) (SetGCPercent v)" "keeps (handlerOk env) (LoudPanic x)"
  unfolding SetGCPercent_def LoudPanic_def WriteBlockProfile_def WriteMemProfile_def SetBlockProfileRate_def Verbosity_def Vmodule_def BacktraceAt_def debug_Exit_def
  by (intro keeps_rules keeps_handler; simp)+

lemma keeps_http:
  "keeps (handlerOk env) (pprof_StartCPUProfile HttpClient)" "keeps (handlerOk env) (trace_Start HttpClient)"
  "keeps (handlerOk env) pprof_StopCPUProfile" "keeps (handlerOk env) trace_Stop"
  by (auto intro!: keepsI simp: recorder_defs) (simp_all add: handlerOk_def)

lemma keeps_debugCall: "keeps (handlerOk env) (debugCallA env c)"
  by (induction c) (auto intro!: keeps_bindA keeps_returnA keeps_foreachA keeps_profiles keeps_settings keeps_http
      keeps_handler keeps_Setup simp del: returnA_app)

subsection \<open>Properties\<close>

text \<open>A new process: nothing is open and nothing is recorded.\<close>

definition newDbg :: dbg where
  "newDbg =
     \<lparr>cpuW = None, cpuFile = '''', traceW = None, traceFile = '''', glogger = None, logRoot = False, logOrigins = False,
      rt_cpu = None, rt_trace = None, rt_blockRate = 0, rt_memRate = 524288, rt_gcPercent = 100, rt_traceback = ''single'', os_open = [], os_next = 0, pprofServers = []\<rparr>"

lemma handlerOk_new [simp]: "handlerOk env newDbg"
  by (simp add: handlerOk_def newDbg_def)

text \<open>
  C38. No profile file is lost.  After any sequence of calls of the debug handler, set-ups and exits, nested calls during a sleep and
  requests to the pprof server, whatever file cannot be created or written: the open files are exactly the ones
  to which the handler is recording, under the name given for them, at most one for the profile and one for the trace; and the runtime
  records to no file that is closed.
\<close>
theorem no_profile_file_lost:
  "case foreachA (debugCallA env) calls newDbg of (r, s) \<Rightarrow>
     set (os_open s) = (\<lambda>f. (f, expandHome env (cpuFile s))) ` set_option (cpuW s) \<union>
       (\<lambda>f. (f, expandHome env (traceFile s))) ` set_option (traceW s) \<and>
     length (os_open s) = (if cpuW s = None then 0 else 1) + (if traceW s = None then 0 else 1) \<and>
     rt_cpu s \<in> {None, Some HttpClient} \<union> (Some \<circ> HandlerFile) ` set_option (cpuW s) \<and>
     rt_trace s \<in> {None, Some HttpClient} \<union> (Some \<circ> HandlerFile) ` set_option (traceW s)"
proof -
  have "keeps (handlerOk env) (foreachA (debugCallA env) calls)" by (intro keeps_foreachA keeps_debugCall)
  from keepsD [OF this handlerOk_new] obtain r s where run: "foreachA (debugCallA env) calls newDbg = (r, s)"
    and ok: "handlerOk env s" by (cases "foreachA (debugCallA env) calls newDbg") auto
  have "length (os_open s) = card (fst ` set (os_open s))"
    using ok distinct_card [of "map fst (os_open s)"] by (simp add: handlerOk_def)
  also have "\<dots> = card (set_option (cpuW s) \<union> set_option (traceW s))"
    using ok by (simp add: handlerOk_def image_Un image_image)
  also have "\<dots> = (if cpuW s = None then 0 else 1) + (if traceW s = None then 0 else 1)"
    using ok by (cases "cpuW s"; cases "traceW s") (auto simp: handlerOk_def)
  finally have len: "length (os_open s) = \<dots>" .
  have "rt_cpu s \<in> {None, Some HttpClient} \<union> (Some \<circ> HandlerFile) ` set_option (cpuW s)"
    using ok by (cases "rt_cpu s"; cases "the (rt_cpu s)") (auto simp: handlerOk_def)
  moreover have "rt_trace s \<in> {None, Some HttpClient} \<union> (Some \<circ> HandlerFile) ` set_option (traceW s)"
    using ok by (cases "rt_trace s"; cases "the (rt_trace s)") (auto simp: handlerOk_def)
  ultimately show ?thesis using run ok len by (simp add: handlerOk_def)
qed

text \<open>
  \<open>Exit\<close> ends the handler's recordings, whatever was done before.
\<close>

lemma debug_Exit_closes:
  assumes "handlerOk env s"
  shows "\<exists>s'. debug_Exit s = (Ret (), s') \<and> os_open s' = [] \<and> rt_cpu s' = None \<and> rt_trace s' = None"
proof -
  have ok: "handlerOk env (snd (debug_Exit s))" using keepsD [OF keeps_settings(7) assms] .
  have "debug_Exit s = (Ret (), snd (debug_Exit s))" "cpuW (snd (debug_Exit s)) = None" "traceW (snd (debug_Exit s)) = None"
    "rt_cpu (snd (debug_Exit s)) = None" "rt_trace (snd (debug_Exit s)) = None"
    by (auto simp: debug_Exit_def bindA_def StopCPUProfile_run StopGoTrace_run split: option.split)
  with ok show ?thesis by (intro exI [of _ "snd (debug_Exit s)"]) (simp add: handlerOk_def)
qed

text \<open>
  Stopping a profile that the handler did not start reports an error, and stops the profile of a client of the pprof server.
\<close>

lemma stop_without_start_stops_http_profile:
  assumes "cpuW s = None"
  shows "StopCPUProfile s = (Ret (Some ''CPU profiling not in progress''), s\<lparr>rt_cpu := None\<rparr>)"
  using assms by (simp add: StopCPUProfile_run)

end
