(* ===== verification/PM_Main.thy ===== *)
theory PM_Main
  imports PM_Start PM_Debug
begin

text \<open>
  The command line of \<open>cmd/photonmonitoring/main.go\<close> (\<open>StartMain\<close>, the whole of \<open>config\<close>, the quit handler), the directories of
  \<open>params/config.go\<close>, the router of \<open>rest/main.go\<close>, the empty interface implementations of \<open>chainservice/helper.go\<close> and \<open>FileExists\<close> of \<open>models/db.go\<close>.

  The host is given by its answers; paths are Unix paths, so the Windows branches are left out.  The command-line library runs
  \<open>Before\<close>, then the action, and \<open>After\<close> in a deferred function, which a panic runs and \<open>os.Exit\<close> does not.
  The lemmas compose the parts: which flag switches off which check, where the files are, and what is still open at the end.
\<close>

subsection \<open>Directories\<close>

text \<open>\<open>host_prompt\<close> is \<open>PromptAccount\<close> on address, key store and password file; \<open>host_keyErr\<close> is \<open>ToECDSA\<close>.\<close>

record hostEnv = dbgEnv +
  os_TempDir :: string
  host_darwin :: bool
  host_exists :: "string \<Rightarrow> bool"
  host_mkdirErr :: "string \<Rightarrow> string option"
  host_prompt :: "Address \<Rightarrow> string \<Rightarrow> string \<Rightarrow> string + Address \<times> byte list"
  host_keyErr :: "byte list \<Rightarrow> string option"

definition homeDir :: "hostEnv \<Rightarrow> string" where
  "homeDir h =
     (if os_HOME h \<noteq> [] then os_HOME h else case os_userHome h of Some d \<Rightarrow> d | None \<Rightarrow> '''')"

definition DefaultDataDir :: "hostEnv \<Rightarrow> string" where
  "DefaultDataDir h =
     (let home = homeDir h in
      if home \<noteq> [] then
        if host_darwin h then Join [home, ''Library'', ''smartPhotonmonitoring'']
        else Join [home, ''.photonmonitoring'']
      else '''')"

definition node_DefaultDataDir :: "hostEnv \<Rightarrow> string" where
  "node_DefaultDataDir h =
     (let home = homeDir h in
      if home \<noteq> [] then
        if host_darwin h then Join [home, ''Library'', ''Ethereum''] else Join [home, ''.ethereum'']
      else '''')"

definition DefaultKeyStoreDir :: "hostEnv \<Rightarrow> string" where
  "DefaultKeyStoreDir h = Join [node_DefaultDataDir h, ''keystore'']"

definition DefaultIPCEndpoint :: "hostEnv \<Rightarrow> string \<Rightarrow> string" where
  "DefaultIPCEndpoint h clientIdentifier =
     (let path = clientIdentifier @ ''.ipc''; dir = node_DefaultDataDir h in
      if dir = [] then Join [os_TempDir h, path] else Join [dir, path])"

definition GetHomePath :: "hostEnv \<Rightarrow> string" where
  "GetHomePath h = os_HOME h"

text \<open>\<open>os.Stat\<close> succeeds, or fails with an error that \<open>os.IsNotExist\<close> recognises or not.\<close>

datatype statResult = StatOk | StatNotExist | StatOther

definition FileExists :: "statResult \<Rightarrow> bool" where
  "FileExists stat = (case stat of StatOk \<Rightarrow> True | StatNotExist \<Rightarrow> False | StatOther \<Rightarrow> True)"

subsection \<open>Command line\<close>

record cmdline = debugFlags +
  cl_address :: string
  cl_keystorePath :: string
  cl_ethRpcEndpoint :: string
  cl_registry :: string
  cl_apiPort :: int
  cl_datadir :: string
  cl_passwordFile :: string
  cl_smt :: string
  cl_unlockFee :: string
  cl_punishFee :: string
  cl_updateTransferFee :: string
  cl_secretFee :: string
  cl_photonUrl :: string

definition defaultRegistry :: string where
  "defaultRegistry = ''0xd66d3719E89358e0790636b8586b539467EDa596''"

definition defaultPhotonURL :: string where
  "defaultPhotonURL = ''http://127.0.0.1:5001/api/1/queryreceivedtransfer''"

text \<open>The values of the flags that are not given.\<close>

definition defaultCmdline :: "env \<Rightarrow> hostEnv \<Rightarrow> int \<Rightarrow> cmdline" where
  "defaultCmdline env h memProfileRate = debugFlags.extend (defaultFlags memProfileRate)
     \<lparr>cl_address = '''', cl_keystorePath = DefaultKeyStoreDir h, cl_ethRpcEndpoint = DefaultIPCEndpoint h ''geth'',
      cl_registry = Address_Hex (env_keccak env) (HexToAddress defaultRegistry), cl_apiPort = 6000,
      cl_datadir = DefaultDataDir h, cl_passwordFile = '''',
      cl_smt = Address_Hex (env_keccak env) (SmtAddress initParams),
      cl_unlockFee = ''0'', cl_punishFee = ''0'', cl_updateTransferFee = ''0'', cl_secretFee = ''0'',
      cl_photonUrl = defaultPhotonURL\<rparr>"

subsection \<open>Configuration\<close>

record settings =
  st_APIPort :: int
  st_Address :: Address
  st_PrivKey :: "byte list"
  st_RegistryAddress :: Address
  st_DataDir :: string
  st_DataBasePath :: string
  st_params :: params
  st_PhotonURL :: string

datatype configResult =
    Configured settings
  | ConfigExit int
  | ConfigPanic string

definition makeDir :: "hostEnv \<Rightarrow> string \<Rightarrow> bool" where
  "makeDir h dir \<longleftrightarrow> host_exists h dir \<or> host_mkdirErr h dir = None"

definition userDb :: "string \<Rightarrow> Address \<Rightarrow> string" where
  "userDb dataDir address = Join [dataDir, take 8 (hex_encode (word_bytes address))]"

definition fullConfig :: "hostEnv \<Rightarrow> cmdline \<Rightarrow> configResult" where
  "fullConfig h cl =
     (case host_prompt h (HexToAddress (cl_address cl)) (cl_keystorePath cl) (cl_passwordFile cl) of
        Inl err \<Rightarrow> ConfigPanic err | Inr (address, privkeyBin) \<Rightarrow>
      case host_keyErr h privkeyBin of Some _ \<Rightarrow> ConfigExit 1 | None \<Rightarrow>
      let registry = (if length (cl_registry cl) > 0 then HexToAddress (cl_registry cl) else HexToAddress defaultRegistry);
          dataDir = (if length (cl_datadir cl) = 0 then Join [GetHomePath h, ''.Photonmonitoring''] else cl_datadir cl) in
      if \<not> makeDir h dataDir then ConfigExit 1 else
      let userDbPath = userDb dataDir address in
      if \<not> makeDir h userDbPath then ConfigExit 1 else
      let databasePath = Join [userDbPath, ''log.db''] in
      case config (cl_smt cl) (cl_unlockFee cl) (cl_punishFee cl) (cl_updateTransferFee cl) (cl_secretFee cl)
             (cl_photonUrl cl) (debugFlag cl) of
        None \<Rightarrow> ConfigExit 1
      | Some p \<Rightarrow> Configured
          \<lparr>st_APIPort = cl_apiPort cl, st_Address = address, st_PrivKey = privkeyBin, st_RegistryAddress = registry,
           st_DataDir = dataDir, st_DataBasePath = databasePath, st_params = p, st_PhotonURL = cl_photonUrl cl\<rparr>)"

subsection \<open>The process\<close>



text \<open>\<open>main\<close> is what follows the configuration.\<close>

definition mainAction :: "hostEnv \<Rightarrow> cmdline \<Rightarrow> (string \<Rightarrow> settings \<Rightarrow> startup) \<Rightarrow> startup" where
  "mainAction h cl main =
     (case fullConfig h cl of
        Configured st \<Rightarrow> main (cl_ethRpcEndpoint cl) st | ConfigExit n \<Rightarrow> Exit n | ConfigPanic err \<Rightarrow> Crash err)"

text \<open>
  Serving ends with the quit signal (\<open>SystemExit(0)\<close> after the services are stopped), when the HTTP server returns (\<open>log.Crit\<close>), or
  with a panic of another goroutine, for which the runtime exits with 2 and runs no deferred function of \<open>main\<close>.
\<close>

datatype serverEnd = QuitBySignal | HttpServerReturned | GoroutinePanicked

datatype processEnd =
    Returned "string option"
  | Exited int
  | Crashed string

text \<open>\<open>Stop\<close> of the chain events stops the event source and closes the channel of the loop; the quit handler stops the query first.\<close>

definition ce_Stop :: "signal list" where
  "ce_Stop = [QuitSignal]"

definition quitHandler :: "query \<Rightarrow> query \<times> timerSignal list \<times> signal list" where
  "quitHandler sq = (Stop sq, [SmtQuit], ce_Stop)"

definition StartMain :: "hostEnv \<Rightarrow> cmdline \<Rightarrow> (string \<Rightarrow> settings \<Rightarrow> startup) \<Rightarrow> serverEnd \<Rightarrow> processEnd debugAction" where
  "StartMain h cl main served =
     bindA (Setup (dbgEnv.truncate h) (debugFlags.truncate cl)) (\<lambda>err.
     case err of
       Some e \<Rightarrow> bindA debug_Exit (\<lambda>_. returnA (Returned (Some e)))
     | None \<Rightarrow>
       (case mainAction h cl main of
          Exit n \<Rightarrow> returnA (Exited n)
        | Crash msg \<Rightarrow> bindA debug_Exit (\<lambda>_. returnA (Crashed msg))
        | Serving _ _ _ _ _ \<Rightarrow>
            returnA (Exited (case served of QuitBySignal \<Rightarrow> 0 | HttpServerReturned \<Rightarrow> 1 | GoroutinePanicked \<Rightarrow> 2))))"


subsection \<open>Routes\<close>

datatype route =
    DelegateRoute string
  | TxRoute string string
  | FeeRoute string

text \<open>The method and the elements of the path.\<close>

definition MakeRouter :: "string \<Rightarrow> string list \<Rightarrow> route option" where
  "MakeRouter verb path =
     (if verb = ''POST'' then
        (case path of [p, delegater] \<Rightarrow> if p = ''delegate'' then Some (DelegateRoute delegater) else None | _ \<Rightarrow> None)
      else if verb = ''GET'' then
        (case path of
           [p, delegater] \<Rightarrow> if p = ''fee'' then Some (FeeRoute delegater) else None
         | [p, delegater, channel] \<Rightarrow> if p = ''tx'' then Some (TxRoute delegater channel) else None
         | _ \<Rightarrow> None)
      else None)"

datatype 'm restAnswer =
    DelegateAnswer delegateResponse
  | TxAnswer "'m apiResponse_scheme"
  | FeeAnswer feeReponse
  | NotFound

text \<open>\<open>Start\<close> makes the chain events the verifier of the handlers.\<close>

definition rest_Start :: "env \<Rightarrow> 'm \<Rightarrow> (delegateInfoResponse \<Rightarrow> 'm apiResponse_scheme) \<Rightarrow>
    string \<Rightarrow> string list \<Rightarrow> string + channelFor3rd \<Rightarrow> 'm restAnswer action" where
  "rest_Start env blank newAPIResponse verb path payload =
     (case MakeRouter verb path of
        None \<Rightarrow> returnA NotFound
      | Some (DelegateRoute d) \<Rightarrow> bindA (Delegate env (Some (VerifyDelegate env)) d payload) (\<lambda>r. returnA (DelegateAnswer r))
      | Some (TxRoute d c) \<Rightarrow> bindA (Tx env blank newAPIResponse d c) (\<lambda>r. returnA (TxAnswer r))
      | Some (FeeRoute d) \<Rightarrow> bindA (Fee env d) (\<lambda>r. returnA (FeeAnswer r)))"

subsection \<open>The interfaces that are left empty\<close>

text \<open>
  Photon's transaction log and its memory of delivered events: nothing is kept, so every event counts as not delivered.
  \<open>blank\<close> is the zero value of a type of Photon.
\<close>

definition NewPendingTXInfo :: "'i \<Rightarrow> 'i \<times> string option" where
  "NewPendingTXInfo blank = (blank, None)"

definition SaveEventToTXInfo :: "'i \<Rightarrow> 'i \<times> string option" where
  "SaveEventToTXInfo blank = (blank, None)"

definition UpdateTXInfoStatus :: "'i \<Rightarrow> 'i \<times> string option" where
  "UpdateTXInfoStatus blank = (blank, None)"

definition GetTXInfoList :: "'i list \<times> string option" where
  "GetTXInfoList = ([], None)"

definition NewDeliveredChainEvent :: "string \<Rightarrow> nat \<Rightarrow> unit action" where
  "NewDeliveredChainEvent eventID blockNumber = returnA ()"

definition CheckChainEventDelivered :: "string \<Rightarrow> (nat \<times> bool) action" where
  "CheckChainEventDelivered eventID = returnA (0, False)"

definition ClearOldChainEventRecord :: "nat \<Rightarrow> unit action" where
  "ClearOldChainEventRecord blockNumber = returnA ()"

definition MakeChainEventID :: "'l \<Rightarrow> string" where
  "MakeChainEventID l = ''''"

lemma event_never_delivered:
  "bindA (NewDeliveredChainEvent i n) (\<lambda>_. CheckChainEventDelivered i) w = (Ret (0, False), w)"
  by (simp add: NewDeliveredChainEvent_def CheckChainEventDelivered_def)

subsection \<open>Lemmas\<close>

lemma Configured_iff:
  "fullConfig h cl = Configured st \<longleftrightarrow>
     (\<exists>p bin. host_prompt h (HexToAddress (cl_address cl)) (cl_keystorePath cl) (cl_passwordFile cl) = Inr (st_Address st, bin) \<and>
        host_keyErr h bin = None \<and> makeDir h (st_DataDir st) \<and> makeDir h (userDb (st_DataDir st) (st_Address st)) \<and>
        config (cl_smt cl) (cl_unlockFee cl) (cl_punishFee cl) (cl_updateTransferFee cl) (cl_secretFee cl)
          (cl_photonUrl cl) (debugFlag cl) = Some p \<and>
        st = \<lparr>st_APIPort = cl_apiPort cl, st_Address = st_Address st, st_PrivKey = bin,
          st_RegistryAddress = (if length (cl_registry cl) > 0 then HexToAddress (cl_registry cl) else HexToAddress defaultRegistry),
          st_DataDir = (if length (cl_datadir cl) = 0 then Join [GetHomePath h, ''.Photonmonitoring''] else cl_datadir cl),
          st_DataBasePath = Join [userDb (st_DataDir st) (st_Address st), ''log.db''], st_params = p, st_PhotonURL = cl_photonUrl cl\<rparr>)"
  by (cases st) (auto simp: fullConfig_def Let_def split: sum.splits option.splits prod.splits if_splits)

text \<open>What an accepted configuration takes from the command line.\<close>

lemma config_params:
  assumes "config smtAddr unlockStr punishStr updateStr secretStr url debug = Some p"
  shows "DebugMode p = debug" "SmtAddress p = HexToAddress smtAddr" "BigInt_SetString unlockStr = Some (SmtUnlock p)"
    "BigInt_SetString punishStr = Some (SmtPunish p)" "BigInt_SetString updateStr = Some (SmtUpdateTransfer p)"
    "BigInt_SetString secretStr = Some (SmtSecret p)"
  using assms by (auto simp: config_def split: option.splits if_splits)

lemma fullConfig_params:
  "fullConfig h cl = Configured st \<Longrightarrow> config (cl_smt cl) (cl_unlockFee cl) (cl_punishFee cl) (cl_updateTransferFee cl)
     (cl_secretFee cl) (cl_photonUrl cl) (debugFlag cl) = Some (st_params st)"
  unfolding Configured_iff by (metis settings.select_convs(7))

text \<open>Two operators whose addresses agree in the first four bytes use the same database in a data directory.\<close>

lemma hex_encode_prefix: "take (2 * n) (hex_encode bs) = hex_encode (take n bs)"
proof (induction n arbitrary: bs)
  case (Suc n)
  then show ?case by (cases bs) (simp_all add: hex_encode_def)
qed (simp add: hex_encode_def)

lemma database_of_address_prefix:
  assumes "fullConfig h cl = Configured st" "fullConfig h' cl' = Configured st'" "st_DataDir st = st_DataDir st'"
    and "take 4 (word_bytes (st_Address st)) = take 4 (word_bytes (st_Address st'))"
  shows "st_DataBasePath st = st_DataBasePath st'"
proof -
  have "st_DataBasePath st = Join [userDb (st_DataDir st) (st_Address st), ''log.db'']"
    "st_DataBasePath st' = Join [userDb (st_DataDir st') (st_Address st'), ''log.db'']"
    using assms(1,2) unfolding Configured_iff by (metis settings.select_convs(6))+
  moreover have "take 8 (hex_encode bs) = hex_encode (take 4 bs)" for bs using hex_encode_prefix [of 4 bs] by simp
  ultimately show ?thesis using assms(3,4) by (simp add: userDb_def)
qed


text \<open>The set-up sets the log handler before it uses it, and starts exactly the recordings that were asked for.\<close>

lemma Setup_fresh:
  assumes "Setup env fl newDbg = (r, s)"
  shows "\<exists>err. r = Ret err \<and> (err = None \<longrightarrow>
     (cpuprofileFlag fl \<noteq> [] \<longrightarrow> (\<exists>f. cpuW s = Some f \<and> rt_cpu s = Some (HandlerFile f))) \<and>
     (traceFlag fl \<noteq> [] \<longrightarrow> (\<exists>f. traceW s = Some f \<and> rt_trace s = Some (HandlerFile f))))"
  using assms
  by (auto simp: Setup_def openLog_def Verbosity_def Vmodule_def BacktraceAt_def SetBlockProfileRate_def withGlogger_def
      StartGoTrace_def StartCPUProfile_def recorder_defs newDbg_def split: option.splits if_splits)

subsection \<open>Properties\<close>

text \<open>
  C32. The flag that is documented to add call sites to the log also switches off the check of updates: a service configured with
  \<open>--debug\<close> accepts, in a sound database, when no statement fails and no part of the request is nil, an update with any nonce and any opening block for a delegation in state Init, and the stored
  balance proof becomes the one of the request, also when that is the older one.
\<close>
theorem debug_flag_drops_nonce_check:
  assumes "fullConfig h cl = Configured st" "debugFlag cl" "env_params env = st_params st"
    and "no_faults env" "accounts_ok (store w)" "delegates_ok (store w)" "request_ok c"
    and "delegateBy (BuildDelegateKey (c_ChannelIdentifier c) a) (store w) = Some d" "d_Status d = DelegateStatusInit"
  shows "\<exists>w' d'. ReceiveDelegate env c a w = (Ret (Inr ()), w') \<and>
     delegateBy (BuildDelegateKey (c_ChannelIdentifier c) a) (store w') = Some d' \<and>
     UpdateBalanceProof d' = Ret (GetDelegateUpdateBalanceProof c)"
proof -
  have debug: "DebugMode (env_params env)"
    using config_params(1) [OF fullConfig_params [OF assms(1)]] assms(2,3) by simp
  obtain us ss where conv: "GetDelegateUnlocks c = Ret us" "GetDeleteSecrets c = Ret ss"
    using assms(7) by (auto simp: request_ok_def)
  from ReceiveDelegate_update [OF assms(4-7) conv assms(8)] debug obtain w' t x where
    "ReceiveDelegate env c a w = (Ret (Inr ()), w')"
    "delegateBy (BuildDelegateKey (c_ChannelIdentifier c) a) (store w') = Some (updatedRow env c us ss x t d)"
    by auto
  moreover have "UpdateBalanceProof (updatedRow env c us ss x t d) = Ret (GetDelegateUpdateBalanceProof c)"
    using assms(9) by (simp add: updatedRow_def UpdateBalanceProof_def gobDecode_def Let_def)
  ultimately show ?thesis by blast
qed

text \<open>
  What is still recorded when the process ends.  When the set-up fails or the start panics, every profile file is closed.
  In every other case the process ends with \<open>os.Exit\<close> (a refused configuration, the quit signal, the end of the HTTP
  server) or by the runtime (a panic in a goroutine), and \<open>debug.Exit\<close> is skipped: the CPU profile and the trace that were
  asked for on the command line are then still open and recording.
\<close>
lemma profiles_closed_unless_exit:
  "case StartMain h cl main served newDbg of
     (Ret (Exited n), s) \<Rightarrow>
       (cpuprofileFlag cl \<noteq> [] \<longrightarrow> (\<exists>f. cpuW s = Some f \<and> f \<in> fst ` set (os_open s) \<and> rt_cpu s = Some (HandlerFile f))) \<and>
       (traceFlag cl \<noteq> [] \<longrightarrow> (\<exists>f. traceW s = Some f \<and> f \<in> fst ` set (os_open s) \<and> rt_trace s = Some (HandlerFile f)))
   | (Ret _, s) \<Rightarrow> os_open s = [] \<and> rt_cpu s = None \<and> rt_trace s = None
   | (Panic _, s) \<Rightarrow> False"
proof -
  let ?env = "dbgEnv.truncate h" and ?fl = "debugFlags.truncate cl"
  obtain err s where run: "Setup ?env ?fl newDbg = (Ret err, s)" and rec: "err = None \<longrightarrow>
     (cpuprofileFlag ?fl \<noteq> [] \<longrightarrow> (\<exists>f. cpuW s = Some f \<and> rt_cpu s = Some (HandlerFile f))) \<and>
     (traceFlag ?fl \<noteq> [] \<longrightarrow> (\<exists>f. traceW s = Some f \<and> rt_trace s = Some (HandlerFile f)))"
    using Setup_fresh [of ?env ?fl] by (metis surj_pair)
  have ok: "handlerOk ?env s" using keepsD [OF keeps_Setup handlerOk_new, of ?env ?fl] run by simp
  obtain s' where exit: "debug_Exit s = (Ret (), s')" "os_open s' = []" "rt_cpu s' = None" "rt_trace s' = None"
    using debug_Exit_closes [OF ok] by blast
  have open_files: "\<And>f. cpuW s = Some f \<Longrightarrow> f \<in> fst ` set (os_open s)" "\<And>f. traceW s = Some f \<Longrightarrow> f \<in> fst ` set (os_open s)"
    using ok by (force simp: handlerOk_def)+
  have flags: "cpuprofileFlag ?fl = cpuprofileFlag cl" "traceFlag ?fl = traceFlag cl" by (simp_all add: debugFlags.truncate_def)
  show ?thesis
  proof (cases err)
    case None
    then show ?thesis
      using run rec open_files exit flags by (auto simp: StartMain_def split: startup.split)
  next
    case (Some e)
    then show ?thesis using run exit by (simp add: StartMain_def)
  qed
qed

text \<open>
  A service that is started without fee arguments is free: all four fees are zero, so it does not ask for payments; the values of
  \<open>params.init\<close> (1, 3, 2 and 1) are never used.  The other defaults: fees are counted in the built-in token, updates are checked.
\<close>
lemma default_start_is_free:
  assumes "fullConfig h (defaultCmdline env h memProfileRate) = Configured st"
  shows "SmtUnlock (st_params st) = 0 \<and> SmtUpdateTransfer (st_params st) = 0 \<and> SmtPunish (st_params st) = 0 \<and>
     SmtSecret (st_params st) = 0 \<and> \<not> startsSmtQuery (st_params st) \<and> \<not> DebugMode (st_params st) \<and>
     SmtAddress (st_params st) = SmtAddress initParams \<and> st_APIPort st = 6000"
proof -
  have zero: "BigInt_SetString ''0'' = Some 0" by code_simp
  have "st_APIPort st = cl_apiPort (defaultCmdline env h memProfileRate)"
    using assms unfolding Configured_iff by (metis settings.select_convs(1))
  then show ?thesis
    using config_params [OF fullConfig_params [OF assms]] zero
    by (simp add: defaultCmdline_def debugFlags.extend_def defaultFlags_def startsSmtQuery_def)
qed





text \<open>The paths of the comments on the handlers are not routes.\<close>

lemma documented_paths_not_found:
  "d \<noteq> ''tx'' \<Longrightarrow> MakeRouter ''GET'' [d, ''channel'', c] = None" "d \<noteq> ''fee'' \<Longrightarrow> MakeRouter ''GET'' [d, ''fee''] = None"
  "d \<noteq> ''delegate'' \<Longrightarrow> MakeRouter ''POST'' [d, ''delegate''] = None"
  by (simp_all add: MakeRouter_def)

subsection \<open>Concrete applications\<close>

definition sampleHost :: hostEnv where
  "sampleHost =
     \<lparr>os_HOME = ''/home/op'', os_userHome = None, os_createErr = \<lambda>_ _. None, os_writeErr = \<lambda>_ _. None, log_fileErr = \<lambda>_. None,
      log_vmoduleErr = \<lambda>_. None, log_backtraceErr = \<lambda>_. None, os_TempDir = ''/tmp'', host_darwin = False, host_exists = \<lambda>_. False, host_mkdirErr = \<lambda>_. None,
      host_prompt = \<lambda>a _ _. Inr (9, [1]), host_keyErr = \<lambda>_. None\<rparr>"

lemma default_configured:
  "\<exists>st. fullConfig sampleHost ((defaultCmdline quietEnv sampleHost 0)\<lparr>debugFlag := b\<rparr>) = Configured st \<and> fees_ok (st_params st)"
proof -
  have "BigInt_SetString ''0'' = Some 0" by code_simp
  then show ?thesis
    by (simp add: fullConfig_def sampleHost_def makeDir_def Let_def config_def defaultCmdline_def debugFlags.extend_def
        defaultFlags_def defaultPhotonURL_def fees_ok_def)
qed

lemma default_configured_plain:
  "\<exists>st. fullConfig sampleHost (defaultCmdline quietEnv sampleHost 0) = Configured st"
proof -
  have "debugFlag (defaultCmdline quietEnv sampleHost 0) = False"
    by (simp add: defaultCmdline_def debugFlags.extend_def defaultFlags_def)
  then have "(defaultCmdline quietEnv sampleHost 0)\<lparr>debugFlag := False\<rparr> = defaultCmdline quietEnv sampleHost 0" by simp
  with default_configured [of False] show ?thesis by auto
qed

lemma default_start_is_free_witness:
  "\<exists>st. fullConfig sampleHost (defaultCmdline quietEnv sampleHost 0) = Configured st \<and> \<not> startsSmtQuery (st_params st)"
  using default_configured_plain default_start_is_free [of sampleHost quietEnv 0] by blast


lemmas setup_defs = Setup_def openLog_def Verbosity_def Vmodule_def BacktraceAt_def SetBlockProfileRate_def withGlogger_def
  StartCPUProfile_def recorder_defs newDbg_def sampleHost_def defaultCmdline_def defaultFlags_def debugFlags.extend_def
  debugFlags.truncate_def dbgEnv.truncate_def


lemma profiles_closed_unless_exit_witness:
  "\<exists>s f. StartMain sampleHost ((defaultCmdline quietEnv sampleHost 0)\<lparr>cpuprofileFlag := ''cpu.out''\<rparr>) (\<lambda>_ _. Exit 1) QuitBySignal newDbg
       = (Ret (Exited 1), s) \<and> rt_cpu s = Some (HandlerFile f) \<and> f \<in> fst ` set (os_open s)"
proof -
  let ?cl = "(defaultCmdline quietEnv sampleHost 0)\<lparr>cpuprofileFlag := ''cpu.out''\<rparr>"
  have zero: "BigInt_SetString ''0'' = Some 0" by code_simp
  have action: "mainAction sampleHost ?cl (\<lambda>_ _. Exit 1) = Exit 1"
    using zero by (simp add: mainAction_def fullConfig_def sampleHost_def makeDir_def Let_def config_def defaultCmdline_def
        debugFlags.extend_def defaultFlags_def defaultPhotonURL_def)
  have "fst (Setup (dbgEnv.truncate sampleHost) (debugFlags.truncate ?cl) newDbg) = Ret None"
    by (simp add: setup_defs)
  then obtain s where run: "StartMain sampleHost ?cl (\<lambda>_ _. Exit 1) QuitBySignal newDbg = (Ret (Exited 1), s)"
    by (cases "Setup (dbgEnv.truncate sampleHost) (debugFlags.truncate ?cl) newDbg") (auto simp: StartMain_def bindA_def action)
  with profiles_closed_unless_exit [where h = sampleHost and cl = ?cl and main = "\<lambda>_ _. Exit 1" and served = QuitBySignal] show ?thesis by auto
qed

theorem debug_flag_drops_nonce_check_witness:
  "\<exists>st c w' d d'. fullConfig sampleHost ((defaultCmdline quietEnv sampleHost 0)\<lparr>debugFlag := True\<rparr>) = Configured st \<and>
     delegateBy (BuildDelegateKey 5 7) (store delegatedWorld) = Some d \<and> UpdateBalanceProof d = Ret sampleProof \<and>
     ReceiveDelegate (quietEnv\<lparr>env_params := st_params st\<rparr>) c 7 delegatedWorld = (Ret (Inr ()), w') \<and>
     delegateBy (BuildDelegateKey 5 7) (store w') = Some d' \<and> (\<exists>u. UpdateBalanceProof d' = Ret u \<and> du_Nonce u < du_Nonce sampleProof)"
proof -
  let ?c = "sampleRequest\<lparr>c_UpdateTransfer := (c_UpdateTransfer sampleRequest)\<lparr>ut_Nonce := 1\<rparr>\<rparr>"
  let ?cl = "(defaultCmdline quietEnv sampleHost 0)\<lparr>debugFlag := True\<rparr>"
  obtain st where st: "fullConfig sampleHost ?cl = Configured st"
    using default_configured [of True] by blast
  let ?env = "quietEnv\<lparr>env_params := st_params st\<rparr>"
  have env: "env_params ?env = st_params st" "no_faults ?env"
    using no_faults_quietEnv by (simp_all add: no_faults_def)
  have req: "request_ok ?c" "c_ChannelIdentifier ?c = 5" using sampleRequest_ok
    by (simp_all add: request_ok_def GetDelegateUnlocks_def GetDeleteSecrets_def sampleRequest_def)
  have row: "delegateBy (BuildDelegateKey 5 7) (store delegatedWorld) = Some (sampleDelegate 5 7)" by simp
  obtain w' d' where "ReceiveDelegate ?env ?c 7 delegatedWorld = (Ret (Inr ()), w')"
      "delegateBy (BuildDelegateKey 5 7) (store w') = Some d'" "UpdateBalanceProof d' = Ret (GetDelegateUpdateBalanceProof ?c)"
    using debug_flag_drops_nonce_check [OF st _ env delegatedWorld_ok(1,2) req(1), of 7] row sampleDelegate_getters(5) req(2) env(1)
    by (auto simp del: delegatedWorld_ok)
  moreover have "du_Nonce (GetDelegateUpdateBalanceProof ?c) < du_Nonce sampleProof"
    by (simp add: GetDelegateUpdateBalanceProof_def sampleProof_def)
  ultimately show ?thesis using st row sampleDelegate_getters(1) by blast
qed

end
