(* ===== verification/PM_Database.thy ===== *)
theory PM_Database
  imports PM_Main
begin

text \<open>
  The life of the database: \<open>OpenDb\<close> and \<open>CloseDB\<close> of \<open>models/db.go\<close>, \<open>SetupTestDb\<close> of \<open>models/codefortest.go\<close>, and how the
  quit handler of \<open>mainCtx\<close> ends with it.

  The SQLite files are a map from paths; a file has the tables that were created in it, with their columns and indexes, and their
  rows.  What \<open>gorm\<close> does to a file when it is opened (\<open>autoMigrate\<close> of the vendored \<open>scope.go\<close>) is modelled down to its single
  statements.  Whether the driver can open a file or run one of these statements, in which order a Go map yields the
  indexes, and whether the system removes a file, are parameters (\<open>driver\<close>).
\<close>

subsection \<open>Tables\<close>

datatype table =
    TableDelegate | TablePunish | TableDispose | TableAccount | TableMonitor | TableTransfer | TableLastBlock | TableRecord

text \<open>
  The fields of the stored structs in their order: the column \<open>gorm\<close> derives from the name, and whether it has an \<open>index\<close> tag.
\<close>

definition delegateFields :: "(string \<times> bool) list" where
  "delegateFields =
     [(''key'', False), (''channel_identifier_str'', True), (''open_block_number'', False), (''token_address_str'', False),
      (''delegator_address_str'', False), (''partner_address_str'', False), (''settle_block_number'', False),
      (''delegate_timestamp'', False), (''delegate_block_number'', False), (''status'', True), (''error'', False),
      (''need_smt_str'', False), (''update_balance_proof_gob_bytes'', False), (''unlocks_gob_bytes'', False),
      (''secrets_gob_bytes'', False)]"

definition punishFields :: "(string \<times> bool) list" where
  "punishFields =
     [(''id'', False), (''lock_hash_str'', False), (''delegate_key'', True), (''additional_hash_str'', False),
      (''signature'', False)]"

definition disposeFields :: "(string \<times> bool) list" where
  "disposeFields =
     [(''id'', False), (''lock_secret_hash_str'', False), (''delegate_key'', True)]"

definition accountFields :: "(string \<times> bool) list" where
  "accountFields =
     [(''address'', False), (''total_received_smt_bytes'', False), (''used_smt_bytes'', False), (''locked_smt_bytes'', False),
      (''need_smt_bytes'', False)]"

definition monitorFields :: "(string \<times> bool) list" where
  "monitorFields =
     [(''key'', False), (''block_number'', True), (''type'', False), (''delegate_key'', False)]"

definition transferFields :: "(string \<times> bool) list" where
  "transferFields =
     [(''key'', False), (''block_number'', True), (''channel_identifier_str'', False), (''open_block_number'', False),
      (''token_address_str'', False), (''from_address_str'', False), (''nonce'', False), (''amount_str'', False)]"

definition lastBlockFields :: "(string \<times> bool) list" where
  "lastBlockFields =
     [(''key'', False), (''block_number'', False)]"

definition recordFields :: "(string \<times> bool) list" where
  "recordFields =
     [(''key'', False), (''channel_identifier_str'', False), (''open_block_number'', False), (''delegator_str'', False),
      (''type'', True), (''status'', True), (''error'', False), (''execute_timestamp'', False), (''tx_hash_str'', False),
      (''tx_create_block_number'', False), (''tx_create_timestamp'', False), (''tx_pack_block_number'', False),
      (''tx_pack_timestamp'', False), (''gob_params'', False), (''secret'', True)]"

fun fieldsOf :: "table \<Rightarrow> (string \<times> bool) list" where
  "fieldsOf TableDelegate = delegateFields"
| "fieldsOf TablePunish = punishFields"
| "fieldsOf TableDispose = disposeFields"
| "fieldsOf TableAccount = accountFields"
| "fieldsOf TableMonitor = monitorFields"
| "fieldsOf TableTransfer = transferFields"
| "fieldsOf TableLastBlock = lastBlockFields"
| "fieldsOf TableRecord = recordFields"

definition columnsOf :: "table \<Rightarrow> string list" where
  "columnsOf t = map fst (fieldsOf t)"

definition indexesOf :: "table \<Rightarrow> string list" where
  "indexesOf t = map fst (filter snd (fieldsOf t))"

subsection \<open>Files\<close>

record dbFile =
  df_tables :: "table \<Rightarrow> string list option"
  df_indexes :: "(table \<times> string) list"
  df_rows :: modeldb

type_synonym disk = "string \<Rightarrow> dbFile option"

text \<open>The statements of a migration.  An index has the name of its table and its column.\<close>

datatype ddl = CreateTable table | AddColumn table string | CreateIndex table string

record driver =
  drv_openErr :: "string \<Rightarrow> string option"
  drv_execErr :: "ddl \<Rightarrow> string option"
  drv_indexOrder :: "table \<Rightarrow> string list \<Rightarrow> string list"
  os_removeErr :: "string \<Rightarrow> string option"

text \<open>A file that does not exist is created with the first connection.\<close>

definition newFile :: dbFile where
  "newFile = \<lparr>df_tables = Map.empty, df_indexes = [], df_rows = emptyDb\<rparr>"

definition openFile :: "disk \<Rightarrow> string \<Rightarrow> dbFile" where
  "openFile disk path = (case disk path of None \<Rightarrow> newFile | Some f \<Rightarrow> f)"

subsection \<open>Opening and closing\<close>

text \<open>The connection is nil until \<open>gorm.Open\<close>; a closed one keeps its file.  The zero mutexes are not locked.\<close>

record connection =
  cn_path :: string
  cn_closed :: bool

record modelDB =
  md_db :: "connection option"
  md_Name :: string

definition newModelDB :: modelDB where
  "newModelDB = \<lparr>md_db = None, md_Name = ''''\<rparr>"

text \<open>
  What a successful statement does.  The rows stay: a column added to a row is NULL, which \<open>gorm\<close> reads as the zero value of the
  field, and \<open>df_rows\<close> are the rows as they are read.
\<close>

fun runDdl :: "ddl \<Rightarrow> dbFile \<Rightarrow> dbFile" where
  "runDdl (CreateTable t) f = f\<lparr>df_tables := (df_tables f)(t \<mapsto> columnsOf t)\<rparr>"
| "runDdl (AddColumn t c) f =
     (case df_tables f t of None \<Rightarrow> f | Some cs \<Rightarrow> f\<lparr>df_tables := (df_tables f)(t \<mapsto> cs @ [c])\<rparr>)"
| "runDdl (CreateIndex t c) f = f\<lparr>df_indexes := df_indexes f @ [(t, c)]\<rparr>"

text \<open>
  A scope is a file with the error its \<open>gorm.DB\<close> has collected: \<open>Exec\<close> does nothing once there is one, and the copies of the
  \<open>gorm.DB\<close> that create the indexes start with it.
\<close>

type_synonym gscope = "dbFile \<times> string option"

fun scopeExec :: "driver \<Rightarrow> ddl \<Rightarrow> gscope \<Rightarrow> gscope" where
  "scopeExec drv d (f, Some e) = (f, Some e)"
| "scopeExec drv d (f, None) = (case drv_execErr drv d of Some e \<Rightarrow> (f, Some e) | None \<Rightarrow> (runDdl d f, None))"

fun addIndex :: "driver \<Rightarrow> table \<Rightarrow> string \<Rightarrow> gscope \<Rightarrow> gscope" where
  "addIndex drv t c (f, err) = (if (t, c) \<in> set (df_indexes f) then (f, err) else scopeExec drv (CreateIndex t c) (f, err))"

definition autoIndex :: "driver \<Rightarrow> table \<Rightarrow> gscope \<Rightarrow> gscope" where
  "autoIndex drv t s = fold (addIndex drv t) (drv_indexOrder drv t (indexesOf t)) s"

definition createTable :: "driver \<Rightarrow> table \<Rightarrow> gscope \<Rightarrow> gscope" where
  "createTable drv t s = autoIndex drv t (scopeExec drv (CreateTable t) s)"

definition HasColumn :: "dbFile \<Rightarrow> table \<Rightarrow> string \<Rightarrow> bool" where
  "HasColumn f t c = (case df_tables f t of None \<Rightarrow> False | Some cs \<Rightarrow> c \<in> set cs)"

fun addColumn :: "driver \<Rightarrow> table \<Rightarrow> string \<Rightarrow> gscope \<Rightarrow> gscope" where
  "addColumn drv t c (f, err) = (if HasColumn f t c then (f, err) else scopeExec drv (AddColumn t c) (f, err))"

fun autoMigrate :: "driver \<Rightarrow> table \<Rightarrow> gscope \<Rightarrow> gscope" where
  "autoMigrate drv t (f, err) =
     (case df_tables f t of
        None \<Rightarrow> createTable drv t (f, err)
      | Some _ \<Rightarrow> autoIndex drv t (fold (addColumn drv t) (columnsOf t) (f, err)))"

text \<open>The call of \<open>OpenDb\<close>: each migration starts from the clean \<open>gorm.DB\<close>, and the code drops the one that has its error.\<close>

definition AutoMigrate :: "driver \<Rightarrow> table \<Rightarrow> dbFile \<Rightarrow> dbFile" where
  "AutoMigrate drv t f = fst (autoMigrate drv t (f, None))"

definition migrations :: "table list" where
  "migrations =
     [TableDelegate, TablePunish, TableDispose, TableAccount, TableMonitor, TableTransfer, TableLastBlock, TableRecord]"

text \<open>\<open>Inl n\<close>: \<open>log.Crit\<close> has ended the process with code \<open>n\<close>; the error the code would return after it is never seen.\<close>

definition OpenDb :: "driver \<Rightarrow> string \<Rightarrow> disk \<Rightarrow> (int + modelDB \<times> string option) \<times> disk" where
  "OpenDb drv dbPath disk =
     (case drv_openErr drv dbPath of
        Some _ \<Rightarrow> (Inl 1, disk)
      | None \<Rightarrow>
          let model = newModelDB\<lparr>md_db := Some \<lparr>cn_path = dbPath, cn_closed = False\<rparr>\<rparr>;
              model = model\<lparr>md_Name := dbPath\<rparr>;
              f = fold (AutoMigrate drv) migrations (openFile disk dbPath)
          in (Inr (model, None), disk(dbPath \<mapsto> f)))"

text \<open>\<open>Close\<close> of a nil \<open>gorm.DB\<close> is a nil dereference; an error of the driver is logged.\<close>

definition CloseDB :: "modelDB \<Rightarrow> modelDB outcome" where
  "CloseDB model =
     (case md_db model of
        None \<Rightarrow> Panic ''invalid memory address or nil pointer dereference''
      | Some c \<Rightarrow> Ret (model\<lparr>md_db := Some (c\<lparr>cn_closed := True\<rparr>)\<rparr>))"

definition os_Remove :: "driver \<Rightarrow> string \<Rightarrow> disk \<Rightarrow> string option \<times> disk" where
  "os_Remove drv path disk =
     (case os_removeErr drv path of Some e \<Rightarrow> (Some e, disk) | None \<Rightarrow> (None, disk(path := None)))"

definition testDbPath :: "hostEnv \<Rightarrow> string" where
  "testDbPath h = Join [os_TempDir h, ''test.db'']"

text \<open>The errors of the two removals are assigned and not read.\<close>

definition SetupTestDb :: "driver \<Rightarrow> hostEnv \<Rightarrow> disk \<Rightarrow> (int + modelDB \<times> string option) \<times> disk" where
  "SetupTestDb drv h disk =
     (let dbPath = testDbPath h;
          (err, disk) = os_Remove drv dbPath disk;
          (err, disk) = os_Remove drv (dbPath @ ''.lock'') disk
      in OpenDb drv dbPath disk)"

subsection \<open>The database behind the service\<close>

text \<open>
  The tables a handle works on: those of its file.  A statement on a table that was not created or lacks a column, or on a
  closed connection, fails.
\<close>

definition tablesOf :: "disk \<Rightarrow> modelDB \<Rightarrow> modeldb" where
  "tablesOf disk model = (case md_db model of None \<Rightarrow> emptyDb | Some c \<Rightarrow> df_rows (openFile disk (cn_path c)))"

definition usable :: "disk \<Rightarrow> modelDB \<Rightarrow> table \<Rightarrow> bool" where
  "usable disk model t =
     (case md_db model of
        None \<Rightarrow> False
      | Some c \<Rightarrow> \<not> cn_closed c \<and> (\<forall>col \<in> set (columnsOf t). HasColumn (openFile disk (cn_path c)) t col))"

text \<open>What \<open>mainCtx\<close> gets for a path, and the disk when the service has written the tables \<open>db\<close>.\<close>

definition databaseAt :: "driver \<Rightarrow> disk \<Rightarrow> string \<Rightarrow> string + modeldb" where
  "databaseAt drv disk path =
     (case OpenDb drv path disk of
        (Inl _, _) \<Rightarrow> Inl ''cannot create or open db''
      | (Inr (model, _), disk') \<Rightarrow> Inr (tablesOf disk' model))"

definition written :: "modeldb \<Rightarrow> modelDB \<Rightarrow> disk \<Rightarrow> disk" where
  "written db model disk =
     (case md_db model of None \<Rightarrow> disk
      | Some c \<Rightarrow> disk(cn_path c \<mapsto> (openFile disk (cn_path c))\<lparr>df_rows := db\<rparr>))"

subsection \<open>Stopping\<close>

text \<open>
  The quit handler: the query and the chain events are stopped, then the database is closed and the process exits with 0.  A nil
  dereference in \<open>CloseDB\<close> would end it with 2.
\<close>

definition quitSequence :: "query \<Rightarrow> modelDB \<Rightarrow> (query \<times> timerSignal list \<times> signal list) \<times> modelDB option \<times> int" where
  "quitSequence sq model =
     (let stopped = quitHandler sq in
      case CloseDB model of Ret model \<Rightarrow> (stopped, Some model, 0) | Panic _ \<Rightarrow> (stopped, None, 2))"

subsection \<open>Lemmas\<close>

text \<open>What a migration makes of the columns of its table: all of them when there was no table, else what can be added.\<close>

definition migrated :: "driver \<Rightarrow> table \<Rightarrow> string list option \<Rightarrow> string list option" where
  "migrated drv t cols =
     (case cols of
        None \<Rightarrow> if drv_execErr drv (CreateTable t) = None then Some (columnsOf t) else None
      | Some have \<Rightarrow>
          Some (have @ takeWhile (\<lambda>c. drv_execErr drv (AddColumn t c) = None) [c \<leftarrow> columnsOf t. c \<notin> set have]))"

lemmas fields_defs = delegateFields_def punishFields_def disposeFields_def accountFields_def monitorFields_def transferFields_def lastBlockFields_def recordFields_def

lemma columnsOf_distinct [simp]: "distinct (columnsOf t)"
  by (cases t) (simp_all add: columnsOf_def fields_defs)

lemma columnsOf_nonempty [simp]: "columnsOf t \<noteq> []"
  by (cases t) (simp_all add: columnsOf_def fields_defs)

lemma runDdl_rows [simp]: "df_rows (runDdl d f) = df_rows f"
  by (cases d) (simp_all split: option.split)

lemma scopeExec_rows [simp]: "df_rows (fst (scopeExec drv d s)) = df_rows (fst s)"
  by (cases s; cases "snd s") (auto split: option.split)

lemma addIndex_rows [simp]: "df_rows (fst (addIndex drv t c s)) = df_rows (fst s)"
  by (cases s) (simp del: scopeExec.simps)

lemma addColumn_rows [simp]: "df_rows (fst (addColumn drv t c s)) = df_rows (fst s)"
  by (cases s) (simp del: scopeExec.simps)

lemma addIndexes_rows [simp]: "df_rows (fst (fold (addIndex drv t) cs s)) = df_rows (fst s)"
  by (induction cs arbitrary: s) (simp_all del: addIndex.simps)

lemma addColumns_rows [simp]: "df_rows (fst (fold (addColumn drv t) cs s)) = df_rows (fst s)"
  by (induction cs arbitrary: s) (simp_all del: addColumn.simps)

lemma AutoMigrate_rows [simp]: "df_rows (AutoMigrate drv t f) = df_rows f"
  by (simp add: AutoMigrate_def createTable_def autoIndex_def del: addIndex.simps addColumn.simps scopeExec.simps split: option.split)

text \<open>An index changes no table.\<close>

lemma addIndex_tables [simp]: "df_tables (fst (addIndex drv t c s)) = df_tables (fst s)"
  by (cases s; cases "snd s") (auto split: option.split)

lemma autoIndex_tables [simp]: "df_tables (fst (autoIndex drv t s)) = df_tables (fst s)"
proof -
  have "df_tables (fst (fold (addIndex drv t) cs s)) = df_tables (fst s)" for cs
    by (induction cs arbitrary: s) (simp_all del: addIndex.simps)
  then show ?thesis by (simp add: autoIndex_def)
qed

lemma addColumns_failed: "fold (addColumn drv t) cs (f, Some e) = (f, Some e)"
  by (induction cs) simp_all

lemma addColumns_tables:
  assumes "df_tables f t = Some have" and "distinct cs"
  shows "df_tables (fst (fold (addColumn drv t) cs (f, None))) =
    (df_tables f)(t \<mapsto> have @ takeWhile (\<lambda>c. drv_execErr drv (AddColumn t c) = None) [c \<leftarrow> cs. c \<notin> set have])"
  using assms
proof (induction cs arbitrary: f "have")
  case Nil
  then show ?case by (simp add: fun_upd_idem)
next
  case (Cons c cs)
  show ?case
  proof (cases "c \<in> set have")
    case True
    then show ?thesis using Cons by (simp add: HasColumn_def)
  next
    case False
    have others: "[d \<leftarrow> cs. d \<notin> set (have @ [c])] = [d \<leftarrow> cs. d \<notin> set have]"
      using Cons.prems(2) by (intro filter_cong) auto
    let ?f = "f\<lparr>df_tables := (df_tables f)(t \<mapsto> have @ [c])\<rparr>"
    have tail: "df_tables (fst (fold (addColumn drv t) cs (?f, None))) =
        (df_tables f)(t \<mapsto> (have @ [c]) @ takeWhile (\<lambda>c. drv_execErr drv (AddColumn t c) = None) [d \<leftarrow> cs. d \<notin> set have])"
      using Cons.IH [of ?f "have @ [c]"] Cons.prems(2) unfolding others by (auto simp: fun_eq_iff)
    show ?thesis
      using False Cons.prems tail
      by (cases "drv_execErr drv (AddColumn t c)") (auto simp: HasColumn_def addColumns_failed fun_eq_iff)
  qed
qed

lemma AutoMigrate_tables: "df_tables (AutoMigrate drv t f) = (df_tables f)(t := migrated drv t (df_tables f t))"
proof (cases "df_tables f t")
  case None
  then show ?thesis
    by (auto simp: AutoMigrate_def migrated_def createTable_def fun_upd_idem split: option.split)
next
  case (Some "have")
  then show ?thesis
    using addColumns_tables [OF Some columnsOf_distinct, of drv] by (simp add: AutoMigrate_def migrated_def)
qed

lemma migrate_rows [simp]: "df_rows (fold (AutoMigrate drv) ts f) = df_rows f"
  by (induction ts arbitrary: f) simp_all

lemma migrate_tables:
  "distinct ts \<Longrightarrow>
   df_tables (fold (AutoMigrate drv) ts f) t = (if t \<in> set ts then migrated drv t (df_tables f t) else df_tables f t)"
  by (induction ts arbitrary: f) (auto simp: AutoMigrate_tables)

lemma migrations_complete [simp]: "t \<in> set migrations"
  by (cases t) (simp_all add: migrations_def)

lemma migrations_distinct [simp]: "distinct migrations"
  by (simp add: migrations_def)

lemma takeWhile_filter_all:
  "(\<forall>x \<in> set xs. x \<in> A \<or> x \<in> set (takeWhile P [x \<leftarrow> xs. x \<notin> A])) \<longleftrightarrow> (\<forall>x \<in> set xs. x \<in> A \<or> P x)"
proof
  assume l: "\<forall>x \<in> set xs. x \<in> A \<or> x \<in> set (takeWhile P [x \<leftarrow> xs. x \<notin> A])"
  then show "\<forall>x \<in> set xs. x \<in> A \<or> P x" by (auto dest: set_takeWhileD)
next
  assume r: "\<forall>x \<in> set xs. x \<in> A \<or> P x"
  then have all: "takeWhile P [x \<leftarrow> xs. x \<notin> A] = [x \<leftarrow> xs. x \<notin> A]" by (auto simp: takeWhile_eq_all_conv)
  show "\<forall>x \<in> set xs. x \<in> A \<or> x \<in> set (takeWhile P [x \<leftarrow> xs. x \<notin> A])" unfolding all by auto
qed

text \<open>When a table has all its columns after a migration.\<close>

lemma migrated_complete:
  "(\<forall>c \<in> set (columnsOf t). case migrated drv t cols of None \<Rightarrow> False | Some cs \<Rightarrow> c \<in> set cs) \<longleftrightarrow>
   (case cols of
      None \<Rightarrow> drv_execErr drv (CreateTable t) = None
    | Some have \<Rightarrow> \<forall>c \<in> set (columnsOf t). c \<in> set have \<or> drv_execErr drv (AddColumn t c) = None)"
proof (cases cols)
  case None
  moreover have "hd (columnsOf t) \<in> set (columnsOf t)"
    by (rule hd_in_set) simp
  ultimately show ?thesis by (auto simp: migrated_def)
next
  case (Some "have")
  then show ?thesis
    using takeWhile_filter_all [of "columnsOf t" "set have" "\<lambda>c. drv_execErr drv (AddColumn t c) = None"]
    by (simp add: migrated_def)
qed

lemma migrated_monotone: "cols = Some cs \<Longrightarrow> \<exists>more. migrated drv t cols = Some (cs @ more)"
  by (simp add: migrated_def)

text \<open>A table that has its columns keeps them in every later migration.\<close>

lemma migrate_keeps_columns:
  assumes "HasColumn f t c" shows "HasColumn (fold (AutoMigrate drv) migrations f) t c"
  using assms by (auto simp: HasColumn_def migrate_tables migrated_def split: option.splits)

lemma OpenDb_Inr:
  "OpenDb drv path disk = (Inr (model, err), disk') \<longleftrightarrow>
     drv_openErr drv path = None \<and> err = None \<and> model = \<lparr>md_db = Some \<lparr>cn_path = path, cn_closed = False\<rparr>, md_Name = path\<rparr> \<and>
     disk' = disk(path \<mapsto> fold (AutoMigrate drv) migrations (openFile disk path))"
  by (auto simp: OpenDb_def newModelDB_def Let_def split: option.split)

lemma openFile_update [simp]: "openFile (disk(path \<mapsto> f)) path' = (if path' = path then f else openFile disk path')"
  by (simp add: openFile_def)

lemma openFile_removed [simp]: "openFile (disk(path := None)) path = newFile"
  by (simp add: openFile_def)

lemma newFile_simps [simp]: "df_tables newFile = Map.empty" "df_rows newFile = emptyDb"
  by (simp_all add: newFile_def)

text \<open>A handle that was opened is closed, the process exits with 0, and no table can be used any more.\<close>

lemma quitSequence_open:
  assumes "OpenDb drv path disk = (Inr (model, err), disk')"
  shows "\<exists>model'. quitSequence sq model = ((Stop sq, [SmtQuit], [QuitSignal]), Some model', 0) \<and> \<not> usable disk'' model' t"
  using assms by (simp add: OpenDb_Inr quitSequence_def quitHandler_def ce_Stop_def CloseDB_def usable_def)

subsection \<open>Properties\<close>


text \<open>
  Without a failing statement a file has every column of every table and every index after it was opened, whatever version of the
  program wrote it and in whatever order the map yields the indexes.
\<close>

lemma addIndexes_all:
  assumes "drv_execErr drv = (\<lambda>_. None)"
  shows "\<exists>f'. fold (addIndex drv t) cs (f, None) = (f', None) \<and> set (df_indexes f') = set (df_indexes f) \<union> Pair t ` set cs"
proof (induction cs arbitrary: f)
  case (Cons c cs)
  let ?f = "if (t, c) \<in> set (df_indexes f) then f else f\<lparr>df_indexes := df_indexes f @ [(t, c)]\<rparr>"
  have "addIndex drv t c (f, None) = (?f, None)" and "set (df_indexes ?f) = insert (t, c) (set (df_indexes f))"
    using assms by auto
  moreover obtain f' where "fold (addIndex drv t) cs (?f, None) = (f', None)" "set (df_indexes f') = set (df_indexes ?f) \<union> Pair t ` set cs"
    using Cons.IH by blast
  ultimately show ?case by (intro exI [of _ f']) (simp del: addIndex.simps)
qed simp

lemma addColumns_clean:
  assumes "drv_execErr drv = (\<lambda>_. None)"
  shows "\<exists>f'. fold (addColumn drv t) cs (f, None) = (f', None) \<and> df_indexes f' = df_indexes f"
proof (induction cs arbitrary: f)
  case (Cons c cs)
  have "\<exists>f1. addColumn drv t c (f, None) = (f1, None) \<and> df_indexes f1 = df_indexes f"
    using assms by (auto split: option.split)
  then show ?case using Cons.IH by (force simp del: addColumn.simps)
qed simp

lemma AutoMigrate_indexes:
  assumes clean: "drv_execErr drv = (\<lambda>_. None)" and "set (drv_indexOrder drv t (indexesOf t)) = set (indexesOf t)"
  shows "set (df_indexes (AutoMigrate drv t f)) = set (df_indexes f) \<union> Pair t ` set (indexesOf t)"
proof -
  obtain f' where "autoMigrate drv t (f, None) = autoIndex drv t (f', None)" "df_indexes f' = df_indexes f"
    using addColumns_clean [OF clean, of t "columnsOf t" f] clean
    by (cases "df_tables f t") (auto simp: createTable_def)
  then show ?thesis
    using addIndexes_all [OF clean, of t "drv_indexOrder drv t (indexesOf t)" f'] assms(2)
    by (auto simp: AutoMigrate_def autoIndex_def)
qed

lemma opened_completely:
  assumes opened: "OpenDb drv path disk = (Inr (model, err), disk')" and clean: "drv_execErr drv = (\<lambda>_. None)"
    and order: "\<And>t. set (drv_indexOrder drv t (indexesOf t)) = set (indexesOf t)"
  shows "usable disk' model t" and "c \<in> set (indexesOf t) \<Longrightarrow> (t, c) \<in> set (df_indexes (openFile disk' path))"
proof -
  let ?f = "fold (AutoMigrate drv) migrations (openFile disk path)"
  have handle: "model = \<lparr>md_db = Some \<lparr>cn_path = path, cn_closed = False\<rparr>, md_Name = path\<rparr>" "openFile disk' path = ?f"
    using opened by (simp_all add: OpenDb_Inr)
  have "\<forall>c \<in> set (columnsOf t). HasColumn ?f t c"
    using migrated_complete [of t drv "df_tables (openFile disk path) t"] clean
    by (simp add: HasColumn_def migrate_tables split: option.splits)
  then show "usable disk' model t"
    unfolding usable_def handle by (simp add: handle)
  have "set (df_indexes (fold (AutoMigrate drv) ts f)) = set (df_indexes f) \<union> (\<Union>t \<in> set ts. Pair t ` set (indexesOf t))" for ts f
    by (induction ts arbitrary: f) (auto simp: AutoMigrate_indexes [OF clean order])
  then show "c \<in> set (indexesOf t) \<Longrightarrow> (t, c) \<in> set (df_indexes (openFile disk' path))"
    by (auto simp: handle)
qed

text \<open>
  A restart finds what the stopped process has written, and can use every table that could be used before, also when no table can be
  created then: the service is started on exactly the stored tables.
\<close>
lemma restart_finds_tables:
  assumes opened: "OpenDb drv path disk = (Inr (model, None), disk')" and can_open: "drv_openErr drv' path = None"
  shows "databaseAt drv' (written db model disk') path = Inr db"
    and "\<exists>model'' disk''. OpenDb drv' path (written db model disk') = (Inr (model'', None), disk'') \<and>
      (\<forall>t. usable disk' model t \<longrightarrow> usable disk'' model'' t)"
    and "mainCtx env cfg url client networkID (databaseAt drv' (written db model disk') path) service registry secretRegistry w
      = Serving chainID ce sq polls start \<Longrightarrow> store ce = db"
proof -
  let ?f = "fold (AutoMigrate drv) migrations (openFile disk path)"
  have model: "model = \<lparr>md_db = Some \<lparr>cn_path = path, cn_closed = False\<rparr>, md_Name = path\<rparr>" "disk' = disk(path \<mapsto> ?f)"
    using opened by (simp_all add: OpenDb_Inr)
  have disk: "written db model disk' = disk'(path \<mapsto> ?f\<lparr>df_rows := db\<rparr>)"
    by (simp add: written_def model)
  obtain model'' disk'' where again: "OpenDb drv' path (written db model disk') = (Inr (model'', None), disk'')"
    using can_open by (simp add: OpenDb_def Let_def)
  then have "databaseAt drv' (written db model disk') path = Inr (tablesOf disk'' model'')"
    by (simp add: databaseAt_def)
  also have "tablesOf disk'' model'' = db"
    using again by (auto simp: OpenDb_Inr tablesOf_def disk)
  finally show found: "databaseAt drv' (written db model disk') path = Inr db" .
  have "usable disk'' model'' t" if "usable disk' model t" for t
    using that again [unfolded disk] migrate_keeps_columns [of "?f\<lparr>df_rows := db\<rparr>" t _ drv']
    by (auto simp: OpenDb_Inr usable_def model HasColumn_def)
  then show "\<exists>model'' disk''. OpenDb drv' path (written db model disk') = (Inr (model'', None), disk'') \<and>
      (\<forall>t. usable disk' model t \<longrightarrow> usable disk'' model'' t)"
    using again by blast
  show "mainCtx env cfg url client networkID (databaseAt drv' (written db model disk') path) service registry secretRegistry w
      = Serving chainID ce sq polls start \<Longrightarrow> store ce = db"
    unfolding found Serving_iff by (auto simp: restart_def)
qed

text \<open>
  The database of a test has no row when the old file could be removed or there was none or it had no row; the errors of
  the removals are not looked at, so that a file that cannot be removed is opened with the rows of the previous test.
\<close>
lemma test_database_rows:
  assumes "SetupTestDb drv h disk = (Inr (model, err), disk')"
  shows "tablesOf disk' model =
    (if os_removeErr drv (testDbPath h) = None then emptyDb else df_rows (openFile disk (testDbPath h)))"
  using assms
  by (auto simp: SetupTestDb_def os_Remove_def Let_def OpenDb_Inr tablesOf_def openFile_def newFile_def split: option.splits if_splits)

end
