(* ===== verification/Spec2Isabelle.thy ===== *)
theory Spec2Isabelle
  imports PM_Delivery PM_Recovery PM_Race PM_Database
begin

text \<open>
  Photon-Monitoring: a verification development of the monitoring service in this repository.

  A Photon node that goes offline hands its half of a payment channel to this service: the newest balance proof of its partner,
  the locks it can unlock, the secrets to register, and the evidence with which obsolete unlocks of the partner are punished.
  When the channel is closed, the service acts for the node on the chain, and charges a prepaid account for each transaction that succeeds.

  \<^bold>\<open>The parts of the program and how they interact.\<close>  The REST handlers (\<open>rest/\<close>) take a request, have it verified
  (\<open>chainservice/verifier.go\<close>, through the interface of \<open>verifier/verifier.go\<close>) and stored in one transaction
  (\<open>models/service.go\<close>).  The chain-event loop (\<open>chainservice/events.go\<close>) schedules the execution points when a channel
  closes, and on each new block starts a goroutine for each point that is due; these send the transactions and bill the account
  (\<open>models/account.go\<close>).  A timer (\<open>smt/listeningsmt.go\<close>) asks the Photon node for the transfers that pay for the service and
  credits them (\<open>models/transfer.go\<close>).  Everything they share is the database (\<open>models/db.go\<close>).  The command line
  (\<open>cmd/photonmonitoring/main.go\<close>) sets the fees (\<open>params/config.go\<close>), logging and profiling (\<open>internal/debug/\<close>), and starts them all.

  \<^bold>\<open>Theories, from the bottom.\<close>
  \<^item> \<open>PM_Prelude\<close>: actions (state, outcome, Go panics), loops over lists and what they do one after the other (\<open>runs\<close>), the judgements
    \<open>keeps\<close> and \<open>safe\<close> with their rules, \<open>int64\<close>.
  \<^item> \<open>PM_Common\<close>: bytes, hexadecimal and decimal texts, hashes and addresses (\<open>utils/utils.go\<close> and go-ethereum's \<open>common\<close>).
  \<^item> \<open>PM_Types\<close>: requests (\<open>models/dto.go\<close>), rows of the tables, error values, parameters (\<open>params/config.go\<close>).
  \<^item> \<open>PM_World\<close>: the database (\<open>modeldb\<close>), what gorm does with it, the outside (\<open>env\<close>), the process (\<open>world\<close>), transactions.  The locale
    \<open>keyed_table\<close> states what saving and looking up a row promise; it is interpreted for the six tables with a primary key.
  \<^item> \<open>PM_Account\<close> (\<open>models/account.go\<close>), \<open>PM_Delegate\<close> (\<open>models/delegate*.go\<close>), \<open>PM_Monitor\<close> (\<open>models/delegatemonitor.go\<close>), \<open>PM_Record\<close>
    (\<open>models/delegate_execute_record.go\<close>, \<open>models/blocknumber.go\<close>), \<open>PM_Transfer\<close> (\<open>models/transfer.go\<close>): one table each.  The locale
    \<open>charging\<close> is the contract of lock, use and unlock that the billing rests on.
  \<^item> \<open>PM_Service\<close>: \<open>ReceiveDelegate\<close> and its parts.
  \<^item> \<open>PM_Verifier\<close>: the signed messages byte by byte, and \<open>VerifyDelegate\<close>.
  \<^item> \<open>PM_Smt\<close>: one poll for payments.
  \<^item> \<open>PM_Execute\<close>, \<open>PM_Events\<close>: the second and the first half of \<open>chainservice/events.go\<close>.
  \<^item> \<open>PM_Rest\<close>: the three handlers, the configuration, and the locale \<open>delegate_verifier\<close> of what a handler relies on.
  \<^item> \<open>PM_Start\<close>: \<open>mainCtx\<close>, \<open>NewChainEvents\<close>, \<open>Start\<close> and the two loops.
  \<^item> \<open>PM_Path\<close>: \<open>filepath.Clean\<close> and \<open>filepath.Join\<close> on Unix.  \<open>PM_Debug\<close>: the debug handler of \<open>internal/debug/\<close>, its recordings
    and files, and the set-up from the command line.
  \<^item> \<open>PM_Main\<close>: \<open>StartMain\<close>, the whole of \<open>config\<close>, the directories, the end of the process and its exit status (\<open>exitStatus\<close>: a return from
    \<open>main\<close> is 0, an uncaught panic 2), the routes of \<open>rest/main.go\<close>, and the empty interface implementations of \<open>chainservice/helper.go\<close>.
  \<^item> \<open>PM_Safety\<close>: the invariants of the whole service, proved once in the locale \<open>service_invariant\<close> and interpreted twice: under
    arbitrary database faults, and for a database that does not fail.
  \<^item> \<open>PM_System\<close>: the service as a transition system (\<open>service_step\<close>), its reachable states, and what holds in all of them; with
    \<open>service_history\<close>, the requests that were posted to reach a state.
  \<^item> \<open>PM_Liveness\<close>: work that is due is started.
  \<^item> \<open>PM_Rows\<close>: the locale \<open>row_invariant\<close>, the contract of an invariant over the stored delegations, the started goroutines and the calls sent;
    every step of the service but the storing of a request is shown once to keep it.  \<open>PM_Authority\<close> interprets it for the authority of the service (no
    transaction without a mandate among the requests posted so far), \<open>PM_Recovery\<close> for what a crash leaves behind, and shows what a goroutine that ends late does, and
    \<open>PM_Delivery\<close> for the log of the transactions, and follows a due delegation to its transaction.
  \<^item> \<open>PM_Book\<close>: an abstract account book, refined by the account operations (locale \<open>refines\<close>).  \<open>PM_Interleave\<close>: the statements of the account
    operations as steps of threads (locale \<open>isolated\<close>), in any order.  \<open>PM_Race\<close>: annotated statements in the manner of Owicki and Gries
    (locale \<open>annotated\<close>), and which interleavings are harmless.
  \<^item> \<open>PM_Database\<close>: the files of the database, \<open>OpenDb\<close> and \<open>CloseDB\<close>, what the migration of \<open>gorm\<close> (\<open>autoMigrate\<close> and the functions it calls,
    in \<open>vendor/github.com/jinzhu/gorm/scope.go\<close>) makes of tables, columns and indexes, the end of the quit handler, and \<open>SetupTestDb\<close> of \<open>models/codefortest.go\<close>.

  \<^bold>\<open>Correspondence.\<close>  A definition has the name of its Go function, or says which part of a function it is.  A method of
  \<open>ModelDB\<close> or \<open>ChainEvents\<close> is an action on \<open>world\<close>: it returns its results with the state it leaves, and a
  Go panic (a nil dereference, a failed \<open>accountSanity\<close>, an explicit \<open>panic\<close>) is the outcome \<open>Panic\<close>, which keeps the writes made so far.
  Errors are values of \<open>error\<close>, \<open>big.Int\<close> is \<open>int\<close>, \<open>int64\<close> is \<open>int\<close> with the wrap-around \<open>i64\<close> written out where the code
  computes, hashes and addresses are words.  A pointer that may be nil is an \<open>option\<close>.  \<open>env\<close> gives every answer that is not this repository's as
  a function of a call counter (\<open>clock\<close>): whether a statement fails, time, random keys, the Ethereum node and its contracts, Keccak and the recovery of a signer.
  A theorem without hypotheses on \<open>env\<close> holds whatever they do; \<open>no_faults\<close> says that no database statement fails.  A sound database
  (\<open>accounts_ok\<close>, \<open>delegates_ok\<close>, \<open>rowsOk\<close>: no overdrawn account, rows under the keys of their parties, readable columns) is what every reachable state has.

  \<^bold>\<open>What the lemmas show.\<close>  In every reachable state: no account is overdrawn, the rows are well formed, and (when no statement
  fails) the totals are the recorded payments, and no handler, goroutine or poll crashes.  Due work is started and its transaction sent, once, and
  never again, also when a crash has interrupted it.  Every transaction ever sent executes a part of a posted request that verified, and every stored
  delegation has its proof and its locks from one posted request, its identity from one and its secrets from one.  A goroutine that ends late stores the row it was started with.
  A confirmed request carries the signatures of both participants; no request replaces a newer proof by an older one; an error answer leaves
  the database as it was.  Each transaction is charged exactly when it succeeds, for each kind of transaction and for lists of them, where
  every attempt of a list is tied to its call, its receipt and its record.  The account operations
  refine a book of natural numbers.  Messages of different kinds never coincide.  Rows, keys and texts
  survive the round trip to the database.  The remaining properties describe the operations on every branch, errors included.  The process serves, and
  ends with which code, for which configuration; no profile file is lost, except when the process is ended by an exit.

  \<^bold>\<open>Fuel.\<close>  \<open>handleBlockNumber\<close> calls itself for skipped blocks.  Its model takes two levels of fuel, and a run does not depend on what
  a third nested call would do: a block handled in the loop follows the block before it, so it does not loop again.  All other recursions are structural.

  \<^bold>\<open>Granularity.\<close>  In the transition system a request, a goroutine, a poll and a chain event are single steps, in any order, with crashes between them.  The code
  runs them concurrently without a lock around the account operations.  \<open>PM_Interleave\<close> has their statements as steps: operations on different accounts
  behave as in sequence, two deposits on one account can lose one and overdraw the account; as long as at most one of the operations
  on an account at a time is a deposit, no interleaving overdraws it (\<open>PM_Race\<close>).  The other invariants of
  \<open>PM_System\<close> hold for the code as long as the operations on one account do not overlap.

  \<^bold>\<open>Not modelled.\<close>  Log lines and the functions that only format them, the HTTP server, its middleware and
  JSON (handlers start from the decoded request), the pages of the SQLite file below its tables; the calls of \<open>internal/debug\<close> that only read or free the
  memory of the Go runtime (\<open>MemStats\<close>, \<open>GcStats\<close>, \<open>Stacks\<close>, \<open>FreeOSMemory\<close>) and its fallbacks for Go before 1.6; the branches for Windows.
  The command-line library, the key store, the file system and the driver of the database are given by their answers (\<open>hostEnv\<close>, \<open>dbgEnv\<close>, \<open>driver\<close>).
  The contracts, the event source, Keccak and elliptic curves belong to other repositories and are parameters.
\<close>

end
